(* ===== verification/XT_Prelude.thy ===== *)
theory XT_Prelude
  imports Main "HOL-Library.AList" "HOL-Library.Char_ord" "HOL-Library.List_Lexorder"
begin

text \<open>
  The prelude of the development: the collections of rewrite rules the component theories
  share, Go's built-in map as an association list in iteration order, and the
  invariant principle for the transition systems of the concurrent components.
\<close>

named_theorems go_map_simps \<open>facts about Go maps, read through \<open>map_of\<close>\<close>
named_theorems go_wf \<open>well-formedness of Go maps is kept by every operation\<close>

section \<open>Go maps\<close>

text \<open>
  A Go map is a finite map whose iteration order is unspecified. It is modelled by the list
  of its entries in one such order, every key at most once (\<open>go_wf\<close>). What a component
  computes by ranging over a map is shown independent of that order where the code relies
  on it.
\<close>

type_synonym ('k, 'v) gomap = "('k \<times> 'v) list"

definition go_wf :: "('k, 'v) gomap \<Rightarrow> bool" where
  "go_wf m \<longleftrightarrow> distinct (map fst m)"

definition go_get :: "('k, 'v) gomap \<Rightarrow> 'k \<Rightarrow> 'v option" where
  "go_get m k = map_of m k"

definition go_put :: "'k \<Rightarrow> 'v \<Rightarrow> ('k, 'v) gomap \<Rightarrow> ('k, 'v) gomap" where
  "go_put k v m = AList.update k v m"

definition go_del :: "'k \<Rightarrow> ('k, 'v) gomap \<Rightarrow> ('k, 'v) gomap" where
  "go_del k m = AList.delete k m"

text \<open>The contract of a Go map, with \<open>get\<close> as the abstraction.\<close>

locale keyed_store =
  fixes empty :: "'m"
    and get :: "'m \<Rightarrow> 'k \<Rightarrow> 'v option"
    and put :: "'k \<Rightarrow> 'v \<Rightarrow> 'm \<Rightarrow> 'm"
    and del :: "'k \<Rightarrow> 'm \<Rightarrow> 'm"
    and wf :: "'m \<Rightarrow> bool"
  assumes get_empty: "get empty k = None"
    and get_put: "get (put k v m) k' = (if k' = k then Some v else get m k')"
    and get_del: "get (del k m) k' = (if k' = k then None else get m k')"
    and wf_empty: "wf empty"
    and wf_put: "wf m \<Longrightarrow> wf (put k v m)"
    and wf_del: "wf m \<Longrightarrow> wf (del k m)"
begin

lemma get_fold_del:
  "get (fold (\<lambda>k. if P k then del k else id) ks m) k =
     (if P k \<and> k \<in> set ks then None else get m k)"
  by (induction ks arbitrary: m) (auto simp: get_del)

lemma wf_fold_del: "wf m \<Longrightarrow> wf (fold (\<lambda>k. if P k then del k else id) ks m)"
  by (induction ks arbitrary: m) (auto simp: wf_del)

end

interpretation gm: keyed_store "[]" go_get go_put go_del go_wf
  by unfold_locales
    (auto simp: go_get_def go_put_def go_del_def go_wf_def update_conv' delete_conv'
      distinct_update distinct_delete)

declare gm.get_empty [simp] gm.get_put [simp] gm.get_del [simp]
declare gm.get_put [go_map_simps] gm.get_del [go_map_simps]
declare gm.wf_empty [simp] gm.wf_put [simp] gm.wf_del [simp]
declare gm.wf_put [go_wf] gm.wf_del [go_wf]

lemma go_get_in_set: "go_wf m \<Longrightarrow> (k, v) \<in> set m \<longleftrightarrow> go_get m k = Some v"
  by (simp add: go_wf_def go_get_def)

lemma go_get_SomeD: "go_get m k = Some v \<Longrightarrow> (k, v) \<in> set m"
  by (simp add: go_get_def map_of_SomeD)

lemma go_get_None_iff: "go_get m k = None \<longleftrightarrow> k \<notin> fst ` set m"
  by (simp add: go_get_def map_of_eq_None_iff)

lemma go_in_keys: "k \<in> fst ` set m \<longleftrightarrow> go_get m k \<noteq> None"
  by (auto simp: go_get_None_iff)

lemma go_keys_dom: "set (map fst m) = {k. go_get m k \<noteq> None}"
  by (auto simp: go_get_None_iff)

lemma go_wf_Nil [simp, go_wf]: "go_wf []"
  by (simp add: go_wf_def)

section \<open>Invariants of transition systems\<close>

text \<open>
  The concurrent components are transition systems: an initial predicate and a step
  relation labelled with events. A state predicate that holds initially and is kept by
  every step holds in every reachable state.
\<close>

inductive reach :: "('s \<Rightarrow> bool) \<Rightarrow> ('s \<Rightarrow> 'e \<Rightarrow> 's \<Rightarrow> bool) \<Rightarrow> 's \<Rightarrow> bool"
  for init :: "'s \<Rightarrow> bool" and step :: "'s \<Rightarrow> 'e \<Rightarrow> 's \<Rightarrow> bool"
where
  reach_init: "init s \<Longrightarrow> reach init step s"
| reach_step: "reach init step s \<Longrightarrow> step s e t \<Longrightarrow> reach init step t"

locale inductive_invariant =
  fixes init :: "'s \<Rightarrow> bool"
    and step :: "'s \<Rightarrow> 'e \<Rightarrow> 's \<Rightarrow> bool"
    and inv :: "'s \<Rightarrow> bool"
  assumes inv_init: "init s \<Longrightarrow> inv s"
    and inv_step: "inv s \<Longrightarrow> step s e t \<Longrightarrow> inv t"
begin

lemma reach_inv: "reach init step s \<Longrightarrow> inv s"
  by (induction rule: reach.induct) (auto intro: inv_init inv_step)

end

section \<open>Lists\<close>

text \<open>Reading a list after an update, without a side condition.\<close>

lemma nth_upd: "xs[i := x] ! j = (if i = j \<and> i < length xs then x else xs ! j)"
  by (cases "i < length xs") (auto simp: nth_list_update list_update_beyond)

lemma nth_snoc: "i < Suc (length xs) \<Longrightarrow> (xs @ [x]) ! i = (if i = length xs then x else xs ! i)"
  by (simp add: nth_append)

section \<open>Results\<close>

text \<open>A Go call that returns \<open>(T, error)\<close> is a sum, the error on the left.\<close>

definition is_ok :: "'e + 'a \<Rightarrow> bool" where
  "is_ok r \<longleftrightarrow> (case r of Inl _ \<Rightarrow> False | Inr _ \<Rightarrow> True)"

lemma is_ok_simps [simp]: "is_ok (Inr x)" "\<not> is_ok (Inl e)"
  by (simp_all add: is_ok_def)

lemma is_okE: "is_ok r \<Longrightarrow> (\<And>x. r = Inr x \<Longrightarrow> P) \<Longrightarrow> P"
  by (cases r) auto

end
