(* ===== verification/Go_Error.thy ===== *)
theory Go_Error
  imports XT_Prelude
begin

text \<open>
  Error values: the sentinels of \<^verbatim>\<open>errors.go\<close> and the errors that
  \<^verbatim>\<open>fmt.Errorf\<close> and \<^verbatim>\<open>errors.Join\<close> build from them. An error keeps its format string
  and its arguments, so that \<^verbatim>\<open>errors.Is\<close> follows exactly the arguments of the
  \<open>%w\<close> verbs, and \<open>error_text\<close> is the text \<^verbatim>\<open>Error()\<close> puts on the wire.
\<close>

datatype sentinel =
    ErrNodeNotFound | ErrNodeExists | ErrServiceNotFound | ErrServiceExists
  | ErrFactoryNotFound | ErrInvalidMessage | ErrNodeRunning | ErrNodeStopped
  | ErrRPCDisconnected

text \<open>
  \<open>Foreign\<close> is an error value of code outside the repository (a network, protobuf or
  service error), known by its text only. The arguments of \<^verbatim>\<open>fmt.Errorf\<close> are
  \<open>ArgW\<close> (an error under \<open>%w\<close>), \<open>ArgV\<close> (an error under \<open>%v\<close>), \<open>ArgS\<close> (text),
  \<open>ArgD\<close> (a decimal integer) and \<open>ArgQ\<close> (a quoted string, \<open>%q\<close>).
\<close>

datatype gerror =
    Sentinel sentinel
  | Foreign string
  | Errorf string "garg list"
  | Joined "gerror list"
and garg =
    ArgW gerror | ArgV gerror | ArgS string | ArgD int | ArgQ string

type_synonym 'a result = "gerror + 'a"

text \<open>\<^verbatim>\<open>errors.Is\<close>: the chain runs through the \<open>%w\<close> arguments and through joins.\<close>

primrec errors_Is :: "gerror \<Rightarrow> sentinel \<Rightarrow> bool"
  and arg_Is :: "garg \<Rightarrow> sentinel \<Rightarrow> bool"
where
  "errors_Is (Sentinel s) t \<longleftrightarrow> s = t"
| "errors_Is (Foreign txt) t \<longleftrightarrow> False"
| "errors_Is (Errorf f args) t \<longleftrightarrow> list_ex id (map (\<lambda>a. arg_Is a t) args)"
| "errors_Is (Joined es) t \<longleftrightarrow> list_ex id (map (\<lambda>e. errors_Is e t) es)"
| "arg_Is (ArgW e) t \<longleftrightarrow> errors_Is e t"
| "arg_Is (ArgV e) t \<longleftrightarrow> False"
| "arg_Is (ArgS s) t \<longleftrightarrow> False"
| "arg_Is (ArgD i) t \<longleftrightarrow> False"
| "arg_Is (ArgQ s) t \<longleftrightarrow> False"

primrec sentinel_text :: "sentinel \<Rightarrow> string" where
  "sentinel_text ErrNodeNotFound = ''node not found''"
| "sentinel_text ErrNodeExists = ''node already registered''"
| "sentinel_text ErrServiceNotFound = ''service not found''"
| "sentinel_text ErrServiceExists = ''service already registered''"
| "sentinel_text ErrFactoryNotFound = ''service factory not found''"
| "sentinel_text ErrInvalidMessage = ''invalid message''"
| "sentinel_text ErrNodeRunning = ''node is already running''"
| "sentinel_text ErrNodeStopped = ''node is stopped''"
| "sentinel_text ErrRPCDisconnected = ''rpc connection is disconnected''"

section \<open>The text of an error\<close>

text \<open>Decimal rendering of an integer, as \<open>%d\<close> does it.\<close>

fun nat_digits :: "nat \<Rightarrow> string" where
  "nat_digits n =
     (if n < 10 then [char_of (48 + n)] else nat_digits (n div 10) @ [char_of (48 + n mod 10)])"

declare nat_digits.simps [simp del]

definition fmt_d :: "int \<Rightarrow> string" where
  "fmt_d i = (if i < 0 then CHR ''-'' # nat_digits (nat (- i)) else nat_digits (nat i))"

text \<open>
  The format string with its verbs replaced by the rendered arguments in order. The
  formats of the sources use \<open>%w\<close>, \<open>%v\<close>, \<open>%+v\<close>, \<open>%s\<close>, \<open>%d\<close> and \<open>%q\<close> only.
\<close>

fun go_render :: "string \<Rightarrow> string list \<Rightarrow> string" where
  "go_render [] as = []"
| "go_render (c # f) [] = c # f"
| "go_render (c # f) (a # as) =
     (if c \<noteq> CHR ''%'' then c # go_render f (a # as)
      else case f of
        [] \<Rightarrow> [c]
      | v # g \<Rightarrow> (if v = CHR ''+'' then a @ go_render (drop 1 g) as else a @ go_render g as))"

text \<open>
  The quoting of \<open>%q\<close> depends on Unicode tables and is a parameter \<open>quote\<close>.
\<close>

primrec error_text :: "(string \<Rightarrow> string) \<Rightarrow> gerror \<Rightarrow> string"
  and arg_text :: "(string \<Rightarrow> string) \<Rightarrow> garg \<Rightarrow> string"
where
  "error_text quote (Sentinel s) = sentinel_text s"
| "error_text quote (Foreign txt) = txt"
| "error_text quote (Errorf f args) = go_render f (map (arg_text quote) args)"
| "error_text quote (Joined es) =
     concat (map (\<lambda>(i, t). (if i = 0 then t else char_of (10::nat) # t))
       (enumerate 0 (map (error_text quote) es)))"
| "arg_text quote (ArgW e) = error_text quote e"
| "arg_text quote (ArgV e) = error_text quote e"
| "arg_text quote (ArgS s) = s"
| "arg_text quote (ArgD i) = fmt_d i"
| "arg_text quote (ArgQ s) = quote s"

text \<open>\<^verbatim>\<open>fmt.Errorf("%w: ...", sentinel, ...)\<close>, the form most wrapped errors have.\<close>

abbreviation wrapf :: "sentinel \<Rightarrow> string \<Rightarrow> garg list \<Rightarrow> gerror" where
  "wrapf s f args \<equiv> Errorf (''%w: '' @ f) (ArgW (Sentinel s) # args)"

text \<open>\<^verbatim>\<open>rpcInvalidMessage\<close>: the cause appears under \<open>%v\<close>, so its own chain is cut.\<close>

definition rpcInvalidMessage :: "gerror \<Rightarrow> gerror" where
  "rpcInvalidMessage err = wrapf ErrInvalidMessage ''rpc protocol: %v'' [ArgV err]"

lemma errors_Is_rpcInvalidMessage [simp]:
  "errors_Is (rpcInvalidMessage err) t \<longleftrightarrow> t = ErrInvalidMessage"
  by (auto simp: rpcInvalidMessage_def)

lemma errors_Is_wrapf:
  "list_all (\<lambda>a. \<not> arg_Is a t) args \<Longrightarrow> errors_Is (wrapf s f args) t \<longleftrightarrow> s = t"
  by (auto simp: list_ex_iff list_all_iff)

end
