(* ===== verification/Registry.thy ===== *)
theory Registry
  imports Go_Error
begin

text \<open>
  \<^verbatim>\<open>registry.go\<close>: service keys and locations, the interface
  \<^verbatim>\<open>ServiceRegistry\<close> as the locale \<open>service_registry\<close>, and its implementation
  \<^verbatim>\<open>MemoryRegistry\<close>, which the locale is interpreted on. Every operation holds the
  registry's lock for its whole body, so each is one function of the state.
\<close>

section \<open>Keys and locations\<close>

datatype ServiceKey = ServiceKey (key_Name: string) (key_ID: int)

text \<open>The order of \<^verbatim>\<open>sortServiceKeys\<close>: by name (bytewise), then by id.\<close>

instantiation ServiceKey :: linorder
begin

definition less_eq_ServiceKey :: "ServiceKey \<Rightarrow> ServiceKey \<Rightarrow> bool" where
  "less_eq_ServiceKey a b \<longleftrightarrow>
     (if key_Name a = key_Name b then key_ID a \<le> key_ID b else key_Name a < key_Name b)"

definition less_ServiceKey :: "ServiceKey \<Rightarrow> ServiceKey \<Rightarrow> bool" where
  "less_ServiceKey a b \<longleftrightarrow>
     (if key_Name a = key_Name b then key_ID a < key_ID b else key_Name a < key_Name b)"

instance
proof
  fix x y z :: ServiceKey
  show "(x < y) = (x \<le> y \<and> \<not> y \<le> x)"
    by (auto simp: less_eq_ServiceKey_def less_ServiceKey_def)
  show "x \<le> x"
    by (simp add: less_eq_ServiceKey_def)
  show "x \<le> y \<Longrightarrow> y \<le> z \<Longrightarrow> x \<le> z"
    by (auto simp: less_eq_ServiceKey_def split: if_splits)
  show "x \<le> y \<Longrightarrow> y \<le> x \<Longrightarrow> x = y"
    by (auto simp: less_eq_ServiceKey_def ServiceKey.expand split: if_splits)
  show "x \<le> y \<or> y \<le> x"
    by (auto simp: less_eq_ServiceKey_def)
qed

end

definition key_String :: "ServiceKey \<Rightarrow> string" where
  "key_String k = go_render ''%s:%d'' [key_Name k, fmt_d (key_ID k)]"

record ServiceLocation =
  ServiceName :: string
  ServiceID :: int
  NodeID :: int
  NodeAddr :: string

text \<open>The zero value \<^verbatim>\<open>ServiceLocation{}\<close>.\<close>

definition zero_location :: ServiceLocation where
  "zero_location = \<lparr>ServiceName = [], ServiceID = 0, NodeID = 0, NodeAddr = []\<rparr>"

definition location_Key :: "ServiceLocation \<Rightarrow> ServiceKey" where
  "location_Key l = ServiceKey (ServiceName l) (ServiceID l)"

text \<open>\<open>%+v\<close> of a location.\<close>

definition fmt_location :: "ServiceLocation \<Rightarrow> string" where
  "fmt_location l = go_render ''{ServiceName:%s ServiceID:%d NodeID:%d NodeAddr:%s}''
     [ServiceName l, fmt_d (ServiceID l), fmt_d (NodeID l), NodeAddr l]"

section \<open>The interface\<close>

text \<open>
  What a \<^verbatim>\<open>ServiceRegistry\<close> promises a Node, with \<open>Lookup\<close> as the abstraction:
  registration is exclusive and only of complete locations, only the owner
  unregisters a service, a node's services go together, and \<open>List\<close> enumerates what
  \<open>Lookup\<close> finds.
\<close>

definition valid_location :: "ServiceLocation \<Rightarrow> bool" where
  "valid_location l \<longleftrightarrow>
     ServiceName l \<noteq> '''' \<and> 0 < ServiceID l \<and> 0 < NodeID l \<and> NodeAddr l \<noteq> ''''"

locale service_registry =
  fixes empty :: "'r"
    and Register :: "ServiceLocation \<Rightarrow> 'r \<Rightarrow> 'r result"
    and Unregister :: "ServiceKey \<Rightarrow> int \<Rightarrow> 'r \<Rightarrow> 'r result"
    and UnregisterNode :: "int \<Rightarrow> 'r \<Rightarrow> 'r"
    and Lookup :: "'r \<Rightarrow> ServiceKey \<Rightarrow> ServiceLocation option"
    and List :: "'r \<Rightarrow> ServiceLocation list"
    and inv :: "'r \<Rightarrow> bool"
  assumes Lookup_empty: "Lookup empty k = None"
    and inv_empty: "inv empty"
    and Register_ok:
      "is_ok (Register l r) \<longleftrightarrow> valid_location l \<and> Lookup r (location_Key l) = None"
    and Lookup_Register:
      "Register l r = Inr r' \<Longrightarrow>
         Lookup r' k = (if k = location_Key l then Some l else Lookup r k)"
    and inv_Register: "inv r \<Longrightarrow> Register l r = Inr r' \<Longrightarrow> inv r'"
    and Unregister_ok:
      "is_ok (Unregister k n r) \<longleftrightarrow> (\<exists>l. Lookup r k = Some l \<and> NodeID l = n)"
    and Lookup_Unregister:
      "Unregister k n r = Inr r' \<Longrightarrow> Lookup r' k' = (if k' = k then None else Lookup r k')"
    and inv_Unregister: "inv r \<Longrightarrow> Unregister k n r = Inr r' \<Longrightarrow> inv r'"
    and Lookup_UnregisterNode:
      "inv r \<Longrightarrow> Lookup (UnregisterNode n r) k =
         (case Lookup r k of None \<Rightarrow> None | Some l \<Rightarrow> if NodeID l = n then None else Some l)"
    and inv_UnregisterNode: "inv r \<Longrightarrow> inv (UnregisterNode n r)"
    and List_Lookup: "inv r \<Longrightarrow> l \<in> set (List r) \<longleftrightarrow> Lookup r (location_Key l) = Some l"
    and List_distinct: "inv r \<Longrightarrow> distinct (map location_Key (List r))"
    and inv_key: "inv r \<Longrightarrow> Lookup r k = Some l \<Longrightarrow> location_Key l = k \<and> valid_location l"
begin

text \<open>The keys of the listed locations that satisfy a predicate, as a sorted list.\<close>

definition keys_where :: "(ServiceLocation \<Rightarrow> bool) \<Rightarrow> 'r \<Rightarrow> ServiceKey list" where
  "keys_where P r = sort (map location_Key (filter P (List r)))"

lemma set_keys_where:
  assumes "inv r"
  shows "set (keys_where P r) = {k. \<exists>l. Lookup r k = Some l \<and> P l}"
proof -
  have "k \<in> location_Key ` {l \<in> set (List r). P l} \<longleftrightarrow> (\<exists>l. Lookup r k = Some l \<and> P l)" for k
    using assms by (auto simp: List_Lookup dest: inv_key)
  then show ?thesis by (auto simp: keys_where_def)
qed

lemma distinct_keys_where: "inv r \<Longrightarrow> distinct (keys_where P r)"
  by (simp add: keys_where_def List_distinct distinct_map_filter)

lemma sorted_keys_where: "sorted (keys_where P r)"
  by (simp add: keys_where_def)

text \<open>Two registries that agree on \<open>Lookup\<close> give the same list, whatever their order.\<close>

lemma keys_where_cong:
  assumes "inv r" "inv r'" "\<And>k. Lookup r k = Lookup r' k"
  shows "keys_where P r = keys_where P r'"
  using assms
  by (intro sorted_distinct_set_unique)
    (auto simp: set_keys_where distinct_keys_where sorted_keys_where)

lemma UnregisterNode_clears:
  "inv r \<Longrightarrow> Lookup (UnregisterNode n r) k = Some l \<Longrightarrow> NodeID l \<noteq> n"
  by (auto simp: Lookup_UnregisterNode split: option.splits if_splits)

end

section \<open>The in-memory implementation\<close>

record MemoryRegistry =
  services :: "(ServiceKey, ServiceLocation) gomap"

definition NewMemoryRegistry :: MemoryRegistry where
  "NewMemoryRegistry = \<lparr>services = []\<rparr>"

definition registry_Register :: "ServiceLocation \<Rightarrow> MemoryRegistry \<Rightarrow> MemoryRegistry result" where
  "registry_Register location r =
     (let key = location_Key location in
      if key_Name key = '''' \<or> key_ID key \<le> 0 \<or> NodeID location \<le> 0 \<or> NodeAddr location = ''''
      then Inl (Errorf ''invalid service location: %+v'' [ArgS (fmt_location location)])
      else case go_get (services r) key of
        Some current \<Rightarrow> Inl (wrapf ErrServiceExists ''%s belongs to node %d''
          [ArgS (key_String key), ArgD (NodeID current)])
      | None \<Rightarrow> Inr (r\<lparr>services := go_put key location (services r)\<rparr>))"

definition registry_Unregister :: "ServiceKey \<Rightarrow> int \<Rightarrow> MemoryRegistry \<Rightarrow> MemoryRegistry result" where
  "registry_Unregister key nodeID r =
     (case go_get (services r) key of
        None \<Rightarrow> Inl (wrapf ErrServiceNotFound ''%s'' [ArgS (key_String key)])
      | Some current \<Rightarrow>
          if NodeID current \<noteq> nodeID
          then Inl (Errorf ''service %s belongs to node %d, not node %d''
            [ArgS (key_String key), ArgD (NodeID current), ArgD nodeID])
          else Inr (r\<lparr>services := go_del key (services r)\<rparr>))"

text \<open>The loop deletes from the map it ranges over, which Go allows.\<close>

definition registry_UnregisterNode :: "int \<Rightarrow> MemoryRegistry \<Rightarrow> MemoryRegistry" where
  "registry_UnregisterNode nodeID r =
     r\<lparr>services :=
       fold (\<lambda>(key, location) m. if NodeID location = nodeID then go_del key m else m)
         (services r) (services r)\<rparr>"

definition registry_Lookup :: "MemoryRegistry \<Rightarrow> ServiceKey \<Rightarrow> ServiceLocation option" where
  "registry_Lookup r key = go_get (services r) key"

definition registry_List :: "MemoryRegistry \<Rightarrow> ServiceLocation list" where
  "registry_List r = map snd (services r)"

definition registry_inv :: "MemoryRegistry \<Rightarrow> bool" where
  "registry_inv r \<longleftrightarrow> go_wf (services r) \<and>
     list_all (\<lambda>(k, l). location_Key l = k \<and> valid_location l) (services r)"

lemma registry_inv_NewMemoryRegistry: "registry_inv NewMemoryRegistry"
  by (simp add: registry_inv_def NewMemoryRegistry_def)

lemma registry_invD:
  "registry_inv r \<Longrightarrow> go_get (services r) k = Some l \<Longrightarrow> location_Key l = k \<and> valid_location l"
  by (auto simp: registry_inv_def list_all_iff dest: go_get_SomeD)

lemma registry_invI:
  "go_wf (services r) \<Longrightarrow>
   (\<And>k l. go_get (services r) k = Some l \<Longrightarrow> location_Key l = k \<and> valid_location l) \<Longrightarrow>
   registry_inv r"
  by (auto simp: registry_inv_def list_all_iff go_get_in_set)

lemma get_fold_UnregisterNode:
  "go_get (fold (\<lambda>(key, location) m. if NodeID location = n then go_del key m else m) xs m) k =
     (if \<exists>l. (k, l) \<in> set xs \<and> NodeID l = n then None else go_get m k)"
  by (induction xs arbitrary: m) (auto split: if_splits)

lemma wf_fold_UnregisterNode:
  "go_wf m \<Longrightarrow>
   go_wf (fold (\<lambda>(key, location) m. if NodeID location = n then go_del key m else m) xs m)"
  by (induction xs arbitrary: m) auto

lemma valid_location_iff:
  "valid_location l \<longleftrightarrow>
     \<not> (key_Name (location_Key l) = '''' \<or> key_ID (location_Key l) \<le> 0 \<or> NodeID l \<le> 0 \<or>
        NodeAddr l = '''')"
  by (auto simp: valid_location_def location_Key_def)

lemma registry_wf: "registry_inv r \<Longrightarrow> go_wf (services r)"
  by (simp add: registry_inv_def)

interpretation mem: service_registry NewMemoryRegistry registry_Register registry_Unregister
  registry_UnregisterNode registry_Lookup registry_List registry_inv
proof unfold_locales
  show "registry_Lookup NewMemoryRegistry k = None" for k
    by (simp add: registry_Lookup_def NewMemoryRegistry_def)
  show "registry_inv NewMemoryRegistry"
    by (rule registry_inv_NewMemoryRegistry)
  show "is_ok (registry_Register l r) \<longleftrightarrow>
      valid_location l \<and> registry_Lookup r (location_Key l) = None" for l r
    by (auto simp: registry_Register_def registry_Lookup_def valid_location_iff Let_def
        split: option.splits)
  show "registry_Register l r = Inr r' \<Longrightarrow>
      registry_Lookup r' k = (if k = location_Key l then Some l else registry_Lookup r k)" for l r r' k
    by (auto simp: registry_Register_def registry_Lookup_def Let_def split: option.splits if_splits)
  show "registry_inv r \<Longrightarrow> registry_Register l r = Inr r' \<Longrightarrow> registry_inv r'" for r l r'
    by (rule registry_invI)
      (auto simp: registry_Register_def valid_location_iff Let_def registry_wf
        split: option.splits if_splits dest: registry_invD)
  show "is_ok (registry_Unregister k n r) \<longleftrightarrow>
      (\<exists>l. registry_Lookup r k = Some l \<and> NodeID l = n)" for k n r
    by (auto simp: registry_Unregister_def registry_Lookup_def split: option.splits)
  show "registry_Unregister k n r = Inr r' \<Longrightarrow>
      registry_Lookup r' k' = (if k' = k then None else registry_Lookup r k')" for k n r r' k'
    by (auto simp: registry_Unregister_def registry_Lookup_def split: option.splits if_splits)
  show "registry_inv r \<Longrightarrow> registry_Unregister k n r = Inr r' \<Longrightarrow> registry_inv r'" for r k n r'
    by (rule registry_invI)
      (auto simp: registry_Unregister_def registry_wf
        split: option.splits if_splits dest: registry_invD)
  show "registry_inv r \<Longrightarrow> registry_Lookup (registry_UnregisterNode n r) k =
      (case registry_Lookup r k of None \<Rightarrow> None
       | Some l \<Rightarrow> if NodeID l = n then None else Some l)" for r n k
    by (auto simp: registry_UnregisterNode_def registry_Lookup_def get_fold_UnregisterNode
        registry_wf go_get_in_set split: option.splits)
  show "registry_inv r \<Longrightarrow> registry_inv (registry_UnregisterNode n r)" for r n
    by (rule registry_invI)
      (auto simp: registry_UnregisterNode_def get_fold_UnregisterNode registry_wf
        split: if_splits intro: wf_fold_UnregisterNode dest: registry_invD)
  show "registry_inv r \<Longrightarrow> l \<in> set (registry_List r) \<longleftrightarrow>
      registry_Lookup r (location_Key l) = Some l" for r l
    by (force simp: registry_List_def registry_Lookup_def registry_inv_def list_all_iff
        go_get_in_set [symmetric])
  show "registry_inv r \<Longrightarrow> distinct (map location_Key (registry_List r))" for r
  proof -
    assume "registry_inv r"
    then have eq: "map location_Key (map snd (services r)) = map fst (services r)"
      by (auto simp: registry_inv_def list_all_iff)
    from \<open>registry_inv r\<close> show ?thesis
      unfolding registry_List_def eq by (simp add: registry_inv_def go_wf_def)
  qed
  show "registry_inv r \<Longrightarrow> registry_Lookup r k = Some l \<Longrightarrow>
      location_Key l = k \<and> valid_location l" for r k l
    by (simp add: registry_Lookup_def registry_invD)
qed

end
