(* ===== verification/Go_Text.thy ===== *)
theory Go_Text
  imports Main "HOL-Library.Sublist" "HOL-Library.Char_ord"
begin

text \<open>
  The parts of Go's standard library on text that the sources use: \<^verbatim>\<open>utf8.ValidString\<close>,
  \<^verbatim>\<open>strings.TrimSpace\<close>, \<^verbatim>\<open>strings.ToLower\<close> and \<^verbatim>\<open>filepath.Clean\<close>. A Go string is a
  sequence of bytes, here a list of \<open>char\<close>.
\<close>

section \<open>UTF-8\<close>

definition in_range :: "nat \<Rightarrow> nat \<Rightarrow> char \<Rightarrow> bool" where
  "in_range lo hi c \<longleftrightarrow> lo \<le> of_char c \<and> of_char c \<le> hi"

text \<open>The bytes of the first rune, 0 when the string does not start with a valid one.\<close>

definition rune_len :: "string \<Rightarrow> nat" where
  "rune_len s =
     (case s of
        [] \<Rightarrow> 0
      | a # t \<Rightarrow>
          if in_range 0 127 a then 1
          else case t of
            [] \<Rightarrow> 0
          | b # u \<Rightarrow>
              if in_range 194 223 a then (if in_range 128 191 b then 2 else 0)
              else case u of
                [] \<Rightarrow> 0
              | c # v \<Rightarrow>
                  if in_range 224 239 a then
                    (if in_range (if of_char a = (224::nat) then 160 else 128)
                                 (if of_char a = (237::nat) then 159 else 191) b \<and>
                        in_range 128 191 c then 3 else 0)
                  else case v of
                    [] \<Rightarrow> 0
                  | d # w \<Rightarrow>
                      if in_range 240 244 a \<and>
                         in_range (if of_char a = (240::nat) then 144 else 128)
                                  (if of_char a = (244::nat) then 143 else 191) b \<and>
                         in_range 128 191 c \<and> in_range 128 191 d then 4 else 0)"

function utf8_ValidString :: "string \<Rightarrow> bool" where
  "utf8_ValidString s =
     (if s = [] then True
      else if rune_len s = 0 then False
      else utf8_ValidString (drop (rune_len s) s))"
  by pat_completeness auto
termination
  by (relation "measure length") auto

declare utf8_ValidString.simps [simp del]

lemma utf8_ValidString_Nil [simp]: "utf8_ValidString []"
  by (simp add: utf8_ValidString.simps)

lemma rune_len_ascii: "in_range 0 127 c \<Longrightarrow> rune_len (c # s) = 1"
  by (simp add: rune_len_def)

lemma utf8_ValidString_ascii:
  "list_all (in_range 0 127) s \<Longrightarrow> utf8_ValidString s"
  by (induction s) (simp_all add: utf8_ValidString.simps [of "_ # _"] rune_len_ascii)

section \<open>Trimming white space\<close>

text \<open>
  The UTF-8 encodings of the runes \<^verbatim>\<open>unicode.IsSpace\<close> accepts. UTF-8 is
  self-synchronising, so decoding the first or the last rune of a string gives a white
  space rune exactly when the string starts or ends with its encoding.
\<close>

definition space_encodings :: "string list" where
  "space_encodings =
     [[CHR 0x09], [CHR 0x0A], [CHR 0x0B], [CHR 0x0C], [CHR 0x0D], [CHR 0x20],
      [CHR 0xC2, CHR 0x85], [CHR 0xC2, CHR 0xA0], [CHR 0xE1, CHR 0x9A, CHR 0x80],
      [CHR 0xE2, CHR 0x80, CHR 0x80], [CHR 0xE2, CHR 0x80, CHR 0x81],
      [CHR 0xE2, CHR 0x80, CHR 0x82], [CHR 0xE2, CHR 0x80, CHR 0x83],
      [CHR 0xE2, CHR 0x80, CHR 0x84], [CHR 0xE2, CHR 0x80, CHR 0x85],
      [CHR 0xE2, CHR 0x80, CHR 0x86], [CHR 0xE2, CHR 0x80, CHR 0x87],
      [CHR 0xE2, CHR 0x80, CHR 0x88], [CHR 0xE2, CHR 0x80, CHR 0x89],
      [CHR 0xE2, CHR 0x80, CHR 0x8A], [CHR 0xE2, CHR 0x80, CHR 0xA8],
      [CHR 0xE2, CHR 0x80, CHR 0xA9], [CHR 0xE2, CHR 0x80, CHR 0xAF],
      [CHR 0xE2, CHR 0x81, CHR 0x9F], [CHR 0xE3, CHR 0x80, CHR 0x80]]"

text \<open>\<open>strip es s\<close> removes prefixes taken from \<open>es\<close> as long as there is one.\<close>

function strip :: "string list \<Rightarrow> string \<Rightarrow> string" where
  "strip es s =
     (case find (\<lambda>e. e \<noteq> [] \<and> prefix e s) es of
        None \<Rightarrow> s
      | Some e \<Rightarrow> strip es (drop (length e) s))"
  by pat_completeness auto
termination
  by (relation "measure (\<lambda>(es, s). length s)") (auto simp: find_Some_iff prefix_def)

declare strip.simps [simp del]

definition TrimSpace :: "string \<Rightarrow> string" where
  "TrimSpace s = rev (strip (map rev space_encodings) (rev (strip space_encodings s)))"

definition stripped :: "string list \<Rightarrow> string \<Rightarrow> bool" where
  "stripped es s \<longleftrightarrow> (\<forall>e \<in> set es. e \<noteq> [] \<longrightarrow> \<not> prefix e s)"

lemma strip_stripped: "stripped es (strip es s)"
proof (induction es s rule: strip.induct)
  case (1 es s)
  show ?case
  proof (cases "find (\<lambda>e. e \<noteq> [] \<and> prefix e s) es")
    case None
    then have "strip es s = s" by (simp add: strip.simps [of es s])
    with None show ?thesis by (auto simp: stripped_def find_None_iff)
  next
    case (Some e)
    with "1.IH" show ?thesis by (simp add: strip.simps [of es s])
  qed
qed

lemma strip_id:
  assumes "stripped es s"
  shows "strip es s = s"
proof -
  from assms have "find (\<lambda>e. e \<noteq> [] \<and> prefix e s) es = None"
    by (auto simp: stripped_def find_None_iff)
  then show ?thesis by (simp add: strip.simps [of es s])
qed

lemma suffix_strip: "suffix (strip es s) s"
proof (induction es s rule: strip.induct)
  case (1 es s)
  show ?case
  proof (cases "find (\<lambda>e. e \<noteq> [] \<and> prefix e s) es")
    case None
    then show ?thesis by (simp add: strip.simps [of es s])
  next
    case (Some e)
    with "1.IH" [OF Some] have "suffix (strip es s) (drop (length e) s)"
      by (simp add: strip.simps [of es s])
    then show ?thesis using suffix_drop suffix_order.trans by blast
  qed
qed

lemma stripped_prefix: "stripped es s \<Longrightarrow> prefix t s \<Longrightarrow> stripped es t"
  by (auto simp: stripped_def dest: prefix_order.trans)

lemma TrimSpace_stripped:
  "stripped space_encodings (TrimSpace s)" "stripped (map rev space_encodings) (rev (TrimSpace s))"
proof -
  have "prefix (TrimSpace s) (strip space_encodings s)"
    using suffix_strip [of "map rev space_encodings" "rev (strip space_encodings s)"]
    by (simp add: TrimSpace_def suffix_to_prefix)
  then show "stripped space_encodings (TrimSpace s)"
    by (rule stripped_prefix [OF strip_stripped])
  show "stripped (map rev space_encodings) (rev (TrimSpace s))"
    by (simp add: TrimSpace_def strip_stripped)
qed

lemma TrimSpace_idem [simp]: "TrimSpace (TrimSpace s) = TrimSpace s"
  using TrimSpace_stripped [of s] by (subst TrimSpace_def) (simp add: strip_id)

section \<open>Lower case\<close>

definition lower_byte :: "char \<Rightarrow> char" where
  "lower_byte c = (if in_range 65 90 c then char_of (of_char c + (32::nat)) else c)"

text \<open>
  \<^verbatim>\<open>strings.ToLower\<close> maps an all-ASCII string byte by byte and any other one rune by rune
  through the Unicode tables, which are the parameter \<open>unicodeLower\<close>.
\<close>

definition ToLower :: "(string \<Rightarrow> string) \<Rightarrow> string \<Rightarrow> string" where
  "ToLower unicodeLower s =
     (if list_all (in_range 0 127) s then map lower_byte s else unicodeLower s)"

section \<open>Cleaning paths\<close>

text \<open>\<^verbatim>\<open>filepath.Clean\<close> on a system with \<open>/\<close> as its only separator and no volume names.\<close>

fun split_slash :: "string \<Rightarrow> string \<Rightarrow> string list" where
  "split_slash acc [] = [rev acc]"
| "split_slash acc (c # s) =
     (if c = CHR ''/'' then rev acc # split_slash [] s else split_slash (c # acc) s)"

text \<open>The elements kept so far, the last one first; \<open>rooted\<close> paths drop leading \<open>..\<close>.\<close>

fun clean_elems :: "bool \<Rightarrow> string list \<Rightarrow> string list \<Rightarrow> string list" where
  "clean_elems rooted st [] = rev st"
| "clean_elems rooted st (e # es) =
     (if e = '''' \<or> e = ''.'' then clean_elems rooted st es
      else if e = ''..'' then
        (case st of
           [] \<Rightarrow> clean_elems rooted (if rooted then [] else [''..'']) es
         | t # ts \<Rightarrow> if t = ''..'' then clean_elems rooted (e # st) es
                    else clean_elems rooted ts es)
      else clean_elems rooted (e # st) es)"

fun join_slash :: "string list \<Rightarrow> string" where
  "join_slash [] = ''''"
| "join_slash [e] = e"
| "join_slash (e # es) = e @ CHR ''/'' # join_slash es"

definition filepath_Clean :: "string \<Rightarrow> string" where
  "filepath_Clean p =
     (let rooted = (p \<noteq> [] \<and> hd p = CHR ''/'');
          body = join_slash (clean_elems rooted [] (split_slash [] p));
          out = (if rooted then CHR ''/'' # body else body)
      in if out = [] then ''.'' else out)"

subsection \<open>Cleaning a cleaned path changes nothing\<close>

abbreviation slash_free :: "string \<Rightarrow> bool" where
  "slash_free e \<equiv> CHR ''/'' \<notin> set e"

fun stack_ok :: "bool \<Rightarrow> string list \<Rightarrow> bool" where
  "stack_ok rooted [] \<longleftrightarrow> True"
| "stack_ok rooted (e # st) \<longleftrightarrow>
     e \<noteq> '''' \<and> e \<noteq> ''.'' \<and> slash_free e \<and> stack_ok rooted st \<and>
     (e = ''..'' \<longrightarrow> \<not> rooted \<and> list_all (\<lambda>t. t = ''..'') st)"

lemma stack_ok_append: "stack_ok rooted (xs @ st) \<Longrightarrow> stack_ok rooted st"
  by (induction xs) auto

lemma slash_free_split: "slash_free acc \<Longrightarrow> list_all slash_free (split_slash acc s)"
  by (induction acc s rule: split_slash.induct) auto

lemma split_slash_prefix:
  "slash_free e \<Longrightarrow> split_slash acc (e @ CHR ''/'' # s) = (rev acc @ e) # split_slash [] s"
  by (induction e arbitrary: acc) auto

lemma split_slash_single: "slash_free e \<Longrightarrow> split_slash acc e = [rev acc @ e]"
  by (induction e arbitrary: acc) auto

lemma split_join: "list_all slash_free es \<Longrightarrow> es \<noteq> [] \<Longrightarrow> split_slash [] (join_slash es) = es"
  by (induction es rule: join_slash.induct) (auto simp: split_slash_prefix split_slash_single)

lemma stack_ok_clean:
  "stack_ok rooted st \<Longrightarrow> list_all slash_free es \<Longrightarrow> stack_ok rooted (rev (clean_elems rooted st es))"
  by (induction rooted st es rule: clean_elems.induct) (auto split: list.splits)

lemma clean_elems_id: "stack_ok rooted (rev es @ st) \<Longrightarrow> clean_elems rooted st es = rev st @ es"
proof (induction es arbitrary: st)
  case (Cons e es)
  then have "stack_ok rooted (e # st)" and *: "stack_ok rooted (rev es @ (e # st))"
    by (auto dest: stack_ok_append)
  with Cons.IH [OF *] show ?case by (auto split: list.splits)
qed simp

lemma stack_ok_slash_free: "stack_ok rooted st \<Longrightarrow> list_all slash_free st"
  by (induction st) auto

lemma stack_ok_nonempty: "stack_ok rooted st \<Longrightarrow> '''' \<notin> set st"
  by (induction st) auto

lemma join_slash_hd:
  "list_all slash_free es \<Longrightarrow> '''' \<notin> set es \<Longrightarrow> es \<noteq> [] \<Longrightarrow>
     join_slash es \<noteq> [] \<and> hd (join_slash es) \<noteq> CHR ''/''"
  by (cases es rule: join_slash.cases) (auto, (metis hd_in_set)+)

lemma split_clean_out:
  assumes "list_all slash_free es"
  shows "clean_elems rooted [] (split_slash [] (join_slash es)) = clean_elems rooted [] es"
  using assms by (cases "es = []") (simp_all add: split_join)

theorem filepath_Clean_idem: "filepath_Clean (filepath_Clean p) = filepath_Clean p"
proof -
  define rooted where "rooted = (p \<noteq> [] \<and> hd p = CHR ''/'')"
  define es where "es = clean_elems rooted [] (split_slash [] p)"
  have ok: "stack_ok rooted (rev es)"
    unfolding es_def by (intro stack_ok_clean) (simp_all add: slash_free_split)
  then have free: "list_all slash_free es" and ne: "'''' \<notin> set es"
    using stack_ok_slash_free stack_ok_nonempty by fastforce+
  have id: "clean_elems rooted [] (split_slash [] (join_slash es)) = es"
    using clean_elems_id [of rooted es "[]"] ok by (simp add: split_clean_out free)
  have p: "filepath_Clean p =
      (let out = if rooted then CHR ''/'' # join_slash es else join_slash es
       in if out = [] then ''.'' else out)"
    by (simp add: filepath_Clean_def rooted_def es_def Let_def)
  show ?thesis
  proof (cases rooted)
    case True
    with p id show ?thesis by (simp add: filepath_Clean_def Let_def)
  next
    case False
    show ?thesis
    proof (cases "es = []")
      case True
      with p False show ?thesis by (simp add: filepath_Clean_def Let_def)
    next
      case nonempty: False
      from join_slash_hd [OF free ne nonempty] p id False show ?thesis
        by (simp add: filepath_Clean_def Let_def)
    qed
  qed
qed

end
