(* ===== verification/Logger.thy ===== *)
theory Logger
  imports Go_Error Go_Text
begin

text \<open>
  \<^verbatim>\<open>logger.go\<close>: loggers with context fields, and the parsing of log levels. The native
  logger is \<^verbatim>\<open>xtnet/log\<close>, outside the repository; what the framework writes to it is
  recorded as a list of records.
\<close>

section \<open>Contextual loggers\<close>

text \<open>A field value is an \<open>interface{}\<close>; the framework stores integers and strings.\<close>

datatype log_value = LogInt int | LogStr string

primrec fmt_Sprint :: "log_value \<Rightarrow> string" where
  "fmt_Sprint (LogInt i) = fmt_d i"
| "fmt_Sprint (LogStr s) = s"

record LogField =
  field_Key :: string
  field_Value :: log_value

text \<open>A logger is a native one, named by \<open>'l\<close>, or a context around a native one.\<close>

datatype 'l Logger =
    NativeLogger 'l
  | ContextLogger (cl_base: 'l) (cl_fields: "LogField list") (cl_prefix: string)

fun join_fields :: "LogField list \<Rightarrow> string" where
  "join_fields [] = ''''"
| "join_fields [f] = field_Key f @ ''='' @ fmt_Sprint (field_Value f)"
| "join_fields (f # g # fs) =
     field_Key f @ ''='' @ fmt_Sprint (field_Value f) @ '' '' @ join_fields (g # fs)"

definition formatLogFields :: "LogField list \<Rightarrow> string" where
  "formatLogFields flds = ''['' @ join_fields flds @ ''] ''"

definition WithLogFields :: "'l Logger option \<Rightarrow> LogField list \<Rightarrow> 'l Logger option" where
  "WithLogFields logger flds =
     (case logger of
        None \<Rightarrow> None
      | Some l \<Rightarrow>
          if flds = [] then Some l
          else (case l of
                  NativeLogger base \<Rightarrow> Some (ContextLogger base flds (formatLogFields flds))
                | ContextLogger base fs p \<Rightarrow>
                    Some (ContextLogger base (fs @ flds) (formatLogFields (fs @ flds)))))"

datatype log_level = LevelNone | LevelError | LevelWarn | LevelDebug

text \<open>What a log call writes to the native logger: its level, the prefix and the format.\<close>

definition log_write :: "log_level \<Rightarrow> 'l Logger \<Rightarrow> string \<Rightarrow> 'l \<times> log_level \<times> string" where
  "log_write level l format =
     (case l of
        NativeLogger base \<Rightarrow> (base, level, format)
      | ContextLogger base fs p \<Rightarrow> (base, level, p @ format))"

definition LogDebug :: "'l Logger \<Rightarrow> string \<Rightarrow> 'l \<times> log_level \<times> string" where
  "LogDebug = log_write LevelDebug"

definition LogWarn :: "'l Logger \<Rightarrow> string \<Rightarrow> 'l \<times> log_level \<times> string" where
  "LogWarn = log_write LevelWarn"

definition LogError :: "'l Logger \<Rightarrow> string \<Rightarrow> 'l \<times> log_level \<times> string" where
  "LogError = log_write LevelError"

section \<open>Levels\<close>

definition parseLogLevel :: "(string \<Rightarrow> string) \<Rightarrow> string \<Rightarrow> log_level result" where
  "parseLogLevel unicodeLower level =
     (let l = ToLower unicodeLower (TrimSpace level) in
      if l = ''none'' then Inr LevelNone
      else if l = ''error'' then Inr LevelError
      else if l = ''warn'' then Inr LevelWarn
      else if l = ''debug'' then Inr LevelDebug
      else Inl (Errorf ''level %q must be one of none, error, warn, debug'' [ArgQ level]))"

text \<open>A name of a level is parsed to itself once more.\<close>

lemma parseLogLevel_words:
  "is_ok (parseLogLevel u w) \<longleftrightarrow>
     ToLower u (TrimSpace w) \<in> {''none'', ''error'', ''warn'', ''debug''}"
  by (auto simp: parseLogLevel_def Let_def)

lemma stripped_words:
  "w \<in> {''none'', ''error'', ''warn'', ''debug''} \<Longrightarrow> TrimSpace w = w \<and> ToLower u w = w"
  by (elim insertE emptyE; simp; code_simp)

section \<open>Properties\<close>

text \<open>
  Adding context in two steps is adding it at once, and a contextual logger writes to the same
  native logger, at the same level, the format behind all its fields in order.
\<close>

theorem WithLogFields_compose:
  "WithLogFields (WithLogFields l fs) gs = WithLogFields l (fs @ gs) \<and>
   (\<forall>base f. WithLogFields (Some (NativeLogger base)) (f # fs) =
      Some (ContextLogger base (f # fs) (formatLogFields (f # fs)))) \<and>
   (\<forall>base c level fmt.
      map_option (\<lambda>x. log_write level x fmt) (WithLogFields (Some (NativeLogger base)) (c # gs)) =
      Some (base, level, formatLogFields (c # gs) @ fmt))"
  by (auto simp: WithLogFields_def log_write_def split: option.splits Logger.splits)

end
