(* ===== verification/Config.thy ===== *)
theory Config
  imports Registry Logger
begin

text \<open>
  \<^verbatim>\<open>config.go\<close>: the configuration of a deployment and its validation. \<^verbatim>\<open>Validate\<close>
  normalises the configuration in place while it checks it, so its model returns the
  configuration as far as it has been rewritten together with the error. The bounds of the
  log file size are constants of \<^verbatim>\<open>xtnet/log\<close> and the Unicode case tables are those of
  Go's library; both are parameters.
\<close>

section \<open>Data\<close>

text \<open>The options of a service are YAML values that the framework does not interpret.\<close>

datatype yaml_any =
    YNull | YBool bool | YInt int | YFloat string | YString string
  | YSeq "yaml_any list" | YMap "(string \<times> yaml_any) list"

record LoggerConfig =
  lc_Dir :: string
  lc_Level :: string
  lc_FileSize :: int
  lc_Screen :: bool
  lc_Async :: bool

record ServiceLoopConfig =
  loop_Size :: int
  loop_FullWarn :: bool

record ServiceConfig =
  sc_Name :: string
  sc_ID :: int
  sc_Loop :: "ServiceLoopConfig option"
  sc_Options :: "(string \<times> yaml_any) list"

record NodeConfig =
  nc_ID :: int
  nc_ListenAddr :: string
  nc_ServiceCallTimeout :: int
  nc_Logger :: "LoggerConfig option"
  nc_Services :: "ServiceConfig list"

record Config =
  MainNode :: int
  Nodes :: "NodeConfig list"

record config_env =
  FileSizeMin :: int
  FileSizeMax :: int
  unicodeLower :: "string \<Rightarrow> string"

section \<open>Validation\<close>

text \<open>The inner loop over the services of node \<open>i\<close>, with the keys seen so far.\<close>

fun validate_services ::
    "nat \<Rightarrow> nat \<Rightarrow> ServiceKey list \<Rightarrow> ServiceConfig list \<Rightarrow> ServiceConfig list \<times> gerror option" where
  "validate_services i j seen [] = ([], None)"
| "validate_services i j seen (s # ss) =
     (let s = s\<lparr>sc_Name := TrimSpace (sc_Name s)\<rparr>;
          at = [ArgD (int i), ArgD (int j)];
          key = ServiceKey (sc_Name s) (sc_ID s)
      in if sc_Name s = ''''
         then (s # ss, Some (Errorf ''nodes[%d].services[%d].name must not be empty'' at))
         else if sc_ID s \<le> 0
         then (s # ss, Some (Errorf ''nodes[%d].services[%d].id must be positive'' at))
         else if (case sc_Loop s of None \<Rightarrow> False | Some l \<Rightarrow> loop_Size l < 0)
         then (s # ss, Some (Errorf ''nodes[%d].services[%d].loop.size must not be negative'' at))
         else if key \<in> set seen
         then (s # ss, Some (Errorf ''nodes[%d].services[%d] %s:%d is duplicated''
           (at @ [ArgS (sc_Name s), ArgD (sc_ID s)])))
         else (case validate_services i (Suc j) (key # seen) ss of (ss, err) \<Rightarrow> (s # ss, err)))"

text \<open>The maps of the outer loop.\<close>

record validate_state =
  nodeIDs :: "int list"
  addresses :: "(string, int) gomap"
  logDirs :: "(string, int) gomap"
  mainFound :: bool

definition validate_logger ::
    "config_env \<Rightarrow> nat \<Rightarrow> int \<Rightarrow> LoggerConfig \<Rightarrow> validate_state \<Rightarrow>
     LoggerConfig \<times> validate_state \<times> gerror option" where
  "validate_logger env i nid lg st =
     (let logDir = TrimSpace (lc_Dir lg) in
      if logDir = ''''
      then (lg, st, Some (Errorf ''nodes[%d].logger.dir must not be empty'' [ArgD (int i)]))
      else
        let lg = lg\<lparr>lc_Dir := filepath_Clean logDir\<rparr>;
            logDirKey = ToLower (unicodeLower env) (lc_Dir lg)
        in case go_get (logDirs st) logDirKey of
             Some owner \<Rightarrow>
               (lg, st, Some (Errorf ''nodes[%d].logger.dir %q is also used by node %d''
                 [ArgD (int i), ArgQ (lc_Dir lg), ArgD owner]))
           | None \<Rightarrow>
               let st = st\<lparr>logDirs := go_put logDirKey nid (logDirs st)\<rparr>;
                   lg = lg\<lparr>lc_Level := ToLower (unicodeLower env) (TrimSpace (lc_Level lg))\<rparr>
               in case parseLogLevel (unicodeLower env) (lc_Level lg) of
                    Inl err \<Rightarrow> (lg, st, Some (Errorf ''nodes[%d].logger: %w'' [ArgD (int i), ArgW err]))
                  | Inr _ \<Rightarrow>
                      if lc_FileSize lg < FileSizeMin env \<or> FileSizeMax env < lc_FileSize lg
                      then (lg, st, Some (Errorf
                        ''nodes[%d].logger.file_size must be between %d and %d''
                        [ArgD (int i), ArgD (FileSizeMin env), ArgD (FileSizeMax env)]))
                      else (lg, st, None))"

definition validate_node ::
    "config_env \<Rightarrow> int \<Rightarrow> nat \<Rightarrow> NodeConfig \<Rightarrow> validate_state \<Rightarrow>
     NodeConfig \<times> validate_state \<times> gerror option" where
  "validate_node env main i n st =
     (if nc_ID n \<le> 0
      then (n, st, Some (Errorf ''nodes[%d].id must be positive'' [ArgD (int i)]))
      else if nc_ID n \<in> set (nodeIDs st)
      then (n, st, Some (Errorf ''nodes[%d].id %d is duplicated'' [ArgD (int i), ArgD (nc_ID n)]))
      else
        let st = st\<lparr>nodeIDs := nc_ID n # nodeIDs st\<rparr>;
            st = (if nc_ID n = main then st\<lparr>mainFound := True\<rparr> else st);
            n = n\<lparr>nc_ListenAddr := TrimSpace (nc_ListenAddr n)\<rparr>
        in if nc_ListenAddr n = ''''
           then (n, st, Some (Errorf ''nodes[%d].listen_addr must not be empty'' [ArgD (int i)]))
           else case go_get (addresses st) (nc_ListenAddr n) of
             Some owner \<Rightarrow>
               (n, st, Some (Errorf ''nodes[%d].listen_addr %q is also used by node %d''
                 [ArgD (int i), ArgQ (nc_ListenAddr n), ArgD owner]))
           | None \<Rightarrow>
               let st = st\<lparr>addresses := go_put (nc_ListenAddr n) (nc_ID n) (addresses st)\<rparr>
               in if nc_ServiceCallTimeout n < 0
                  then (n, st, Some (Errorf
                    ''nodes[%d].service_call_timeout must not be negative'' [ArgD (int i)]))
                  else
                    case (case nc_Logger n of
                            None \<Rightarrow> (n, st, None)
                          | Some lg \<Rightarrow>
                              (case validate_logger env i (nc_ID n) lg st of
                                 (lg, st, err) \<Rightarrow> (n\<lparr>nc_Logger := Some lg\<rparr>, st, err))) of
                      (n, st, Some err) \<Rightarrow> (n, st, Some err)
                    | (n, st, None) \<Rightarrow>
                        (case validate_services i 0 [] (nc_Services n) of
                           (ss, err) \<Rightarrow> (n\<lparr>nc_Services := ss\<rparr>, st, err)))"

fun validate_nodes ::
    "config_env \<Rightarrow> int \<Rightarrow> nat \<Rightarrow> NodeConfig list \<Rightarrow> validate_state \<Rightarrow>
     NodeConfig list \<times> validate_state \<times> gerror option" where
  "validate_nodes env main i [] st = ([], st, None)"
| "validate_nodes env main i (n # ns) st =
     (case validate_node env main i n st of
        (n, st, Some err) \<Rightarrow> (n # ns, st, Some err)
      | (n, st, None) \<Rightarrow>
          (case validate_nodes env main (Suc i) ns st of (ns, st, err) \<Rightarrow> (n # ns, st, err)))"

definition validate_config :: "config_env \<Rightarrow> Config \<Rightarrow> Config \<times> gerror option" where
  "validate_config env c =
     (if Nodes c = [] then (c, Some (Errorf ''nodes must not be empty'' []))
      else
        (case validate_nodes env (MainNode c) 0 (Nodes c)
                \<lparr>nodeIDs = [], addresses = [], logDirs = [], mainFound = False\<rparr> of
           (ns, st, Some err) \<Rightarrow> (c\<lparr>Nodes := ns\<rparr>, Some err)
         | (ns, st, None) \<Rightarrow>
             if MainNode c \<le> 0 \<or> \<not> mainFound st
             then (c\<lparr>Nodes := ns\<rparr>, Some (Errorf
               ''main_node %d does not refer to a configured node'' [ArgD (MainNode c)]))
             else (c\<lparr>Nodes := ns\<rparr>, None)))"

text \<open>\<^verbatim>\<open>Validate\<close> on a pointer, which may be nil.\<close>

definition Config_Validate :: "config_env \<Rightarrow> Config option \<Rightarrow> Config option \<times> gerror option" where
  "Config_Validate env c =
     (case c of
        None \<Rightarrow> (None, Some (Errorf ''config is nil'' []))
      | Some c \<Rightarrow> (case validate_config env c of (c, err) \<Rightarrow> (Some c, err)))"

definition Config_Node :: "Config option \<Rightarrow> int \<Rightarrow> NodeConfig option" where
  "Config_Node c i = (case c of None \<Rightarrow> None | Some c \<Rightarrow> find (\<lambda>n. nc_ID n = i) (Nodes c))"

text \<open>
  \<^verbatim>\<open>LoadConfig\<close>: reading the file and parsing the YAML are the parameters.
\<close>

definition LoadConfig ::
    "config_env \<Rightarrow> (string \<Rightarrow> string result) \<Rightarrow> (string \<Rightarrow> Config result) \<Rightarrow> string \<Rightarrow> Config result" where
  "LoadConfig env readFile unmarshalYAML path =
     (case readFile path of
        Inl err \<Rightarrow> Inl (Errorf ''read config %q: %w'' [ArgQ path, ArgW err])
      | Inr data \<Rightarrow>
          (case unmarshalYAML data of
             Inl err \<Rightarrow> Inl (Errorf ''parse config %q: %w'' [ArgQ path, ArgW err])
           | Inr cfg \<Rightarrow>
               (case validate_config env cfg of
                  (_, Some err) \<Rightarrow> Inl (Errorf ''validate config %q: %w'' [ArgQ path, ArgW err])
                | (cfg, None) \<Rightarrow> Inr cfg)))"

section \<open>What a valid configuration is\<close>

text \<open>The normal form \<^verbatim>\<open>Validate\<close> rewrites a configuration to.\<close>

definition norm_service :: "ServiceConfig \<Rightarrow> ServiceConfig" where
  "norm_service s = s\<lparr>sc_Name := TrimSpace (sc_Name s)\<rparr>"

definition norm_logger :: "config_env \<Rightarrow> LoggerConfig \<Rightarrow> LoggerConfig" where
  "norm_logger env lg = lg\<lparr>lc_Dir := filepath_Clean (TrimSpace (lc_Dir lg)),
     lc_Level := ToLower (unicodeLower env) (TrimSpace (lc_Level lg))\<rparr>"

definition norm_node :: "config_env \<Rightarrow> NodeConfig \<Rightarrow> NodeConfig" where
  "norm_node env n = n\<lparr>nc_ListenAddr := TrimSpace (nc_ListenAddr n),
     nc_Logger := map_option (norm_logger env) (nc_Logger n),
     nc_Services := map norm_service (nc_Services n)\<rparr>"

definition norm_config :: "config_env \<Rightarrow> Config \<Rightarrow> Config" where
  "norm_config env c = c\<lparr>Nodes := map (norm_node env) (Nodes c)\<rparr>"

text \<open>The declarative counterpart of the checks.\<close>

definition config_key :: "ServiceConfig \<Rightarrow> ServiceKey" where
  "config_key s = ServiceKey (TrimSpace (sc_Name s)) (sc_ID s)"

definition service_ok :: "ServiceConfig \<Rightarrow> bool" where
  "service_ok s \<longleftrightarrow> TrimSpace (sc_Name s) \<noteq> '''' \<and> 0 < sc_ID s \<and>
     (case sc_Loop s of None \<Rightarrow> True | Some l \<Rightarrow> 0 \<le> loop_Size l)"

definition logger_ok :: "config_env \<Rightarrow> LoggerConfig \<Rightarrow> bool" where
  "logger_ok env lg \<longleftrightarrow> TrimSpace (lc_Dir lg) \<noteq> '''' \<and>
     is_ok (parseLogLevel (unicodeLower env) (lc_Level (norm_logger env lg))) \<and>
     FileSizeMin env \<le> lc_FileSize lg \<and> lc_FileSize lg \<le> FileSizeMax env"

definition node_ok :: "config_env \<Rightarrow> NodeConfig \<Rightarrow> bool" where
  "node_ok env n \<longleftrightarrow> 0 < nc_ID n \<and> TrimSpace (nc_ListenAddr n) \<noteq> '''' \<and>
     0 \<le> nc_ServiceCallTimeout n \<and>
     (case nc_Logger n of None \<Rightarrow> True | Some lg \<Rightarrow> logger_ok env lg) \<and>
     list_all service_ok (nc_Services n) \<and> distinct (map config_key (nc_Services n))"

text \<open>The keys under which log directories are compared.\<close>

definition log_key :: "config_env \<Rightarrow> LoggerConfig \<Rightarrow> string" where
  "log_key env lg = ToLower (unicodeLower env) (filepath_Clean (TrimSpace (lc_Dir lg)))"

definition log_keys :: "config_env \<Rightarrow> NodeConfig list \<Rightarrow> string list" where
  "log_keys env ns =
     concat (map (\<lambda>n. case nc_Logger n of None \<Rightarrow> [] | Some lg \<Rightarrow> [log_key env lg]) ns)"

definition config_ok :: "config_env \<Rightarrow> Config \<Rightarrow> bool" where
  "config_ok env c \<longleftrightarrow>
     list_all (node_ok env) (Nodes c) \<and>
     distinct (map nc_ID (Nodes c)) \<and>
     distinct (map (\<lambda>n. TrimSpace (nc_ListenAddr n)) (Nodes c)) \<and>
     distinct (log_keys env (Nodes c)) \<and>
     0 < MainNode c \<and> MainNode c \<in> nc_ID ` set (Nodes c)"

lemma validate_services_Cons:
  "validate_services i j seen (s # ss) = (ss', None) \<longleftrightarrow>
     service_ok s \<and> config_key s \<notin> set seen \<and>
     (\<exists>ts. validate_services i (Suc j) (config_key s # seen) ss = (ts, None) \<and>
           ss' = norm_service s # ts)"
  by (simp add: service_ok_def config_key_def norm_service_def Let_def not_less
      split: option.split prod.split) auto

lemma validate_services_eq:
  "validate_services i j seen ss = (ss', None) \<longleftrightarrow>
     list_all service_ok ss \<and> distinct (map config_key ss) \<and>
     set seen \<inter> config_key ` set ss = {} \<and> ss' = map norm_service ss"
proof (induction ss arbitrary: j seen ss')
  case (Cons s ss)
  show ?case by (simp only: validate_services_Cons Cons.IH) auto
qed auto

text \<open>The effect of one node on the loop's maps.\<close>

definition track_node :: "config_env \<Rightarrow> int \<Rightarrow> NodeConfig \<Rightarrow> validate_state \<Rightarrow> validate_state" where
  "track_node env main n st = st\<lparr>nodeIDs := nc_ID n # nodeIDs st,
     mainFound := (nc_ID n = main \<or> mainFound st),
     addresses := go_put (TrimSpace (nc_ListenAddr n)) (nc_ID n) (addresses st),
     logDirs := (case nc_Logger n of None \<Rightarrow> logDirs st
                 | Some lg \<Rightarrow> go_put (log_key env lg) (nc_ID n) (logDirs st))\<rparr>"

definition fresh_node :: "config_env \<Rightarrow> NodeConfig \<Rightarrow> validate_state \<Rightarrow> bool" where
  "fresh_node env n st \<longleftrightarrow> nc_ID n \<notin> set (nodeIDs st) \<and>
     go_get (addresses st) (TrimSpace (nc_ListenAddr n)) = None \<and>
     (case nc_Logger n of None \<Rightarrow> True | Some lg \<Rightarrow> go_get (logDirs st) (log_key env lg) = None)"

lemma validate_logger_eq:
  "validate_logger env i nid lg st = (lg', st', None) \<longleftrightarrow>
     logger_ok env lg \<and> go_get (logDirs st) (log_key env lg) = None \<and>
     lg' = norm_logger env lg \<and>
     st' = st\<lparr>logDirs := go_put (log_key env lg) nid (logDirs st)\<rparr>"
  by (auto simp: validate_logger_def logger_ok_def norm_logger_def log_key_def is_ok_def Let_def
      split: option.splits sum.splits if_splits)

lemma validate_node_complete:
  assumes "node_ok env n" "fresh_node env n st"
  shows "validate_node env main i n st = (norm_node env n, track_node env main n st, None)"
proof -
  have vs: "validate_services i 0 [] (nc_Services n) = (map norm_service (nc_Services n), None)"
    using assms by (simp add: validate_services_eq node_ok_def)
  have vl: "validate_logger env i nid lg st' =
      (norm_logger env lg, st'\<lparr>logDirs := go_put (log_key env lg) nid (logDirs st')\<rparr>, None)"
    if "nc_Logger n = Some lg" "logDirs st' = logDirs st" for lg nid st'
    using assms that by (simp add: validate_logger_eq node_ok_def fresh_node_def)
  show ?thesis
    using assms vs
    by (cases n; cases st; cases "nc_Logger n")
      (auto simp: validate_node_def vl node_ok_def fresh_node_def norm_node_def track_node_def Let_def)
qed

lemma validate_node_sound:
  assumes "validate_node env main i n st = (n', st', None)"
  shows "node_ok env n \<and> fresh_node env n st"
proof (cases "nc_Logger n")
  case None
  with assms show ?thesis
    by (auto simp: validate_node_def node_ok_def fresh_node_def Let_def validate_services_eq
        split: option.splits prod.splits if_splits)
next
  case (Some lg)
  with assms show ?thesis
    by (auto simp: validate_node_def node_ok_def fresh_node_def Let_def validate_services_eq
        validate_logger_eq split: option.splits prod.splits if_splits)
qed

lemma validate_node_eq:
  "validate_node env main i n st = (n', st', None) \<longleftrightarrow>
     node_ok env n \<and> fresh_node env n st \<and> n' = norm_node env n \<and> st' = track_node env main n st"
  using validate_node_complete [of env n st main i] validate_node_sound [of env main i n st n' st']
  by auto

fun nodes_fresh :: "config_env \<Rightarrow> int \<Rightarrow> NodeConfig list \<Rightarrow> validate_state \<Rightarrow> bool" where
  "nodes_fresh env main [] st \<longleftrightarrow> True"
| "nodes_fresh env main (n # ns) st \<longleftrightarrow>
     fresh_node env n st \<and> nodes_fresh env main ns (track_node env main n st)"

lemma validate_nodes_eq:
  "validate_nodes env main i ns st = (ns', st', None) \<longleftrightarrow>
     list_all (node_ok env) ns \<and> nodes_fresh env main ns st \<and>
     ns' = map (norm_node env) ns \<and> st' = fold (track_node env main) ns st"
proof (induction ns arbitrary: i st ns')
  case (Cons n ns)
  have "validate_nodes env main i (n # ns) st = (ns', st', None) \<longleftrightarrow>
      (\<exists>m st1 ms. validate_node env main i n st = (m, st1, None) \<and>
         validate_nodes env main (Suc i) ns st1 = (ms, st', None) \<and> ns' = m # ms)"
    by (auto split: prod.splits option.splits)
  then show ?case by (auto simp: validate_node_eq Cons.IH)
qed auto

text \<open>A list whose elements are new: different from each other and accepted by \<open>P\<close>.\<close>

definition all_new :: "('a \<Rightarrow> bool) \<Rightarrow> 'a list \<Rightarrow> bool" where
  "all_new P xs \<longleftrightarrow> distinct xs \<and> (\<forall>x \<in> set xs. P x)"

lemma all_new_simps:
  "all_new P []" "all_new P (x # xs) \<longleftrightarrow> P x \<and> all_new (\<lambda>y. y \<noteq> x \<and> P y) xs"
  by (auto simp: all_new_def)

lemma nodes_fresh_iff:
  "nodes_fresh env main ns st \<longleftrightarrow>
     all_new (\<lambda>i. i \<notin> set (nodeIDs st)) (map nc_ID ns) \<and>
     all_new (\<lambda>a. go_get (addresses st) a = None) (map (\<lambda>n. TrimSpace (nc_ListenAddr n)) ns) \<and>
     all_new (\<lambda>k. go_get (logDirs st) k = None) (log_keys env ns)"
proof (induction ns arbitrary: st)
  case (Cons n ns)
  have put: "go_get (go_put k (v::int) m) k' = None \<longleftrightarrow> k' \<noteq> k \<and> go_get m k' = None"
    for k k' :: string and v m by simp
  have logs: "log_keys env (n # ns) =
      (case nc_Logger n of None \<Rightarrow> log_keys env ns | Some lg \<Rightarrow> log_key env lg # log_keys env ns)"
    by (simp add: log_keys_def split: option.splits)
  show ?case
    by (cases "nc_Logger n")
      (simp_all add: Cons.IH fresh_node_def track_node_def logs put all_new_simps conj_ac
        del: gm.get_put)
qed (simp add: log_keys_def all_new_simps)

lemma mainFound_track:
  "mainFound (fold (track_node env main) ns st) \<longleftrightarrow> mainFound st \<or> main \<in> nc_ID ` set ns"
  by (induction ns arbitrary: st) (auto simp: track_node_def)

lemma validate_config_eq:
  "validate_config env c = (c', None) \<longleftrightarrow> config_ok env c \<and> c' = norm_config env c"
proof -
  let ?st = "\<lparr>nodeIDs = [], addresses = [], logDirs = [], mainFound = False\<rparr>"
  have "validate_config env c = (c', None) \<longleftrightarrow>
      Nodes c \<noteq> [] \<and> 0 < MainNode c \<and>
      (\<exists>ns st. validate_nodes env (MainNode c) 0 (Nodes c) ?st = (ns, st, None) \<and>
         mainFound st \<and> c' = c\<lparr>Nodes := ns\<rparr>)"
    by (auto simp: validate_config_def split: prod.splits option.splits if_splits)
  then show ?thesis
    by (auto simp: validate_nodes_eq nodes_fresh_iff all_new_def mainFound_track config_ok_def
        norm_config_def)
qed

section \<open>Normal forms\<close>

lemma Config_Validate_Some:
  "Config_Validate env (Some c) = (Some c', None) \<longleftrightarrow> config_ok env c \<and> c' = norm_config env c"
  by (auto simp: Config_Validate_def validate_config_eq [symmetric] split: prod.splits)

lemma norm_node_simps [simp]:
  "nc_ID (norm_node env n) = nc_ID n"
  "nc_ListenAddr (norm_node env n) = TrimSpace (nc_ListenAddr n)"
  "nc_ServiceCallTimeout (norm_node env n) = nc_ServiceCallTimeout n"
  "nc_Logger (norm_node env n) = map_option (norm_logger env) (nc_Logger n)"
  "nc_Services (norm_node env n) = map norm_service (nc_Services n)"
  by (simp_all add: norm_node_def)

lemma norm_config_simps [simp]:
  "Nodes (norm_config env c) = map (norm_node env) (Nodes c)"
  "MainNode (norm_config env c) = MainNode c"
  by (simp_all add: norm_config_def)

lemma norm_service_idem:
  "norm_service (norm_service s) = norm_service s" "config_key (norm_service s) = config_key s"
  "service_ok (norm_service s) = service_ok s"
  by (simp_all add: norm_service_def config_key_def service_ok_def)

text \<open>A logger whose normal form is not changed by trimming and lowering once more.\<close>

definition stable_logger :: "config_env \<Rightarrow> LoggerConfig \<Rightarrow> bool" where
  "stable_logger env lg \<longleftrightarrow> TrimSpace (lc_Dir lg) = lc_Dir lg \<and>
     ToLower (unicodeLower env) (TrimSpace (lc_Level lg)) = lc_Level lg"

lemma filepath_Clean_not_empty: "filepath_Clean p \<noteq> ''''"
  by (auto simp: filepath_Clean_def Let_def)

lemma norm_logger_stable:
  assumes "stable_logger env (norm_logger env lg)"
  shows "norm_logger env (norm_logger env lg) = norm_logger env lg"
    and "log_key env (norm_logger env lg) = log_key env lg"
    and "logger_ok env lg \<Longrightarrow> logger_ok env (norm_logger env lg)"
proof -
  from assms show idem: "norm_logger env (norm_logger env lg) = norm_logger env lg"
    by (simp add: stable_logger_def norm_logger_def filepath_Clean_idem)
  from assms show "log_key env (norm_logger env lg) = log_key env lg"
    by (simp add: stable_logger_def norm_logger_def log_key_def filepath_Clean_idem)
  assume "logger_ok env lg"
  with assms show "logger_ok env (norm_logger env lg)"
    unfolding logger_ok_def idem
    by (simp add: stable_logger_def norm_logger_def filepath_Clean_not_empty)
qed

lemma norm_node_stable:
  assumes "\<And>lg. nc_Logger n = Some lg \<Longrightarrow> stable_logger env (norm_logger env lg)"
  shows "norm_node env (norm_node env n) = norm_node env n"
    and "node_ok env n \<Longrightarrow> node_ok env (norm_node env n)"
    and "log_keys env [norm_node env n] = log_keys env [n]"
  using assms
  by (cases n; cases "nc_Logger n";
      auto simp: norm_node_def node_ok_def log_keys_def norm_logger_stable norm_service_idem
        list_all_iff o_def)+

lemma config_ok_norm:
  assumes "config_ok env c"
    and "\<And>n lg. n \<in> set (Nodes c) \<Longrightarrow> nc_Logger n = Some lg \<Longrightarrow>
           stable_logger env (norm_logger env lg)"
  shows "config_ok env (norm_config env c)" and "norm_config env (norm_config env c) = norm_config env c"
proof -
  have keys: "log_keys env (map (norm_node env) ns) = log_keys env ns" if "set ns \<subseteq> set (Nodes c)" for ns
    using that
  proof (induction ns)
    case (Cons n ns)
    then have "log_keys env [norm_node env n] = log_keys env [n]"
      by (intro norm_node_stable) (auto intro: assms(2))
    with Cons show ?case by (simp add: log_keys_def)
  qed (simp add: log_keys_def)
  from assms show "config_ok env (norm_config env c)"
    by (auto simp: config_ok_def keys list_all_iff o_def image_image intro: norm_node_stable(2))
  have "norm_node env (norm_node env n) = norm_node env n" if "n \<in> set (Nodes c)" for n
    using that by (intro norm_node_stable) (rule assms(2))
  then show "norm_config env (norm_config env c) = norm_config env c"
    by (simp add: norm_config_def o_def cong: map_cong)
qed

section \<open>Properties\<close>

definition sample_env :: config_env where
  "sample_env = \<lparr>FileSizeMin = 1, FileSizeMax = 1024, unicodeLower = (\<lambda>s. s)\<rparr>"

definition sample_logger :: "string \<Rightarrow> LoggerConfig" where
  "sample_logger dir = \<lparr>lc_Dir = dir, lc_Level = ''WARN'', lc_FileSize = 16, lc_Screen = True,
     lc_Async = False\<rparr>"

definition sample_node :: "int \<Rightarrow> string \<Rightarrow> string \<Rightarrow> NodeConfig" where
  "sample_node i addr dir = \<lparr>nc_ID = i, nc_ListenAddr = addr, nc_ServiceCallTimeout = 0,
     nc_Logger = Some (sample_logger dir),
     nc_Services = [\<lparr>sc_Name = '' gate'', sc_ID = 1, sc_Loop = None, sc_Options = []\<rparr>]\<rparr>"

definition sample_config :: "string \<Rightarrow> string \<Rightarrow> Config" where
  "sample_config dir1 dir2 =
     \<lparr>MainNode = 1, Nodes = [sample_node 1 '':1 '' dir1, sample_node 2 '':2'' dir2]\<rparr>"

text \<open>
  C29. \<^verbatim>\<open>Validate\<close> returns no error exactly for the configurations that satisfy the declarative
  specification \<open>config_ok\<close> (positive and distinct node ids, non-empty and distinct addresses,
  distinct log directories, well-formed and per-node distinct services, a main node that is
  configured), whatever the order in which the loop meets the nodes, and it then leaves
  exactly the normal form behind the pointer.
\<close>

theorem Validate_exact:
  "Config_Validate env c = (c', None) \<longleftrightarrow>
     (\<exists>d. c = Some d \<and> config_ok env d \<and> c' = Some (norm_config env d))"
proof (cases c)
  case (Some d)
  have "Config_Validate env (Some d) = (c', None) \<longleftrightarrow>
      (\<exists>e. c' = Some e \<and> validate_config env d = (e, None))"
    by (auto simp: Config_Validate_def split: prod.splits)
  with Some show ?thesis by (auto simp: validate_config_eq)
qed (simp add: Config_Validate_def)

text \<open>
  After a successful \<^verbatim>\<open>Validate\<close> every configured node is the one that \<^verbatim>\<open>Config.Node\<close>
  returns for its id, the main node is among them, and no two nodes share an address.
\<close>

theorem Validate_lookup:
  assumes "Config_Validate env (Some c) = (Some c', None)"
  shows "(\<forall>n \<in> set (Nodes c'). Config_Node (Some c') (nc_ID n) = Some n) \<and>
     (\<exists>m \<in> set (Nodes c'). Config_Node (Some c') (MainNode c') = Some m \<and> nc_ID m = MainNode c') \<and>
     distinct (map nc_ListenAddr (Nodes c'))"
proof -
  from assms have ok: "config_ok env c" and c': "c' = norm_config env c"
    by (simp_all add: Config_Validate_Some)
  then have "distinct (map nc_ID (Nodes c'))" "MainNode c' \<in> nc_ID ` set (Nodes c')"
    "distinct (map nc_ListenAddr (Nodes c'))"
    by (simp_all add: config_ok_def o_def image_image)
  moreover have "find (\<lambda>n. nc_ID n = nc_ID m) ns = Some m"
    if "distinct (map nc_ID ns)" "m \<in> set ns" for ns :: "NodeConfig list" and m
    using that by (induction ns) auto
  ultimately show ?thesis by (auto simp: Config_Node_def)
qed

theorem Validate_lookup_witness:
  "Config_Node (fst (Config_Validate sample_env (Some (sample_config ''a'' ''b'')))) 2 =
     Some (norm_node sample_env (sample_node 2 '':2'' ''b''))"
proof -
  let ?c = "sample_config ''a'' ''b''"
  have "config_ok sample_env ?c" by code_simp
  then have v: "Config_Validate sample_env (Some ?c) = (Some (norm_config sample_env ?c), None)"
    by (simp add: Config_Validate_Some)
  have n: "norm_node sample_env (sample_node 2 '':2'' ''b'') \<in> set (Nodes (norm_config sample_env ?c))"
    by (simp add: sample_config_def)
  from Validate_lookup [OF v] n have "Config_Node (Some (norm_config sample_env ?c))
      (nc_ID (norm_node sample_env (sample_node 2 '':2'' ''b''))) =
      Some (norm_node sample_env (sample_node 2 '':2'' ''b''))" by blast
  then show ?thesis by (simp add: v) (simp add: sample_node_def)
qed

text \<open>
  Validating a configuration that has been validated already changes nothing and succeeds,
  provided the loggers' normal forms are stable: the cleaned directory has no surrounding
  spaces and the lowered level is a fixed point of the Unicode case mapping. A node may then
  be created from the result of \<^verbatim>\<open>LoadConfig\<close>, which \<^verbatim>\<open>NewNode\<close> validates again.
\<close>

theorem Validate_again:
  assumes "Config_Validate env (Some c) = (Some c', None)"
    and "\<And>n lg. n \<in> set (Nodes c') \<Longrightarrow> nc_Logger n = Some lg \<Longrightarrow> stable_logger env lg"
  shows "Config_Validate env (Some c') = (Some c', None)"
proof -
  from assms(1) have c: "config_ok env c" "c' = norm_config env c"
    by (simp_all add: Config_Validate_Some)
  moreover have "stable_logger env (norm_logger env lg)"
    if "n \<in> set (Nodes c)" "nc_Logger n = Some lg" for n lg
    using that c(2) by (intro assms(2) [of "norm_node env n"]) auto
  ultimately show ?thesis
    using config_ok_norm [of env c] by (simp add: Config_Validate_Some)
qed

theorem Validate_again_witness:
  "Config_Validate sample_env (Some (norm_config sample_env (sample_config ''a'' ''b''))) =
     (Some (norm_config sample_env (sample_config ''a'' ''b'')), None)"
proof (rule Validate_again)
  have "config_ok sample_env (sample_config ''a'' ''b'')" by code_simp
  then show "Config_Validate sample_env (Some (sample_config ''a'' ''b'')) =
      (Some (norm_config sample_env (sample_config ''a'' ''b'')), None)"
    by (simp add: Config_Validate_Some)
  have "list_all (\<lambda>n. case nc_Logger n of None \<Rightarrow> True | Some lg \<Rightarrow> stable_logger sample_env lg)
      (Nodes (norm_config sample_env (sample_config ''a'' ''b'')))" by code_simp
  then show "stable_logger sample_env lg"
    if "n \<in> set (Nodes (norm_config sample_env (sample_config ''a'' ''b'')))"
      "nc_Logger n = Some lg" for n lg
    using that unfolding list_all_iff by fastforce
qed

text \<open>
  Without that proviso validation is not idempotent: the directory is trimmed before it is
  cleaned, so \<^verbatim>\<open>a/../ b\<close> becomes \<^verbatim>\<open> b\<close> with a leading space, which the first pass
  distinguishes from \<^verbatim>\<open>b\<close> and the second does not. The first validation accepts the
  configuration and the second one rejects its result.
\<close>

theorem Validate_not_idempotent:
  "\<exists>c c'. Config_Validate sample_env (Some c) = (Some c', None) \<and>
     snd (Config_Validate sample_env (Some c')) \<noteq> None"
proof -
  let ?c = "sample_config ''b'' ''a/../ b''"
  have ok: "config_ok sample_env ?c" by code_simp
  have "\<not> config_ok sample_env (norm_config sample_env ?c)" by code_simp
  then have "snd (Config_Validate sample_env (Some (norm_config sample_env ?c))) \<noteq> None"
    using validate_config_eq [of sample_env "norm_config sample_env ?c"]
    by (cases "validate_config sample_env (norm_config sample_env ?c)")
      (auto simp: Config_Validate_def)
  with ok show ?thesis by (metis Config_Validate_Some)
qed

end
