(* ===== verification/Subscription_Index.thy ===== *)
theory Subscription_Index
  imports Registry
begin

text \<open>
  The first half of \<^verbatim>\<open>service_subscription.go\<close>: \<^verbatim>\<open>serviceSubscriptionIndex\<close>, the two
  mutually inverse indexes of the main node's subscription relation, and
  \<^verbatim>\<open>sortServiceKeys\<close>. The index is refined from the plain relation of subscribers and
  service names (\<open>subscription_store\<close>).
\<close>

text \<open>Go's \<^verbatim>\<open>map[K]struct{}\<close>, a set.\<close>

type_synonym 'k goset = "('k, unit) gomap"

abbreviation goset_of :: "'k goset \<Rightarrow> 'k set" where
  "goset_of s \<equiv> {k. go_get s k \<noteq> None}"

section \<open>The contract\<close>

text \<open>
  What the main node relies on: the index stores a relation, adding a pair reports whether
  it is new, removing a subscriber removes all its pairs and nothing else, and
  \<open>subscribers\<close> lists the subscribers of a name in the order of the keys.
\<close>

locale subscription_store =
  fixes empty :: "'i"
    and subscribe :: "ServiceKey \<Rightarrow> string \<Rightarrow> 'i \<Rightarrow> bool \<times> 'i"
    and removeSubscriber :: "ServiceKey \<Rightarrow> 'i \<Rightarrow> 'i"
    and subscribers :: "'i \<Rightarrow> string \<Rightarrow> ServiceKey list"
    and rel :: "'i \<Rightarrow> (ServiceKey \<times> string) set"
    and inv :: "'i \<Rightarrow> bool"
  assumes rel_empty: "rel empty = {}"
    and inv_empty: "inv empty"
    and rel_subscribe: "inv i \<Longrightarrow> rel (snd (subscribe k n i)) = insert (k, n) (rel i)"
    and new_subscribe: "inv i \<Longrightarrow> fst (subscribe k n i) \<longleftrightarrow> (k, n) \<notin> rel i"
    and inv_subscribe: "inv i \<Longrightarrow> inv (snd (subscribe k n i))"
    and rel_removeSubscriber: "inv i \<Longrightarrow> rel (removeSubscriber k i) = {p \<in> rel i. fst p \<noteq> k}"
    and inv_removeSubscriber: "inv i \<Longrightarrow> inv (removeSubscriber k i)"
    and set_subscribers: "inv i \<Longrightarrow> set (subscribers i n) = {k. (k, n) \<in> rel i}"
    and sorted_subscribers: "inv i \<Longrightarrow> sorted (subscribers i n) \<and> distinct (subscribers i n)"
begin

lemma subscribe_again:
  "inv i \<Longrightarrow> (k, n) \<in> rel i \<Longrightarrow>
     \<not> fst (subscribe k n i) \<and> rel (snd (subscribe k n i)) = rel i"
  by (auto simp: rel_subscribe new_subscribe)

lemma rel_remove_all:
  "inv i \<Longrightarrow> rel (fold removeSubscriber ks i) = {p \<in> rel i. fst p \<notin> set ks}"
  by (induction ks arbitrary: i) (auto simp: rel_removeSubscriber inv_removeSubscriber)

lemma inv_remove_all: "inv i \<Longrightarrow> inv (fold removeSubscriber ks i)"
  by (induction ks arbitrary: i) (auto simp: inv_removeSubscriber)

text \<open>The list of subscribers is a function of the relation alone.\<close>

lemma subscribers_cong:
  "inv i \<Longrightarrow> inv j \<Longrightarrow> {k. (k, n) \<in> rel i} = {k. (k, n) \<in> rel j} \<Longrightarrow>
     subscribers i n = subscribers j n"
  by (intro sorted_distinct_set_unique) (auto simp: set_subscribers sorted_subscribers)

end

section \<open>The implementation\<close>

record serviceSubscriptionIndex =
  byServiceName :: "(string, ServiceKey goset) gomap"
  bySubscriber :: "(ServiceKey, string goset) gomap"

definition newServiceSubscriptionIndex :: serviceSubscriptionIndex where
  "newServiceSubscriptionIndex = \<lparr>byServiceName = [], bySubscriber = []\<rparr>"

text \<open>A nil inner map reads as the empty map.\<close>

definition inner :: "('k, 'a goset) gomap \<Rightarrow> 'k \<Rightarrow> 'a goset" where
  "inner m k = (case go_get m k of None \<Rightarrow> [] | Some s \<Rightarrow> s)"

definition index_subscribe ::
    "ServiceKey \<Rightarrow> string \<Rightarrow> serviceSubscriptionIndex \<Rightarrow> bool \<times> serviceSubscriptionIndex" where
  "index_subscribe subscriber serviceName s =
     (let s1 = (if go_get (byServiceName s) serviceName = None
                then s\<lparr>byServiceName := go_put serviceName [] (byServiceName s)\<rparr> else s);
          subs = inner (byServiceName s1) serviceName
      in if go_get subs subscriber \<noteq> None then (False, s1)
         else
           let s2 = s1\<lparr>byServiceName :=
                  go_put serviceName (go_put subscriber () subs) (byServiceName s1)\<rparr>;
               s3 = (if go_get (bySubscriber s2) subscriber = None
                     then s2\<lparr>bySubscriber := go_put subscriber [] (bySubscriber s2)\<rparr> else s2);
               serviceNames = inner (bySubscriber s3) subscriber
           in (True, s3\<lparr>bySubscriber :=
                 go_put subscriber (go_put serviceName () serviceNames) (bySubscriber s3)\<rparr>))"

text \<open>The body of the loop of \<^verbatim>\<open>removeSubscriber\<close>: one name of the subscriber.\<close>

definition drop_subscriber ::
    "ServiceKey \<Rightarrow> string \<Rightarrow> (string, ServiceKey goset) gomap \<Rightarrow> (string, ServiceKey goset) gomap" where
  "drop_subscriber subscriber serviceName m =
     (let subs = go_del subscriber (inner m serviceName)
      in if subs = [] then go_del serviceName m else go_put serviceName subs m)"

definition index_removeSubscriber ::
    "ServiceKey \<Rightarrow> serviceSubscriptionIndex \<Rightarrow> serviceSubscriptionIndex" where
  "index_removeSubscriber subscriber s =
     (let serviceNames = inner (bySubscriber s) subscriber
      in s\<lparr>byServiceName :=
             fold (drop_subscriber subscriber) (map fst serviceNames) (byServiceName s),
           bySubscriber := go_del subscriber (bySubscriber s)\<rparr>)"

text \<open>\<^verbatim>\<open>sort.Slice\<close> with the order of the keys; equal keys do not occur twice.\<close>

definition sortServiceKeys :: "ServiceKey list \<Rightarrow> ServiceKey list" where
  "sortServiceKeys keys = sort keys"

definition index_subscribers :: "serviceSubscriptionIndex \<Rightarrow> string \<Rightarrow> ServiceKey list" where
  "index_subscribers s serviceName = sortServiceKeys (map fst (inner (byServiceName s) serviceName))"

text \<open>The relation the index stores, and its invariant: both directions agree.\<close>

definition index_rel :: "serviceSubscriptionIndex \<Rightarrow> (ServiceKey \<times> string) set" where
  "index_rel s = {(k, n). go_get (inner (byServiceName s) n) k \<noteq> None}"

definition index_inv :: "serviceSubscriptionIndex \<Rightarrow> bool" where
  "index_inv s \<longleftrightarrow>
     go_wf (byServiceName s) \<and> go_wf (bySubscriber s) \<and>
     (\<forall>n. go_wf (inner (byServiceName s) n)) \<and> (\<forall>k. go_wf (inner (bySubscriber s) k)) \<and>
     (\<forall>n subs. go_get (byServiceName s) n = Some subs \<longrightarrow> subs \<noteq> []) \<and>
     (\<forall>k ns. go_get (bySubscriber s) k = Some ns \<longrightarrow> ns \<noteq> []) \<and>
     (\<forall>k n. go_get (inner (byServiceName s) n) k \<noteq> None \<longleftrightarrow>
            go_get (inner (bySubscriber s) k) n \<noteq> None)"

lemma inner_put [simp]: "inner (go_put k v m) k' = (if k' = k then v else inner m k')"
  by (simp add: inner_def)

lemma inner_del [simp]: "inner (go_del k m) k' = (if k' = k then [] else inner m k')"
  by (simp add: inner_def)

lemma inner_empty [simp]: "inner [] k = []"
  by (simp add: inner_def)

lemma go_put_not_Nil [simp]: "go_put k v m \<noteq> []"
proof
  assume "go_put k v m = []"
  then have "go_get (go_put k v m) k = None" by simp
  then show False by simp
qed

lemma inner_None [simp]: "go_get m k = None \<Longrightarrow> inner m k = []"
  by (simp add: inner_def)

lemma go_del_absent: "go_get m k = None \<Longrightarrow> go_del k m = m"
  by (simp add: go_del_def go_get_None_iff)

lemma inner_drop_subscriber [simp]:
  "inner (drop_subscriber k n m) n' = (if n' = n then go_del k (inner m n) else inner m n')"
  by (simp add: drop_subscriber_def Let_def)

lemma inner_drop_all:
  "inner (fold (drop_subscriber k) ns m) n =
     (if n \<in> set ns then go_del k (inner m n) else inner m n)"
  by (induction ns arbitrary: m) (auto simp: go_del_absent)

definition nonempty_inner :: "('k, 'a goset) gomap \<Rightarrow> bool" where
  "nonempty_inner m \<longleftrightarrow> (\<forall>n subs. go_get m n = Some subs \<longrightarrow> subs \<noteq> [])"

lemma nonempty_inner_drop:
  "go_wf m \<and> nonempty_inner m \<Longrightarrow> go_wf (drop_subscriber k n m) \<and> nonempty_inner (drop_subscriber k n m)"
  by (auto simp: drop_subscriber_def nonempty_inner_def Let_def)

lemma nonempty_inner_drop_all:
  "go_wf m \<and> nonempty_inner m \<Longrightarrow>
   go_wf (fold (drop_subscriber k) ns m) \<and> nonempty_inner (fold (drop_subscriber k) ns m)"
proof (induction ns arbitrary: m)
  case (Cons n ns)
  from Cons.IH [OF nonempty_inner_drop [OF Cons.prems]] show ?case by simp
qed simp

lemma index_inv_alt:
  "index_inv s \<longleftrightarrow>
     (go_wf (byServiceName s) \<and> nonempty_inner (byServiceName s)) \<and>
     (go_wf (bySubscriber s) \<and> nonempty_inner (bySubscriber s)) \<and>
     (\<forall>n. go_wf (inner (byServiceName s) n)) \<and> (\<forall>k. go_wf (inner (bySubscriber s) k)) \<and>
     (\<forall>k n. (k, n) \<in> index_rel s \<longleftrightarrow> go_get (inner (bySubscriber s) k) n \<noteq> None)"
  by (auto simp: index_inv_def index_rel_def nonempty_inner_def)

lemma index_invD:
  "index_inv s \<Longrightarrow> (k, n) \<in> index_rel s \<longleftrightarrow> n \<in> set (map fst (inner (bySubscriber s) k))"
  by (simp add: index_inv_alt go_in_keys)

text \<open>The three maps after \<^verbatim>\<open>subscribe\<close>, seen through their contents.\<close>

lemma index_subscribe_new:
  assumes "(k, n) \<notin> index_rel s"
  shows "fst (index_subscribe k n s)"
    and "inner (byServiceName (snd (index_subscribe k n s))) n' =
           (if n' = n then go_put k () (inner (byServiceName s) n) else inner (byServiceName s) n')"
    and "inner (bySubscriber (snd (index_subscribe k n s))) k' =
           (if k' = k then go_put n () (inner (bySubscriber s) k) else inner (bySubscriber s) k')"
  using assms by (auto simp: index_subscribe_def index_rel_def Let_def inner_def)

lemma index_subscribe_old:
  assumes "(k, n) \<in> index_rel s"
  shows "index_subscribe k n s = (False, s)"
proof -
  from assms have "go_get (byServiceName s) n \<noteq> None"
    by (auto simp: index_rel_def inner_def split: option.splits)
  with assms show ?thesis
    by (auto simp: index_subscribe_def index_rel_def Let_def)
qed

lemma index_rel_subscribe: "index_rel (snd (index_subscribe k n s)) = insert (k, n) (index_rel s)"
proof (cases "(k, n) \<in> index_rel s")
  case True
  then show ?thesis by (auto simp: index_subscribe_old)
next
  case False
  then show ?thesis
    by (auto simp: index_rel_def index_subscribe_new split: if_splits)
qed

lemma index_inv_subscribe:
  assumes "index_inv s"
  shows "index_inv (snd (index_subscribe k n s))"
proof (cases "(k, n) \<in> index_rel s")
  case True
  with assms show ?thesis by (simp add: index_subscribe_old)
next
  case False
  have "go_wf (byServiceName (snd (index_subscribe k n s)))"
    "nonempty_inner (byServiceName (snd (index_subscribe k n s)))"
    "go_wf (bySubscriber (snd (index_subscribe k n s)))"
    "nonempty_inner (bySubscriber (snd (index_subscribe k n s)))"
    using assms False
    by (auto simp: index_subscribe_def index_inv_alt index_rel_def nonempty_inner_def Let_def)
  with assms show ?thesis
    by (auto simp: index_inv_alt index_rel_subscribe index_subscribe_new [OF False])
qed

lemma index_rel_removeSubscriber:
  assumes "index_inv s"
  shows "index_rel (index_removeSubscriber k s) = {p \<in> index_rel s. fst p \<noteq> k}"
proof -
  have "(k', n) \<in> index_rel (index_removeSubscriber k s) \<longleftrightarrow> (k', n) \<in> index_rel s \<and> k' \<noteq> k" for k' n
    using index_invD [OF assms, of k n]
    by (auto simp: index_rel_def index_removeSubscriber_def inner_drop_all Let_def)
  then show ?thesis by auto
qed

lemma index_inv_removeSubscriber:
  assumes "index_inv s"
  shows "index_inv (index_removeSubscriber k s)"
proof -
  have "go_wf (byServiceName (index_removeSubscriber k s)) \<and>
      nonempty_inner (byServiceName (index_removeSubscriber k s))"
    using assms
    by (auto simp: index_removeSubscriber_def Let_def index_inv_alt intro!: nonempty_inner_drop_all)
  moreover have "go_wf (inner (byServiceName (index_removeSubscriber k s)) n)" for n
    using assms by (auto simp: index_removeSubscriber_def Let_def index_inv_alt inner_drop_all)
  moreover have "bySubscriber (index_removeSubscriber k s) = go_del k (bySubscriber s)"
    by (simp add: index_removeSubscriber_def Let_def)
  ultimately show ?thesis
    using assms
    by (auto simp: index_inv_alt index_rel_removeSubscriber [OF assms] nonempty_inner_def
        split: if_splits)
qed

lemma index_inv_new: "index_inv newServiceSubscriptionIndex"
  by (simp add: index_inv_def newServiceSubscriptionIndex_def)

interpretation ix: subscription_store newServiceSubscriptionIndex index_subscribe
  index_removeSubscriber index_subscribers index_rel index_inv
proof unfold_locales
  show "index_rel newServiceSubscriptionIndex = {}"
    by (simp add: index_rel_def newServiceSubscriptionIndex_def)
  show "fst (index_subscribe k n i) \<longleftrightarrow> (k, n) \<notin> index_rel i" for i k n
    using index_subscribe_new(1) [of k n i] by (auto simp: index_subscribe_old)
  show "index_inv i \<Longrightarrow> set (index_subscribers i n) = {k. (k, n) \<in> index_rel i}" for i n
    using go_keys_dom [of "inner (byServiceName i) n"]
    by (simp add: index_subscribers_def sortServiceKeys_def index_rel_def)
  show "index_inv i \<Longrightarrow> sorted (index_subscribers i n) \<and> distinct (index_subscribers i n)" for i n
    by (simp add: index_subscribers_def sortServiceKeys_def index_inv_def go_wf_def)
qed (simp_all add: index_inv_new index_rel_subscribe index_inv_subscribe
    index_rel_removeSubscriber index_inv_removeSubscriber)

end
