(* ===== verification/Message_Id.thy ===== *)
theory Message_Id
  imports Go_Error Go_Text "HOL-Library.Word"
begin

text \<open>
  The message identifiers of \<^verbatim>\<open>service.go\<close>: a numeric or a textual id with its
  validation, and \<^verbatim>\<open>normalizeSubscribedServiceName\<close> of \<^verbatim>\<open>service_subscription.go\<close>,
  which checks service names the same way.
\<close>

section \<open>Message ids\<close>

definition serviceMessageIDNumeric :: "8 word" where
  "serviceMessageIDNumeric = 1"

definition serviceMessageIDString :: "8 word" where
  "serviceMessageIDString = 2"

definition maxStringMessageIDSize :: nat where
  "maxStringMessageIDSize = 256"

record serviceMessageID =
  kind :: "8 word"
  number :: "32 word"
  idtext :: string

definition numericServiceMessageID :: "32 word \<Rightarrow> serviceMessageID" where
  "numericServiceMessageID value = \<lparr>kind = serviceMessageIDNumeric, number = value, idtext = ''''\<rparr>"

definition stringServiceMessageID :: "string \<Rightarrow> serviceMessageID" where
  "stringServiceMessageID value = \<lparr>kind = serviceMessageIDString, number = 0, idtext = value\<rparr>"

text \<open>\<^verbatim>\<open>validate\<close>: the error, or \<open>None\<close> for nil.\<close>

definition messageID_validate :: "serviceMessageID \<Rightarrow> gerror option" where
  "messageID_validate i =
     (if kind i = serviceMessageIDNumeric then
        (if number i = 0
         then Some (wrapf ErrInvalidMessage ''numeric message id is zero'' []) else None)
      else if kind i = serviceMessageIDString then
        (if idtext i = ''''
         then Some (wrapf ErrInvalidMessage ''string message id is empty'' [])
         else if maxStringMessageIDSize < length (idtext i)
         then Some (wrapf ErrInvalidMessage ''string message id is too long: %d bytes''
           [ArgD (int (length (idtext i)))])
         else if \<not> utf8_ValidString (idtext i)
         then Some (wrapf ErrInvalidMessage ''string message id is not valid UTF-8'' [])
         else None)
      else Some (wrapf ErrInvalidMessage ''message id kind is invalid'' []))"

definition messageID_String :: "serviceMessageID \<Rightarrow> garg" where
  "messageID_String i =
     (if kind i = serviceMessageIDString then ArgQ (idtext i) else ArgD (uint (number i)))"

lemmas messageID_defs =
  serviceMessageIDNumeric_def serviceMessageIDString_def numericServiceMessageID_def
  stringServiceMessageID_def

lemma messageID_kinds_differ [simp]: "serviceMessageIDString \<noteq> serviceMessageIDNumeric"
  by (simp add: messageID_defs)

text \<open>A valid id is one of the two constructed forms, with a usable value.\<close>

definition usable_text :: "string \<Rightarrow> bool" where
  "usable_text t \<longleftrightarrow> t \<noteq> '''' \<and> length t \<le> 256 \<and> utf8_ValidString t"

lemma validate_None_iff:
  "messageID_validate i = None \<longleftrightarrow>
     (kind i = serviceMessageIDNumeric \<and> number i \<noteq> 0) \<or>
     (kind i = serviceMessageIDString \<and> usable_text (idtext i))"
  by (auto simp: messageID_validate_def usable_text_def maxStringMessageIDSize_def)

lemma validate_error_Is:
  "messageID_validate i = Some e \<Longrightarrow> errors_Is e t \<longleftrightarrow> t = ErrInvalidMessage"
  by (auto simp: messageID_validate_def split: if_splits)

section \<open>Subscribed service names\<close>

definition maxSubscribedServiceNameSize :: nat where
  "maxSubscribedServiceNameSize = 256"

definition normalizeSubscribedServiceName :: "string \<Rightarrow> string result" where
  "normalizeSubscribedServiceName serviceName =
     (let serviceName = TrimSpace serviceName in
      if serviceName = '''' then Inl (Errorf ''subscribed service name is empty'' [])
      else if maxSubscribedServiceNameSize < length serviceName
      then Inl (Errorf ''subscribed service name is too long: %d bytes''
        [ArgD (int (length serviceName))])
      else if \<not> utf8_ValidString serviceName
      then Inl (Errorf ''subscribed service name is not valid UTF-8'' [])
      else Inr serviceName)"

lemma normalize_result:
  "normalizeSubscribedServiceName s = Inr n \<longleftrightarrow> n = TrimSpace s \<and> usable_text n"
  by (auto simp: normalizeSubscribedServiceName_def usable_text_def
      maxSubscribedServiceNameSize_def Let_def)

text \<open>A normalized name is accepted unchanged by the receiving side's check.\<close>

lemma normalize_stable:
  "normalizeSubscribedServiceName s = Inr n \<Longrightarrow> normalizeSubscribedServiceName n = Inr n"
  by (auto simp: normalize_result)

end
