(* ===== verification/Rpc_Messages.thy ===== *)
theory Rpc_Messages
  imports Message_Id Registry
begin

text \<open>
  The protocol messages of \<^verbatim>\<open>internal/rpcpb\<close> and the two libraries they pass through,
  neither of which is in the repository: the packets of \<^verbatim>\<open>xtnet/net/packet\<close> and
  \<^verbatim>\<open>google.golang.org/protobuf\<close>. Both are parameters (\<open>packet_api\<close>, \<open>proto_api\<close>) with the
  behaviour the code relies on as the predicates \<open>packet_laws\<close> and \<open>proto_laws\<close>. A message
  pointer that may be nil is an option; an \<open>int64\<close> or enum field is an \<open>int\<close>.
\<close>

section \<open>Messages\<close>

record pb_ServiceKey =
  pk_Name :: string
  pk_Id :: int

record pb_ServiceLocation =
  pl_ServiceName :: string
  pl_ServiceId :: int
  pl_NodeId :: int
  pl_NodeAddr :: string

record RegisterNodeRequest =
  rn_NodeId :: int
  rn_NodeAddr :: string

record RegisterRequest =
  rr_Location :: "pb_ServiceLocation option"

record UnregisterRequest =
  ur_Target :: "pb_ServiceKey option"

record LookupRequest =
  lq_Target :: "pb_ServiceKey option"

record LookupResponse =
  lr_Location :: "pb_ServiceLocation option"

record RouteInvalidate =
  ri_Target :: "pb_ServiceKey option"

record SubscribeRequest =
  sq_Subscriber :: "pb_ServiceKey option"
  sq_ServiceName :: string

record ServiceDiscovery =
  sd_Subscriber :: "pb_ServiceKey option"
  sd_ServiceName :: string
  sd_EventType :: int
  sd_Services :: "pb_ServiceKey option list"

record DeliverRequest =
  dr_Source :: "pb_ServiceKey option"
  dr_Target :: "pb_ServiceKey option"
  dr_MessageId :: "32 word"
  dr_StringMessageId :: string
  dr_Payload :: string
  dr_Mode :: int

record DeliverResponse =
  dp_Payload :: string

datatype pb_message =
    PbRegisterNodeRequest RegisterNodeRequest | PbRegisterNodeResponse
  | PbHeartbeatRequest | PbHeartbeatResponse
  | PbRegisterRequest RegisterRequest | PbRegisterResponse
  | PbUnregisterRequest UnregisterRequest | PbUnregisterResponse
  | PbLookupRequest LookupRequest | PbLookupResponse LookupResponse
  | PbRouteInvalidate RouteInvalidate
  | PbSubscribeRequest SubscribeRequest | PbSubscribeResponse
  | PbServiceDiscovery ServiceDiscovery
  | PbDeliverRequest DeliverRequest | PbDeliverResponse DeliverResponse

text \<open>An argument of interface type: the nil interface, a typed nil pointer or a message.\<close>

datatype pb_arg = NilInterface | NilPointer | Msg pb_message

section \<open>Enumerations\<close>

definition opNone :: int where "opNone = 0"
definition opRegisterNode :: int where "opRegisterNode = 1"
definition opRegister :: int where "opRegister = 2"
definition opUnregister :: int where "opUnregister = 3"
definition opLookup :: int where "opLookup = 4"
definition opDeliver :: int where "opDeliver = 5"
definition opRouteInvalidate :: int where "opRouteInvalidate = 6"
definition opHeartbeat :: int where "opHeartbeat = 7"
definition opSubscribe :: int where "opSubscribe = 8"
definition opServiceDiscovery :: int where "opServiceDiscovery = 9"

lemmas op_defs =
  opNone_def opRegisterNode_def opRegister_def opUnregister_def opLookup_def opDeliver_def
  opRouteInvalidate_def opHeartbeat_def opSubscribe_def opServiceDiscovery_def

definition eventSnapshot :: int where "eventSnapshot = 1"
definition eventOnline :: int where "eventOnline = 2"
definition eventOffline :: int where "eventOffline = 3"

lemmas event_defs = eventSnapshot_def eventOnline_def eventOffline_def

definition deliverRequestModeDirect :: int where "deliverRequestModeDirect = 1"
definition deliverRequestModeSync :: int where "deliverRequestModeSync = 2"
definition deliverRequestModeAsync :: int where "deliverRequestModeAsync = 3"

lemmas mode_defs =
  deliverRequestModeDirect_def deliverRequestModeSync_def deliverRequestModeAsync_def

section \<open>The packet library\<close>

text \<open>
  A packet being written is the bytes written so far, one being read the bytes not read yet
  (so \<^verbatim>\<open>GetLeftSize\<close> is its length and \<^verbatim>\<open>GetCurData\<close> the packet itself).
\<close>

record packet_api =
  WriteInt16 :: "string \<Rightarrow> int \<Rightarrow> string"
  WriteString :: "string \<Rightarrow> string \<Rightarrow> string"
  ReadInt16 :: "string \<Rightarrow> int \<times> string"
  PeakInt16 :: "string \<Rightarrow> int"
  ReadString :: "string \<Rightarrow> string \<times> string"

text \<open>
  What the wire code relies on, for an encoding \<open>enc\<close> of a 16-bit integer in two bytes:
  writing appends, reading undoes writing, and a string is its length and its bytes.
\<close>

definition int16_range :: "int \<Rightarrow> bool" where
  "int16_range i \<longleftrightarrow> - 32768 \<le> i \<and> i < 32768"

definition packet_laws :: "packet_api \<Rightarrow> (int \<Rightarrow> string) \<Rightarrow> bool" where
  "packet_laws pk enc \<longleftrightarrow>
     (\<forall>i. length (enc i) = 2) \<and>
     (\<forall>p i. WriteInt16 pk p i = p @ enc i) \<and>
     (\<forall>p s. int16_range (int (length s)) \<longrightarrow>
        WriteString pk p s = p @ enc (int (length s)) @ s) \<and>
     (\<forall>i r. int16_range i \<longrightarrow> ReadInt16 pk (enc i @ r) = (i, r)) \<and>
     (\<forall>i r. int16_range i \<longrightarrow> PeakInt16 pk (enc i @ r) = i) \<and>
     (\<forall>s r. int16_range (int (length s)) \<longrightarrow>
        ReadString pk (enc (int (length s)) @ s @ r) = (s, r))"

section \<open>The protobuf library\<close>

record proto_api =
  proto_Size :: "pb_message \<Rightarrow> int"
  proto_Marshal :: "pb_message \<Rightarrow> string result"
  un_RegisterNodeRequest :: "string \<Rightarrow> RegisterNodeRequest result"
  un_RegisterNodeResponse :: "string \<Rightarrow> unit result"
  un_HeartbeatRequest :: "string \<Rightarrow> unit result"
  un_HeartbeatResponse :: "string \<Rightarrow> unit result"
  un_RegisterRequest :: "string \<Rightarrow> RegisterRequest result"
  un_RegisterResponse :: "string \<Rightarrow> unit result"
  un_UnregisterRequest :: "string \<Rightarrow> UnregisterRequest result"
  un_UnregisterResponse :: "string \<Rightarrow> unit result"
  un_LookupRequest :: "string \<Rightarrow> LookupRequest result"
  un_LookupResponse :: "string \<Rightarrow> LookupResponse result"
  un_RouteInvalidate :: "string \<Rightarrow> RouteInvalidate result"
  un_SubscribeRequest :: "string \<Rightarrow> SubscribeRequest result"
  un_SubscribeResponse :: "string \<Rightarrow> unit result"
  un_ServiceDiscovery :: "string \<Rightarrow> ServiceDiscovery result"
  un_DeliverRequest :: "string \<Rightarrow> DeliverRequest result"
  un_DeliverResponse :: "string \<Rightarrow> DeliverResponse result"

text \<open>Unmarshalling into a message of the same type undoes marshalling.\<close>

fun unmarshals :: "proto_api \<Rightarrow> pb_message \<Rightarrow> string \<Rightarrow> bool" where
  "unmarshals pr (PbRegisterNodeRequest m) b \<longleftrightarrow> un_RegisterNodeRequest pr b = Inr m"
| "unmarshals pr PbRegisterNodeResponse b \<longleftrightarrow> un_RegisterNodeResponse pr b = Inr ()"
| "unmarshals pr PbHeartbeatRequest b \<longleftrightarrow> un_HeartbeatRequest pr b = Inr ()"
| "unmarshals pr PbHeartbeatResponse b \<longleftrightarrow> un_HeartbeatResponse pr b = Inr ()"
| "unmarshals pr (PbRegisterRequest m) b \<longleftrightarrow> un_RegisterRequest pr b = Inr m"
| "unmarshals pr PbRegisterResponse b \<longleftrightarrow> un_RegisterResponse pr b = Inr ()"
| "unmarshals pr (PbUnregisterRequest m) b \<longleftrightarrow> un_UnregisterRequest pr b = Inr m"
| "unmarshals pr PbUnregisterResponse b \<longleftrightarrow> un_UnregisterResponse pr b = Inr ()"
| "unmarshals pr (PbLookupRequest m) b \<longleftrightarrow> un_LookupRequest pr b = Inr m"
| "unmarshals pr (PbLookupResponse m) b \<longleftrightarrow> un_LookupResponse pr b = Inr m"
| "unmarshals pr (PbRouteInvalidate m) b \<longleftrightarrow> un_RouteInvalidate pr b = Inr m"
| "unmarshals pr (PbSubscribeRequest m) b \<longleftrightarrow> un_SubscribeRequest pr b = Inr m"
| "unmarshals pr PbSubscribeResponse b \<longleftrightarrow> un_SubscribeResponse pr b = Inr ()"
| "unmarshals pr (PbServiceDiscovery m) b \<longleftrightarrow> un_ServiceDiscovery pr b = Inr m"
| "unmarshals pr (PbDeliverRequest m) b \<longleftrightarrow> un_DeliverRequest pr b = Inr m"
| "unmarshals pr (PbDeliverResponse m) b \<longleftrightarrow> un_DeliverResponse pr b = Inr m"

definition proto_laws :: "proto_api \<Rightarrow> bool" where
  "proto_laws pr \<longleftrightarrow>
     (\<forall>m b. proto_Marshal pr m = Inr b \<longrightarrow> proto_Size pr m = int (length b) \<and> unmarshals pr m b)"

end
