(* ===== verification/Rpc_Wire.thy ===== *)
theory Rpc_Wire
  imports Rpc_Messages
begin

text \<open>
  \<^verbatim>\<open>rpc_wire.go\<close>: the request envelope (a 16-bit operation and a protobuf payload), the
  result (a code, an error message and a payload), the conversions between the framework's
  values and the protocol's, and the object pools of the deliver messages; with the decoding
  checks of \<^verbatim>\<open>node.go\<close> (\<^verbatim>\<open>decodeDeliverRequest\<close>, \<^verbatim>\<open>requiredRPCServiceKey\<close>,
  \<^verbatim>\<open>requiredRPCServiceLocation\<close>, \<^verbatim>\<open>rpcNodeID\<close>) and the choice of an error code
  (\<^verbatim>\<open>respondRPCError\<close>).
\<close>

section \<open>The environment\<close>

text \<open>
  What the code runs on: the width of Go's \<open>int\<close> (32 or 64), the quoting of \<open>%q\<close>, and the
  two libraries.
\<close>

record go_env =
  intBits :: nat
  quote :: "string \<Rightarrow> string"
  packet :: packet_api
  proto :: proto_api

section \<open>Envelopes\<close>

definition maxRPCStringSize :: nat where
  "maxRPCStringSize = 32767"

definition encodeEnvelope :: "go_env \<Rightarrow> int \<Rightarrow> pb_arg \<Rightarrow> string result" where
  "encodeEnvelope env op message =
     (case message of
        NilInterface \<Rightarrow> Inl (Errorf ''encode rpc operation payload: message is nil'' [])
      | NilPointer \<Rightarrow> Inl (Errorf ''encode rpc operation payload: message is nil'' [])
      | Msg m \<Rightarrow>
          let msgSize = proto_Size (proto env) m;
              wpk = WriteInt16 (packet env) [] (signed_take_bit 15 op)
          in case proto_Marshal (proto env) m of
               Inl err \<Rightarrow> Inl err
             | Inr data \<Rightarrow>
                 if int (length data) \<noteq> msgSize
                 then Inl (Errorf ''protobuf size changed during marshal: got %d, want %d''
                   [ArgD (int (length data)), ArgD msgSize])
                 else Inr (wpk @ data))"

definition decodeEnvelope :: "go_env \<Rightarrow> string \<Rightarrow> (int \<times> string) result" where
  "decodeEnvelope env rpk =
     (if length rpk < 2 then Inl (Errorf ''decode rpc envelope: missing operation'' [])
      else Inr (ReadInt16 (packet env) rpk))"

definition decodeOperationPayload :: "(string \<Rightarrow> 'm result) \<Rightarrow> string \<Rightarrow> 'm result" where
  "decodeOperationPayload unmarshal payLoad =
     (case unmarshal payLoad of
        Inl err \<Rightarrow> Inl (Errorf ''decode rpc payload: %w'' [ArgW err])
      | Inr message \<Rightarrow> Inr message)"

section \<open>Results\<close>

definition encodeResult :: "go_env \<Rightarrow> string \<Rightarrow> string \<Rightarrow> pb_arg \<Rightarrow> string result" where
  "encodeResult env code errMessage message =
     (if maxRPCStringSize < length code
      then Inl (Errorf ''encode rpc result: code is too long: %d'' [ArgD (int (length code))])
      else if maxRPCStringSize < length errMessage
      then Inl (Errorf ''encode rpc result: error message is too long: %d''
        [ArgD (int (length errMessage))])
      else
        let wpk = WriteString (packet env) (WriteString (packet env) [] code) errMessage
        in case message of
             NilInterface \<Rightarrow> Inr wpk
           | NilPointer \<Rightarrow> Inl (Errorf ''encode rpc result: message is nil'' [])
           | Msg m \<Rightarrow>
               let msgSize = proto_Size (proto env) m
               in case proto_Marshal (proto env) m of
                    Inl err \<Rightarrow> Inl (Errorf ''encode rpc result: %w'' [ArgW err])
                  | Inr data \<Rightarrow>
                      if int (length data) \<noteq> msgSize
                      then Inl (Errorf ''protobuf size changed during marshal: got %d, want %d''
                        [ArgD (int (length data)), ArgD msgSize])
                      else Inr (wpk @ data))"

text \<open>The sizes are compared as integers when the definition is evaluated.\<close>

lemma encodeResult_code [code]:
  "encodeResult env code errMessage message =
     (if 32767 < int (length code)
      then Inl (Errorf ''encode rpc result: code is too long: %d'' [ArgD (int (length code))])
      else if 32767 < int (length errMessage)
      then Inl (Errorf ''encode rpc result: error message is too long: %d''
        [ArgD (int (length errMessage))])
      else
        let wpk = WriteString (packet env) (WriteString (packet env) [] code) errMessage
        in case message of
             NilInterface \<Rightarrow> Inr wpk
           | NilPointer \<Rightarrow> Inl (Errorf ''encode rpc result: message is nil'' [])
           | Msg m \<Rightarrow>
               let msgSize = proto_Size (proto env) m
               in case proto_Marshal (proto env) m of
                    Inl err \<Rightarrow> Inl (Errorf ''encode rpc result: %w'' [ArgW err])
                  | Inr data \<Rightarrow>
                      if int (length data) \<noteq> msgSize
                      then Inl (Errorf ''protobuf size changed during marshal: got %d, want %d''
                        [ArgD (int (length data)), ArgD msgSize])
                      else Inr (wpk @ data))"
  by (simp add: encodeResult_def maxRPCStringSize_def cong: if_cong)

definition readResultString :: "go_env \<Rightarrow> string \<Rightarrow> string \<Rightarrow> (string \<times> string) result" where
  "readResultString env rpk name =
     (if length rpk < 2
      then Inl (Errorf ''decode rpc result: missing %s length'' [ArgS name])
      else
        let size = PeakInt16 (packet env) rpk in
        if size < 0
        then Inl (Errorf ''decode rpc result: invalid %s length %d'' [ArgS name, ArgD size])
        else if int (length rpk) < size + 2
        then Inl (Errorf ''decode rpc result: incomplete %s'' [ArgS name])
        else Inr (ReadString (packet env) rpk))"

text \<open>The sentinel a result code stands for.\<close>

definition code_cause :: "string \<Rightarrow> sentinel option" where
  "code_cause code =
     (if code = ''service_not_found'' then Some ErrServiceNotFound
      else if code = ''service_exists'' then Some ErrServiceExists
      else if code = ''node_not_found'' then Some ErrNodeNotFound
      else if code = ''node_exists'' then Some ErrNodeExists
      else if code = ''invalid_message'' then Some ErrInvalidMessage
      else None)"

definition decodeResult :: "go_env \<Rightarrow> string \<Rightarrow> string result" where
  "decodeResult env rpk =
     (case readResultString env rpk ''code'' of
        Inl err \<Rightarrow> Inl err
      | Inr (code, rpk) \<Rightarrow>
          (case readResultString env rpk ''error message'' of
             Inl err \<Rightarrow> Inl err
           | Inr (errMessage, rpk) \<Rightarrow>
               if code \<noteq> ''''
               then (case code_cause code of
                       Some cause \<Rightarrow> Inl (wrapf cause ''remote rpc: %s'' [ArgS errMessage])
                     | None \<Rightarrow> Inl (Errorf ''remote rpc: %s'' [ArgS errMessage]))
               else Inr rpk))"

definition decodeResultPayload :: "(string \<Rightarrow> 'm result) \<Rightarrow> string \<Rightarrow> 'm result" where
  "decodeResultPayload unmarshal payload =
     (case unmarshal payload of
        Inl err \<Rightarrow> Inl (Errorf ''decode rpc operation result: %w'' [ArgW err])
      | Inr message \<Rightarrow> Inr message)"

text \<open>
  The code \<^verbatim>\<open>respondRPCError\<close> sends for an error, and the packet it builds; when the text
  does not fit a packet string there is no packet, only an error to report.
\<close>

definition error_code :: "gerror \<Rightarrow> string" where
  "error_code err =
     (if errors_Is err ErrServiceNotFound then ''service_not_found''
      else if errors_Is err ErrServiceExists then ''service_exists''
      else if errors_Is err ErrNodeNotFound then ''node_not_found''
      else if errors_Is err ErrNodeExists then ''node_exists''
      else if errors_Is err ErrInvalidMessage then ''invalid_message''
      else ''rpc_error'')"

definition encodeRPCError :: "go_env \<Rightarrow> gerror option \<Rightarrow> string result" where
  "encodeRPCError env err =
     (case err of
        None \<Rightarrow> encodeResult env '''' '''' NilInterface
      | Some e \<Rightarrow> encodeResult env (error_code e) (error_text (quote env) e) NilInterface)"

section \<open>Integers and keys\<close>

definition rpcInt :: "go_env \<Rightarrow> int \<Rightarrow> string \<Rightarrow> int result" where
  "rpcInt env value name =
     (let converted = signed_take_bit (intBits env - 1) value in
      if signed_take_bit 63 converted \<noteq> value
      then Inl (Errorf ''%s %d overflows int'' [ArgS name, ArgD value])
      else Inr converted)"

definition serviceKeyToProto :: "ServiceKey \<Rightarrow> pb_ServiceKey" where
  "serviceKeyToProto key = \<lparr>pk_Name = key_Name key, pk_Id = signed_take_bit 63 (key_ID key)\<rparr>"

definition serviceKeyFromProto :: "go_env \<Rightarrow> pb_ServiceKey option \<Rightarrow> ServiceKey result" where
  "serviceKeyFromProto env key =
     (case key of
        None \<Rightarrow> Inl (Errorf ''service key is missing'' [])
      | Some key \<Rightarrow>
          (case rpcInt env (pk_Id key) ''service id'' of
             Inl err \<Rightarrow> Inl err
           | Inr sid \<Rightarrow> Inr (ServiceKey (pk_Name key) sid)))"

definition requiredRPCServiceKey ::
    "go_env \<Rightarrow> pb_ServiceKey option \<Rightarrow> string \<Rightarrow> ServiceKey result" where
  "requiredRPCServiceKey env message name =
     (case serviceKeyFromProto env message of
        Inl err \<Rightarrow> Inl (Errorf ''%s: %w'' [ArgS name, ArgW err])
      | Inr key \<Rightarrow>
          if key_Name key = '''' \<or> key_ID key \<le> 0
          then Inl (Errorf ''%s is invalid: %s'' [ArgS name, ArgS (key_String key)])
          else Inr key)"

text \<open>The loop of \<^verbatim>\<open>requiredRPCServiceKeys\<close> from index \<open>i\<close> on.\<close>

fun requiredRPCServiceKeys ::
    "go_env \<Rightarrow> nat \<Rightarrow> pb_ServiceKey option list \<Rightarrow> string \<Rightarrow> ServiceKey list result" where
  "requiredRPCServiceKeys env i [] name = Inr []"
| "requiredRPCServiceKeys env i (message # keys) name =
     (case requiredRPCServiceKey env message (go_render ''%s[%d]'' [name, fmt_d (int i)]) of
        Inl err \<Rightarrow> Inl err
      | Inr key \<Rightarrow>
          (case requiredRPCServiceKeys env (Suc i) keys name of
             Inl err \<Rightarrow> Inl err
           | Inr result \<Rightarrow> Inr (key # result)))"

definition serviceLocationToProto :: "ServiceLocation \<Rightarrow> pb_ServiceLocation" where
  "serviceLocationToProto location =
     \<lparr>pl_ServiceName = ServiceName location,
      pl_ServiceId = signed_take_bit 63 (ServiceID location),
      pl_NodeId = signed_take_bit 63 (NodeID location),
      pl_NodeAddr = NodeAddr location\<rparr>"

definition serviceLocationFromProto ::
    "go_env \<Rightarrow> pb_ServiceLocation option \<Rightarrow> ServiceLocation result" where
  "serviceLocationFromProto env location =
     (case location of
        None \<Rightarrow> Inl (Errorf ''service location is missing'' [])
      | Some l \<Rightarrow>
          (case rpcInt env (pl_ServiceId l) ''service id'' of
             Inl err \<Rightarrow> Inl err
           | Inr serviceID \<Rightarrow>
               (case rpcInt env (pl_NodeId l) ''node id'' of
                  Inl err \<Rightarrow> Inl err
                | Inr nodeID \<Rightarrow>
                    Inr \<lparr>ServiceName = pl_ServiceName l, ServiceID = serviceID,
                         NodeID = nodeID, NodeAddr = pl_NodeAddr l\<rparr>)))"

definition requiredRPCServiceLocation ::
    "go_env \<Rightarrow> pb_ServiceLocation option \<Rightarrow> string \<Rightarrow> ServiceLocation result" where
  "requiredRPCServiceLocation env message name =
     (case serviceLocationFromProto env message of
        Inl err \<Rightarrow> Inl (Errorf ''%s: %w'' [ArgS name, ArgW err])
      | Inr location \<Rightarrow>
          if ServiceName location = '''' \<or> ServiceID location \<le> 0 \<or> NodeID location \<le> 0 \<or>
             NodeAddr location = ''''
          then Inl (Errorf ''%s is invalid: %+v'' [ArgS name, ArgS (fmt_location location)])
          else Inr location)"

definition rpcNodeID :: "go_env \<Rightarrow> int \<Rightarrow> int result" where
  "rpcNodeID env value =
     (case rpcInt env value ''node id'' of
        Inl err \<Rightarrow> Inl err
      | Inr nodeID \<Rightarrow>
          if nodeID \<le> 0 then Inl (Errorf ''node id must be positive'' []) else Inr nodeID)"

section \<open>Deliver messages and their pools\<close>

text \<open>
  \<^verbatim>\<open>sync.Pool\<close> hands out any pooled object or a new one and may forget objects; the state
  of a pool is the list of its objects, and \<open>pick\<close> says which object \<^verbatim>\<open>Get\<close> returns.
  The three pools of the deliver messages share one contract: every object in the pool is
  clean, so what is handed out carries nothing of an earlier message.
\<close>

definition pool_Get :: "'a \<Rightarrow> nat option \<Rightarrow> 'a list \<Rightarrow> 'a \<times> 'a list" where
  "pool_Get fresh pick pool =
     (case pick of
        Some i \<Rightarrow> if i < length pool then (pool ! i, take i pool @ drop (Suc i) pool)
                  else (fresh, pool)
      | None \<Rightarrow> (fresh, pool))"

locale clean_pool =
  fixes fresh :: 'a
    and scrub :: "'a \<Rightarrow> 'a"
    and clean :: "'a \<Rightarrow> bool"
  assumes clean_fresh: "clean fresh"
    and clean_scrub: "clean (scrub x)"
begin

lemma pool_Get_clean:
  assumes "list_all clean pool"
  shows "clean (fst (pool_Get fresh pick pool))" and "list_all clean (snd (pool_Get fresh pick pool))"
proof -
  have "list_all clean (take i pool)" "list_all clean (drop i pool)" for i
    using assms by (auto simp: list_all_iff dest: in_set_takeD in_set_dropD)
  with assms show "list_all clean (snd (pool_Get fresh pick pool))"
    by (auto simp: pool_Get_def split: option.splits)
  from assms show "clean (fst (pool_Get fresh pick pool))"
    by (auto simp: pool_Get_def clean_fresh list_all_length split: option.splits)
qed

lemma pool_Put_clean: "list_all clean pool \<Longrightarrow> list_all clean (scrub x # pool)"
  by (simp add: clean_scrub)

end

definition empty_key :: pb_ServiceKey where
  "empty_key = \<lparr>pk_Name = '''', pk_Id = 0\<rparr>"

definition empty_DeliverRequest :: DeliverRequest where
  "empty_DeliverRequest = \<lparr>dr_Source = None, dr_Target = None, dr_MessageId = 0,
     dr_StringMessageId = '''', dr_Payload = '''', dr_Mode = 0\<rparr>"

definition new_DeliverSendRequest :: DeliverRequest where
  "new_DeliverSendRequest =
     empty_DeliverRequest\<lparr>dr_Source := Some empty_key, dr_Target := Some empty_key\<rparr>"

definition acquireDeliverSendRequest ::
    "nat option \<Rightarrow> DeliverRequest list \<Rightarrow> DeliverRequest \<times> DeliverRequest list" where
  "acquireDeliverSendRequest = pool_Get new_DeliverSendRequest"

text \<open>
  The nested keys must be present: on a nil \<^verbatim>\<open>Source\<close> or \<^verbatim>\<open>Target\<close> the assignment would
  panic, which is the result \<open>None\<close>.
\<close>

definition initializeDeliverRequest ::
    "DeliverRequest \<Rightarrow> ServiceKey \<Rightarrow> ServiceKey \<Rightarrow> serviceMessageID \<Rightarrow> string \<Rightarrow> int \<Rightarrow>
     DeliverRequest option" where
  "initializeDeliverRequest request source target messageID payload mode =
     (if dr_Source request = None \<or> dr_Target request = None then None
      else
        let request = request\<lparr>dr_Source := Some (serviceKeyToProto source),
              dr_Target := Some (serviceKeyToProto target),
              dr_Payload := payload, dr_Mode := mode\<rparr>
        in Some (if kind messageID = serviceMessageIDString
                 then request\<lparr>dr_StringMessageId := idtext messageID\<rparr>
                 else request\<lparr>dr_MessageId := number messageID\<rparr>))"

text \<open>\<^verbatim>\<open>proto.Reset\<close> empties a message; the nested keys are reset and kept.\<close>

definition scrub_DeliverSendRequest :: "DeliverRequest \<Rightarrow> DeliverRequest" where
  "scrub_DeliverSendRequest request =
     (let source = (case dr_Source request of None \<Rightarrow> empty_key | Some k \<Rightarrow> empty_key);
          target = (case dr_Target request of None \<Rightarrow> empty_key | Some k \<Rightarrow> empty_key);
          request = empty_DeliverRequest
      in request\<lparr>dr_Source := Some source, dr_Target := Some target\<rparr>)"

definition releaseDeliverSendRequest ::
    "DeliverRequest option \<Rightarrow> DeliverRequest list \<Rightarrow> DeliverRequest list" where
  "releaseDeliverSendRequest request pool =
     (case request of None \<Rightarrow> pool | Some r \<Rightarrow> scrub_DeliverSendRequest r # pool)"

definition acquireDeliverReceiveRequest ::
    "nat option \<Rightarrow> DeliverRequest list \<Rightarrow> DeliverRequest \<times> DeliverRequest list" where
  "acquireDeliverReceiveRequest = pool_Get empty_DeliverRequest"

definition releaseDeliverReceiveRequest ::
    "DeliverRequest option \<Rightarrow> DeliverRequest list \<Rightarrow> DeliverRequest list" where
  "releaseDeliverReceiveRequest request pool =
     (case request of None \<Rightarrow> pool | Some r \<Rightarrow> empty_DeliverRequest # pool)"

definition empty_DeliverResponse :: DeliverResponse where
  "empty_DeliverResponse = \<lparr>dp_Payload = ''''\<rparr>"

definition acquireDeliverResponse ::
    "nat option \<Rightarrow> DeliverResponse list \<Rightarrow> DeliverResponse \<times> DeliverResponse list" where
  "acquireDeliverResponse = pool_Get empty_DeliverResponse"

definition releaseDeliverResponse ::
    "DeliverResponse option \<Rightarrow> DeliverResponse list \<Rightarrow> DeliverResponse list" where
  "releaseDeliverResponse response pool =
     (case response of None \<Rightarrow> pool | Some r \<Rightarrow> empty_DeliverResponse # pool)"

interpretation send_pool: clean_pool new_DeliverSendRequest scrub_DeliverSendRequest
  "\<lambda>r. r = new_DeliverSendRequest"
  by unfold_locales
    (simp_all add: scrub_DeliverSendRequest_def new_DeliverSendRequest_def split: option.splits)

interpretation receive_pool: clean_pool empty_DeliverRequest "\<lambda>_. empty_DeliverRequest"
  "\<lambda>r. r = empty_DeliverRequest"
  by unfold_locales simp_all

interpretation response_pool: clean_pool empty_DeliverResponse "\<lambda>_. empty_DeliverResponse"
  "\<lambda>r. r = empty_DeliverResponse"
  by unfold_locales simp_all

definition decodeDeliverRequest ::
    "go_env \<Rightarrow> DeliverRequest \<Rightarrow> (ServiceKey \<times> ServiceKey \<times> serviceMessageID \<times> int) result" where
  "decodeDeliverRequest env request =
     (case serviceKeyFromProto env (dr_Source request) of
        Inl err \<Rightarrow> Inl (Errorf ''deliver source: %w'' [ArgW err])
      | Inr source \<Rightarrow>
          if source \<noteq> ServiceKey '''' 0 \<and> (key_Name source = '''' \<or> key_ID source \<le> 0)
          then Inl (Errorf ''deliver source is invalid: %s'' [ArgS (key_String source)])
          else
            (case requiredRPCServiceKey env (dr_Target request) ''deliver target'' of
               Inl err \<Rightarrow> Inl err
             | Inr target \<Rightarrow>
                 if dr_MessageId request \<noteq> 0 \<and> dr_StringMessageId request \<noteq> ''''
                 then Inl (Errorf ''deliver contains both numeric and string message ids'' [])
                 else
                   let messageID = (if dr_StringMessageId request \<noteq> ''''
                         then stringServiceMessageID (dr_StringMessageId request)
                         else numericServiceMessageID (dr_MessageId request))
                   in case messageID_validate messageID of
                        Some err \<Rightarrow> Inl (Errorf ''deliver message id: %w'' [ArgW err])
                      | None \<Rightarrow>
                          let mode = dr_Mode request in
                          if mode = deliverRequestModeDirect \<or> mode = deliverRequestModeSync \<or>
                             mode = deliverRequestModeAsync
                          then Inr (source, target, messageID, mode)
                          else Inl (Errorf ''deliver mode %d is invalid'' [ArgD mode])))"

section \<open>Integers keep their value or are refused\<close>

definition go_int :: "nat \<Rightarrow> int \<Rightarrow> bool" where
  "go_int w v \<longleftrightarrow> - (2 ^ (w - 1)) \<le> v \<and> v < 2 ^ (w - 1)"

lemma signed_take_bit_63:
  assumes "w \<le> 64"
  shows "signed_take_bit 63 (signed_take_bit (w - 1) (v::int)) = signed_take_bit (w - 1) v"
proof -
  from assms have "min 63 (w - 1) = w - 1" by simp
  then show ?thesis by (metis signed_take_bit_signed_take_bit)
qed

lemma go_int_take: "signed_take_bit (w - 1) v = v \<longleftrightarrow> go_int w v"
  by (simp add: go_int_def signed_take_bit_int_eq_self_iff)

lemma rpcInt_Inr_iff:
  assumes "intBits env \<le> 64"
  shows "rpcInt env v name = Inr r \<longleftrightarrow> r = v \<and> go_int (intBits env) v"
  using assms
  by (auto simp: rpcInt_def Let_def signed_take_bit_63 go_int_take [symmetric])

lemma go_int_64: "intBits env \<le> 64 \<Longrightarrow> go_int (intBits env) v \<Longrightarrow> signed_take_bit 63 v = v"
  using signed_take_bit_63 [of "intBits env" v] by (simp add: go_int_take [symmetric])

text \<open>For evaluation: the conversions are the identity in the range of \<^verbatim>\<open>int64\<close>.\<close>

lemma serviceKeyToProto_code [code]:
  "serviceKeyToProto key = \<lparr>pk_Name = key_Name key, pk_Id = (let i = key_ID key in
     if -9223372036854775808 \<le> i \<and> i < 9223372036854775808 then i else signed_take_bit 63 i)\<rparr>"
  by (simp add: serviceKeyToProto_def Let_def signed_take_bit_int_eq_self)

lemma rpcInt_code [code]:
  "rpcInt env value name =
     (if intBits env = 64 \<and> -9223372036854775808 \<le> value \<and> value < 9223372036854775808 then Inr value
      else let converted = signed_take_bit (intBits env - 1) value in
        if signed_take_bit 63 converted \<noteq> value
        then Inl (Errorf ''%s %d overflows int'' [ArgS name, ArgD value])
        else Inr converted)"
  by (simp add: rpcInt_def Let_def signed_take_bit_int_eq_self)

lemma serviceKey_roundtrip:
  assumes "intBits env \<le> 64" "go_int (intBits env) (key_ID k)"
  shows "serviceKeyFromProto env (Some (serviceKeyToProto k)) = Inr k"
  using assms
  by (auto simp: serviceKeyFromProto_def serviceKeyToProto_def go_int_64 rpcInt_Inr_iff
      split: sum.splits)
    (metis Inl_Inr_False rpcInt_Inr_iff)

lemma requiredKey_roundtrip:
  assumes "intBits env \<le> 64" "go_int (intBits env) (key_ID k)" "key_Name k \<noteq> ''''" "0 < key_ID k"
  shows "requiredRPCServiceKey env (Some (serviceKeyToProto k)) name = Inr k"
  using assms by (simp add: requiredRPCServiceKey_def serviceKey_roundtrip)

lemma requiredRPCServiceKey_Inr:
  "requiredRPCServiceKey env m name = Inr k \<Longrightarrow> key_Name k \<noteq> '''' \<and> 0 < key_ID k"
  by (auto simp: requiredRPCServiceKey_def split: sum.splits if_splits)

lemma requiredRPCServiceLocation_Inr:
  "requiredRPCServiceLocation env m name = Inr l \<Longrightarrow> valid_location l"
  by (auto simp: requiredRPCServiceLocation_def valid_location_def split: sum.splits if_splits)

lemma serviceLocation_roundtrip:
  assumes "intBits env \<le> 64" "go_int (intBits env) (ServiceID l)" "go_int (intBits env) (NodeID l)"
    "valid_location l"
  shows "requiredRPCServiceLocation env (Some (serviceLocationToProto l)) name = Inr l"
proof -
  have "rpcInt env (ServiceID l) nm = Inr (ServiceID l)" "rpcInt env (NodeID l) nm = Inr (NodeID l)" for nm
    using assms by (simp_all add: rpcInt_Inr_iff)
  with assms show ?thesis
    by (simp add: requiredRPCServiceLocation_def serviceLocationFromProto_def
        serviceLocationToProto_def go_int_64 valid_location_def)
qed

section \<open>What is written is what is read\<close>

lemma encodeEnvelope_Msg:
  assumes "proto_laws (proto env)" "proto_Marshal (proto env) m = Inr b"
  shows "encodeEnvelope env op (Msg m) = Inr (WriteInt16 (packet env) [] (signed_take_bit 15 op) @ b)"
  using assms by (auto simp: encodeEnvelope_def proto_laws_def Let_def)

lemma envelope_decodes:
  assumes "packet_laws (packet env) enc" "proto_laws (proto env)" "int16_range op"
    and "proto_Marshal (proto env) m = Inr b"
  shows "\<exists>w. encodeEnvelope env op (Msg m) = Inr w \<and> decodeEnvelope env w = Inr (op, b)"
proof -
  have "signed_take_bit 15 op = op"
    using assms(3) by (simp add: signed_take_bit_int_eq_self_iff int16_range_def)
  with assms have "encodeEnvelope env op (Msg m) = Inr (enc op @ b)"
    by (simp add: encodeEnvelope_Msg packet_laws_def)
  moreover have "decodeEnvelope env (enc op @ b) = Inr (op, b)"
    using assms by (simp add: decodeEnvelope_def packet_laws_def)
  ultimately show ?thesis by blast
qed

lemma readResultString_written:
  assumes "packet_laws (packet env) enc" "length s \<le> maxRPCStringSize"
  shows "readResultString env (enc (int (length s)) @ s @ r) name = Inr (s, r)"
proof -
  have "int16_range (int (length s))"
    using assms(2) by (simp add: int16_range_def maxRPCStringSize_def)
  with assms(1) show ?thesis
    by (auto simp: readResultString_def packet_laws_def Let_def)
qed

lemma result_header:
  assumes "packet_laws (packet env) enc"
    and "length code \<le> maxRPCStringSize" "length msg \<le> maxRPCStringSize"
  shows "WriteString (packet env) (WriteString (packet env) [] code) msg =
           enc (int (length code)) @ code @ enc (int (length msg)) @ msg"
  using assms by (auto simp: packet_laws_def int16_range_def maxRPCStringSize_def)

lemma decodeResult_written:
  assumes "packet_laws (packet env) enc"
    and "length code \<le> maxRPCStringSize" "length msg \<le> maxRPCStringSize"
  shows "decodeResult env (WriteString (packet env) (WriteString (packet env) [] code) msg @ data) =
     (if code = '''' then Inr data
      else case code_cause code of
        Some cause \<Rightarrow> Inl (wrapf cause ''remote rpc: %s'' [ArgS msg])
      | None \<Rightarrow> Inl (Errorf ''remote rpc: %s'' [ArgS msg]))"
  using assms readResultString_written [OF assms(1)]
  by (simp add: decodeResult_def result_header [OF assms])

lemma length_error_code: "length (error_code e) \<le> maxRPCStringSize" "error_code e \<noteq> ''''"
  by (simp_all add: error_code_def maxRPCStringSize_def)

definition wire_sentinels :: "sentinel list" where
  "wire_sentinels =
     [ErrServiceNotFound, ErrServiceExists, ErrNodeNotFound, ErrNodeExists, ErrInvalidMessage]"

lemma code_cause_error_code: "code_cause (error_code e) = find (errors_Is e) wire_sentinels"
  by (simp add: code_cause_def error_code_def wire_sentinels_def)

section \<open>A concrete environment\<close>

text \<open>
  Big-endian packets, the layout the wire tests expect, and a table of messages with their
  encodings as the protobuf library; they satisfy the laws, so the theorems that assume the
  laws are not empty.
\<close>

definition be16 :: "int \<Rightarrow> string" where
  "be16 i = (let n = nat (i mod 65536) in [char_of (n div 256), char_of (n mod 256)])"

lemma be16_code [code]:
  "be16 i = (let n = i mod 65536 in [char_of (n div 256), char_of (n mod 256)])"
proof -
  define n where "n = nat (i mod 65536)"
  have "i mod 65536 = int n" by (simp add: n_def)
  moreover have "int n div 256 = int (n div 256)" "int n mod 256 = int (n mod 256)" by (simp_all add: zdiv_int zmod_int)
  ultimately show ?thesis by (simp only: be16_def Let_def char_of_nat nat_int)
qed

definition unbe16 :: "string \<Rightarrow> int" where
  "unbe16 p =
     (case p of
        a # b # _ \<Rightarrow>
          (let n = of_char a * 256 + of_char b :: int in if n < 32768 then n else n - 65536)
      | _ \<Rightarrow> 0)"

definition be_packet :: packet_api where
  "be_packet = \<lparr>
     WriteInt16 = (\<lambda>p i. p @ be16 i),
     WriteString = (\<lambda>p s. p @ be16 (int (length s)) @ s),
     ReadInt16 = (\<lambda>p. (unbe16 p, drop 2 p)),
     PeakInt16 = unbe16,
     ReadString = (\<lambda>p. (take (nat (unbe16 p)) (drop 2 p), drop (2 + nat (unbe16 p)) p))\<rparr>"

lemma unbe16_be16: "int16_range i \<Longrightarrow> unbe16 (be16 i @ r) = i"
proof -
  assume i: "int16_range i"
  define n where "n = nat (i mod 65536)"
  have n: "n < 65536" "int n = i mod 65536" by (auto simp: n_def)
  have oc: "of_char (char_of k) = int (k mod 256)" for k :: nat
    by (metis of_char_of of_nat_of_char)
  have "n div 256 < 256" using n(1) by simp
  then have "(n div 256 mod 256) * 256 + n mod 256 mod 256 = n" by simp
  then have "int (n div 256 mod 256) * 256 + int (n mod 256 mod 256) = int n"
    by (metis of_nat_add of_nat_mult of_nat_numeral)
  then have eq: "of_char (char_of (n div 256)) * 256 + of_char (char_of (n mod 256)) = i mod 65536"
    by (simp only: oc n(2))
  have "i mod 65536 = (if 0 \<le> i then i else i + 65536)"
  proof (cases "0 \<le> i")
    case True
    with i show ?thesis by (simp add: int16_range_def)
  next
    case False
    have "i mod 65536 = (i + 65536) mod 65536" by simp
    also have "\<dots> = i + 65536"
      using False i by (intro mod_pos_pos_trivial) (auto simp: int16_range_def)
    finally show ?thesis using False by simp
  qed
  with i eq show ?thesis
    by (auto simp: be16_def unbe16_def Let_def n_def int16_range_def)
qed

lemma be_packet_laws: "packet_laws be_packet be16"
proof -
  have "length (be16 i) = 2" for i by (simp add: be16_def Let_def)
  then show ?thesis
    by (auto simp: packet_laws_def be_packet_def unbe16_be16)
qed

definition no_parse :: gerror where
  "no_parse = Foreign ''proto: cannot parse''"

definition table_find :: "(pb_message \<times> string) list \<Rightarrow> string \<Rightarrow> pb_message option" where
  "table_find tbl b = map_of (map (\<lambda>(m, b). (b, m)) tbl) b"

definition table_proto :: "(pb_message \<times> string) list \<Rightarrow> proto_api" where
  "table_proto tbl = \<lparr>
     proto_Size = (\<lambda>m. case map_of tbl m of None \<Rightarrow> 0 | Some b \<Rightarrow> int (length b)),
     proto_Marshal = (\<lambda>m. case map_of tbl m of None \<Rightarrow> Inl no_parse | Some b \<Rightarrow> Inr b),
     un_RegisterNodeRequest = (\<lambda>b. case table_find tbl b of
       Some (PbRegisterNodeRequest m) \<Rightarrow> Inr m | _ \<Rightarrow> Inl no_parse),
     un_RegisterNodeResponse = (\<lambda>b. case table_find tbl b of
       Some PbRegisterNodeResponse \<Rightarrow> Inr () | _ \<Rightarrow> Inl no_parse),
     un_HeartbeatRequest = (\<lambda>b. case table_find tbl b of
       Some PbHeartbeatRequest \<Rightarrow> Inr () | _ \<Rightarrow> Inl no_parse),
     un_HeartbeatResponse = (\<lambda>b. case table_find tbl b of
       Some PbHeartbeatResponse \<Rightarrow> Inr () | _ \<Rightarrow> Inl no_parse),
     un_RegisterRequest = (\<lambda>b. case table_find tbl b of
       Some (PbRegisterRequest m) \<Rightarrow> Inr m | _ \<Rightarrow> Inl no_parse),
     un_RegisterResponse = (\<lambda>b. case table_find tbl b of
       Some PbRegisterResponse \<Rightarrow> Inr () | _ \<Rightarrow> Inl no_parse),
     un_UnregisterRequest = (\<lambda>b. case table_find tbl b of
       Some (PbUnregisterRequest m) \<Rightarrow> Inr m | _ \<Rightarrow> Inl no_parse),
     un_UnregisterResponse = (\<lambda>b. case table_find tbl b of
       Some PbUnregisterResponse \<Rightarrow> Inr () | _ \<Rightarrow> Inl no_parse),
     un_LookupRequest = (\<lambda>b. case table_find tbl b of
       Some (PbLookupRequest m) \<Rightarrow> Inr m | _ \<Rightarrow> Inl no_parse),
     un_LookupResponse = (\<lambda>b. case table_find tbl b of
       Some (PbLookupResponse m) \<Rightarrow> Inr m | _ \<Rightarrow> Inl no_parse),
     un_RouteInvalidate = (\<lambda>b. case table_find tbl b of
       Some (PbRouteInvalidate m) \<Rightarrow> Inr m | _ \<Rightarrow> Inl no_parse),
     un_SubscribeRequest = (\<lambda>b. case table_find tbl b of
       Some (PbSubscribeRequest m) \<Rightarrow> Inr m | _ \<Rightarrow> Inl no_parse),
     un_SubscribeResponse = (\<lambda>b. case table_find tbl b of
       Some PbSubscribeResponse \<Rightarrow> Inr () | _ \<Rightarrow> Inl no_parse),
     un_ServiceDiscovery = (\<lambda>b. case table_find tbl b of
       Some (PbServiceDiscovery m) \<Rightarrow> Inr m | _ \<Rightarrow> Inl no_parse),
     un_DeliverRequest = (\<lambda>b. case table_find tbl b of
       Some (PbDeliverRequest m) \<Rightarrow> Inr m | _ \<Rightarrow> Inl no_parse),
     un_DeliverResponse = (\<lambda>b. case table_find tbl b of
       Some (PbDeliverResponse m) \<Rightarrow> Inr m | _ \<Rightarrow> Inl no_parse)\<rparr>"

lemma table_proto_laws:
  assumes "distinct (map snd tbl)"
  shows "proto_laws (table_proto tbl)"
proof -
  have found: "table_find tbl b = Some m" if "map_of tbl m = Some b" for m b
  proof -
    have "map fst (map (\<lambda>(m, b). (b, m)) tbl) = map snd tbl" by auto
    then have "distinct (map fst (map (\<lambda>(m, b). (b, m)) tbl))" using assms by (simp only:)
    moreover from that have "(b, m) \<in> set (map (\<lambda>(m, b). (b, m)) tbl)"
      by (force dest: map_of_SomeD)
    ultimately show ?thesis unfolding table_find_def by (rule map_of_is_SomeI)
  qed
  have "unmarshals (table_proto tbl) m b" if "map_of tbl m = Some b" for m b
    using found [OF that] by (cases m) (simp_all add: table_proto_def)
  then show ?thesis
    by (auto simp: proto_laws_def table_proto_def split: option.splits)
qed

definition table_env :: "(pb_message \<times> string) list \<Rightarrow> go_env" where
  "table_env tbl = \<lparr>intBits = 64, quote = (\<lambda>s. s), packet = be_packet, proto = table_proto tbl\<rparr>"

lemma table_env_simps [simp]:
  "intBits (table_env tbl) = 64" "quote (table_env tbl) s = s"
  "packet (table_env tbl) = be_packet" "proto (table_env tbl) = table_proto tbl"
  by (simp_all add: table_env_def)

section \<open>Histories of the send pool\<close>

datatype pool_event = PoolGet "nat option" | PoolPut "DeliverRequest option"

definition send_pool_step :: "DeliverRequest list \<Rightarrow> pool_event \<Rightarrow> DeliverRequest list \<Rightarrow> bool" where
  "send_pool_step pool e pool' \<longleftrightarrow>
     pool' = (case e of PoolGet pick \<Rightarrow> snd (acquireDeliverSendRequest pick pool)
              | PoolPut r \<Rightarrow> releaseDeliverSendRequest r pool)"

interpretation send_pool_history: inductive_invariant "\<lambda>pool. pool = []" send_pool_step
  "list_all (\<lambda>r. r = new_DeliverSendRequest)"
proof unfold_locales
  fix pool pool' e
  assume "list_all (\<lambda>r. r = new_DeliverSendRequest) pool" "send_pool_step pool e pool'"
  then show "list_all (\<lambda>r. r = new_DeliverSendRequest) pool'"
    using send_pool.pool_Get_clean(2) [of pool] send_pool.pool_Put_clean [of pool]
    by (cases e) (auto simp: send_pool_step_def acquireDeliverSendRequest_def
        releaseDeliverSendRequest_def split: option.splits)
qed simp

lemma acquire_clean:
  "reach (\<lambda>pool. pool = []) send_pool_step pool \<Longrightarrow>
     fst (acquireDeliverSendRequest pick pool) = new_DeliverSendRequest"
  unfolding acquireDeliverSendRequest_def
  by (rule send_pool.pool_Get_clean(1)) (rule send_pool_history.reach_inv)

lemma initialize_clean:
  "initializeDeliverRequest new_DeliverSendRequest source target mid payload mode =
     Some \<lparr>dr_Source = Some (serviceKeyToProto source), dr_Target = Some (serviceKeyToProto target),
       dr_MessageId = (if kind mid = serviceMessageIDString then 0 else number mid),
       dr_StringMessageId = (if kind mid = serviceMessageIDString then idtext mid else ''''),
       dr_Payload = payload, dr_Mode = mode\<rparr>"
  by (simp add: initializeDeliverRequest_def new_DeliverSendRequest_def empty_DeliverRequest_def)

lemma initialized_decodes:
  assumes "intBits env \<le> 64" "go_int (intBits env) (key_ID source)" "go_int (intBits env) (key_ID target)"
    and "source = ServiceKey '''' 0 \<or> key_Name source \<noteq> '''' \<and> 0 < key_ID source"
    and "key_Name target \<noteq> ''''" "0 < key_ID target"
    and "mid = numericServiceMessageID n \<or> mid = stringServiceMessageID t"
    and "messageID_validate mid = None"
    and "mode \<in> {deliverRequestModeDirect, deliverRequestModeSync, deliverRequestModeAsync}"
  shows "\<exists>r. initializeDeliverRequest new_DeliverSendRequest source target mid payload mode = Some r \<and>
             decodeDeliverRequest env r = Inr (source, target, mid, mode) \<and> dr_Payload r = payload"
proof -
  have "mid = (if idtext mid \<noteq> '''' then stringServiceMessageID (idtext mid)
      else numericServiceMessageID (number mid))"
    and "kind mid = serviceMessageIDString \<longleftrightarrow> idtext mid \<noteq> ''''"
    using assms(7,8) by (auto simp: messageID_defs validate_None_iff usable_text_def)
  with assms(1-6,8,9) show ?thesis
    by (auto simp: initialize_clean decodeDeliverRequest_def
        serviceKey_roundtrip requiredKey_roundtrip Let_def split: if_splits)
qed

section \<open>Properties\<close>

text \<open>
  A request envelope decodes to the operation and the payload it was built from, and the
  payload unmarshals to the message that was sent.
\<close>

theorem envelope_roundtrip:
  assumes "packet_laws (packet env) enc" "proto_laws (proto env)" "int16_range op"
    and "proto_Marshal (proto env) m = Inr b"
  shows "\<exists>w. encodeEnvelope env op (Msg m) = Inr w \<and> decodeEnvelope env w = Inr (op, b) \<and>
             unmarshals (proto env) m b"
  using envelope_decodes [OF assms] assms(2,4) by (auto simp: proto_laws_def)

definition sample_key :: pb_ServiceKey where
  "sample_key = \<lparr>pk_Name = ''room'', pk_Id = 1\<rparr>"

definition sample_unregister :: pb_message where
  "sample_unregister = PbUnregisterRequest \<lparr>ur_Target = Some sample_key\<rparr>"

definition sample_table :: "(pb_message \<times> string) list" where
  "sample_table = [(sample_unregister, ''u1''), (PbRegisterResponse, ''''), (PbHeartbeatRequest, ''h'')]"

lemma sample_laws: "proto_laws (proto (table_env sample_table))"
  by (simp add: sample_table_def) (rule table_proto_laws, simp)

theorem envelope_roundtrip_witness:
  "\<exists>w. encodeEnvelope (table_env sample_table) opUnregister (Msg sample_unregister) = Inr w \<and>
       decodeEnvelope (table_env sample_table) w = Inr (opUnregister, ''u1'') \<and>
       unmarshals (proto (table_env sample_table)) sample_unregister ''u1''"
proof (rule envelope_roundtrip [where enc = be16])
  show "packet_laws (packet (table_env sample_table)) be16" by (simp add: be_packet_laws)
  show "proto_laws (proto (table_env sample_table))" by (rule sample_laws)
  show "int16_range opUnregister" by (simp add: int16_range_def opUnregister_def)
  show "proto_Marshal (proto (table_env sample_table)) sample_unregister = Inr ''u1''"
    by (simp add: table_proto_def sample_table_def)
qed

text \<open>
  C30. An error sent back over RPC keeps its class: the caller's error wraps exactly the first of
  the five wire sentinels the server's error wraps, and no sentinel when it wraps none.
\<close>

theorem remote_error_class:
  assumes "packet_laws (packet env) enc" and "encodeRPCError env (Some e) = Inr w"
  shows "\<exists>e'. decodeResult env w = Inl e' \<and>
              (\<forall>s. errors_Is e' s \<longleftrightarrow> find (errors_Is e) wire_sentinels = Some s)"
proof -
  let ?txt = "error_text (quote env) e"
  from assms(2) have len: "length ?txt \<le> maxRPCStringSize"
    and w: "w = WriteString (packet env) (WriteString (packet env) [] (error_code e)) ?txt @ []"
    by (auto simp: encodeRPCError_def encodeResult_def Let_def split: if_splits)
  have "decodeResult env w =
      (case find (errors_Is e) wire_sentinels of
         Some cause \<Rightarrow> Inl (wrapf cause ''remote rpc: %s'' [ArgS ?txt])
       | None \<Rightarrow> Inl (Errorf ''remote rpc: %s'' [ArgS ?txt]))"
    unfolding w
    by (subst decodeResult_written [OF assms(1) length_error_code(1) len])
      (simp add: length_error_code(2) code_cause_error_code)
  then show ?thesis by (auto split: option.splits)
qed

theorem remote_error_class_witness:
  "\<exists>w e'. encodeRPCError (table_env []) (Some (wrapf ErrServiceNotFound ''room:1'' [])) = Inr w \<and>
     decodeResult (table_env []) w = Inl e' \<and> errors_Is e' ErrServiceNotFound \<and>
     \<not> errors_Is e' ErrNodeNotFound"
proof -
  let ?e = "wrapf ErrServiceNotFound ''room:1'' []"
  obtain w where w: "encodeRPCError (table_env []) (Some ?e) = Inr w"
    by (simp add: encodeRPCError_def encodeResult_def error_code_def maxRPCStringSize_def)
  have "packet_laws (packet (table_env [])) be16" by (simp add: be_packet_laws)
  from remote_error_class [OF this w] w show ?thesis
    by (auto simp: wire_sentinels_def)
qed

text \<open>
  C31. A deliver request taken from the send pool after any history of the pool, filled in and
  decoded by the receiver, yields exactly the source, target, message id, mode and payload it
  was filled with: nothing of an earlier message is left in a pooled object.
\<close>

theorem deliver_roundtrip:
  assumes "reach (\<lambda>pool. pool = []) send_pool_step pool"
    and "intBits env \<le> 64"
    and "go_int (intBits env) (key_ID source)" "go_int (intBits env) (key_ID target)"
    and "source = ServiceKey '''' 0 \<or> key_Name source \<noteq> '''' \<and> 0 < key_ID source"
    and "key_Name target \<noteq> ''''" "0 < key_ID target"
    and "mid = numericServiceMessageID n \<or> mid = stringServiceMessageID t"
    and "messageID_validate mid = None"
    and "mode \<in> {deliverRequestModeDirect, deliverRequestModeSync, deliverRequestModeAsync}"
  shows "\<exists>r. initializeDeliverRequest (fst (acquireDeliverSendRequest pick pool))
                 source target mid payload mode = Some r \<and>
             decodeDeliverRequest env r = Inr (source, target, mid, mode) \<and> dr_Payload r = payload"
  unfolding acquire_clean [OF assms(1)] by (rule initialized_decodes [OF assms(2-10)])

text \<open>The pool after a request with a textual id has been sent and released.\<close>

definition used_pool :: "DeliverRequest list" where
  "used_pool = releaseDeliverSendRequest
     (initializeDeliverRequest new_DeliverSendRequest (ServiceKey ''gate'' 1) (ServiceKey ''room'' 2)
        (stringServiceMessageID ''enter'') ''hello'' deliverRequestModeSync) []"

theorem deliver_roundtrip_witness:
  "\<exists>r. initializeDeliverRequest (fst (acquireDeliverSendRequest (Some 0) used_pool))
         (ServiceKey '''' 0) (ServiceKey ''room'' 1) (numericServiceMessageID 7) ''x''
         deliverRequestModeDirect = Some r \<and>
       decodeDeliverRequest (table_env []) r =
         Inr (ServiceKey '''' 0, ServiceKey ''room'' 1, numericServiceMessageID 7,
              deliverRequestModeDirect) \<and> dr_Payload r = ''x''"
proof (rule deliver_roundtrip [where n = 7 and t = "''''"])
  have "reach (\<lambda>pool. pool = []) send_pool_step []" by (rule reach_init) simp
  then show "reach (\<lambda>pool. pool = []) send_pool_step used_pool"
    by (rule reach_step [where e = "PoolPut (initializeDeliverRequest new_DeliverSendRequest
        (ServiceKey ''gate'' 1) (ServiceKey ''room'' 2) (stringServiceMessageID ''enter'') ''hello''
        deliverRequestModeSync)"])
      (simp add: send_pool_step_def used_pool_def)
qed (simp_all add: go_int_def messageID_validate_def numericServiceMessageID_def)

text \<open>
  An error reaches the caller exactly when its text fits a packet string: with more than
  32767 bytes of text (a panic report with its stack, say) no result packet is built.
\<close>

theorem error_response_size:
  "is_ok (encodeRPCError env (Some e)) \<longleftrightarrow> length (error_text (quote env) e) \<le> 32767"
  using length_error_code(1) [of e]
  by (auto simp: encodeRPCError_def encodeResult_def maxRPCStringSize_def Let_def)

text \<open>
  An integer taken from a message is the integer that was sent or is refused, on 32-bit and
  on 64-bit targets alike: it is never truncated. Exactly the values of the target's \<open>int\<close> are
  accepted.
\<close>

theorem rpcInt_exact:
  assumes "intBits env \<le> 64"
  shows "(go_int (intBits env) v \<longrightarrow> rpcInt env v name = Inr v) \<and>
         (\<not> go_int (intBits env) v \<longrightarrow> \<not> is_ok (rpcInt env v name))"
  using rpcInt_Inr_iff [OF assms, of v name] by (cases "rpcInt env v name") auto

theorem rpcInt_exact_witness:
  "rpcInt (table_env []\<lparr>intBits := 32\<rparr>) 7 ''node id'' = Inr 7 \<and>
   \<not> is_ok (rpcInt (table_env []\<lparr>intBits := 32\<rparr>) 4294967303 ''node id'')"
  using rpcInt_exact [of "table_env []\<lparr>intBits := 32\<rparr>" 7 "''node id''"]
    rpcInt_exact [of "table_env []\<lparr>intBits := 32\<rparr>" 4294967303 "''node id''"]
  by (simp add: go_int_def)

end
