(* ===== verification/Node_Server.thy ===== *)
theory Node_Server
  imports Config Subscription_Index Rpc_Wire
begin

text \<open>
  The server side of \<^verbatim>\<open>node.go\<close> and the discovery half of
  \<^verbatim>\<open>service_subscription.go\<close>: the table of remote nodes, the handlers of the RPC operations,
  the tasks of the control loop and what the node sends. The goroutines (one per session, the
  control loop, the timers) interleave between the critical sections of the code; every
  definition below is the part of a function between two such points, and \<open>server_step\<close> lets
  them interleave. The transport (\<^verbatim>\<open>xtnet/net\<close>) delivers sessions and packets and is
  represented by the effects the node emits and the events it receives; a loop of
  \<^verbatim>\<open>xtnet/frame\<close> runs the tasks posted to it one at a time, in the order of the posts.
\<close>

section \<open>State\<close>

text \<open>
  A session is an identity of the transport. The \<^verbatim>\<open>RemoteNode\<close> that \<^verbatim>\<open>OnAccept\<close> creates for
  a session and stores as its user data is addressed by that session, so pointer equality of
  remote nodes is equality of sessions.
\<close>

type_synonym session = nat

record RemoteNode =
  rm_id :: int
  rm_addr :: string
  rm_session :: session
  rm_timer :: bool
  rm_active :: bool

text \<open>
  The runtime of a local service: whether its service implements
  \<^verbatim>\<open>ServiceSubscriptionHandler\<close>, and the fields of \<^verbatim>\<open>serviceRuntime\<close>.
\<close>

record serviceRuntime =
  rt_handler :: bool
  rt_started :: bool
  rt_registered :: bool
  rt_subscriptions :: "string goset"

text \<open>A responder of a local request: back over RPC, or to a local call.\<close>

datatype localResponder = RpcResponder session int | CallResponder nat

datatype service_task =
    DirectTask ServiceKey ServiceKey serviceMessageID string
  | SyncTask ServiceKey ServiceKey serviceMessageID string localResponder
  | AsyncTask ServiceKey ServiceKey serviceMessageID string localResponder
  | DiscoveryTask ServiceKey string int "ServiceKey list"

text \<open>The closures that are posted to the control loop, with the variables they capture.\<close>

datatype control_task =
    RegisterTask session int session int ServiceLocation
  | UnregisterTask session int session int ServiceKey
  | SubscribeTask session int session int ServiceKey string
  | NodeGoneTask int
  | ArmTask session
  | LocalRegisterTask ServiceKey
  | LocalUnregisterTask ServiceKey
  | LocalSubscribeTask ServiceKey string

text \<open>The two messages the main node pushes.\<close>

datatype push =
    RoutePush ServiceKey
  | DiscoveryPush ServiceKey string int "ServiceKey list"

datatype effect =
    SendDirect session push string
  | Respond session int string
  | Report gerror
  | CloseSession session
  | PostService ServiceKey service_task
  | CallDone control_task "gerror option"

text \<open>
  The fields of \<^verbatim>\<open>Node\<close> that this side uses. \<open>n_posting\<close> holds the closures that some
  goroutine is about to post to the control loop, \<open>n_control\<close> is the queue of the loop,
  \<open>n_running\<close> the closure the loop is inside of after its first check, and \<open>n_removing\<close> the
  calls of \<^verbatim>\<open>removeRemoteNode\<close> that have deactivated their session and not yet taken the lock.
\<close>

record server_node =
  n_id :: int
  n_mainNodeID :: int
  n_config :: Config
  n_listenAddr :: string
  n_localServices :: "(ServiceKey, serviceRuntime) gomap"
  n_registry :: MemoryRegistry
  n_subscriptions :: serviceSubscriptionIndex
  n_sessions :: "(session, RemoteNode) gomap"
  n_remoteNodes :: "(int, session) gomap"
  n_receivePool :: "DeliverRequest list"
  n_posting :: "control_task list"
  n_control :: "control_task list"
  n_running :: "control_task option"
  n_removing :: "(session \<times> bool) list"
  n_out :: "effect list"

definition IsMainNode :: "server_node \<Rightarrow> bool" where
  "IsMainNode n \<longleftrightarrow> n_id n = n_mainNodeID n"

definition emit :: "effect \<Rightarrow> server_node \<Rightarrow> server_node" where
  "emit x n = n\<lparr>n_out := n_out n @ [x]\<rparr>"

definition report :: "gerror option \<Rightarrow> server_node \<Rightarrow> server_node" where
  "report err n = (case err of None \<Rightarrow> n | Some e \<Rightarrow> emit (Report e) n)"

text \<open>\<^verbatim>\<open>n.controlLoop.Post\<close>: the closure is ready to be posted; the queue takes it in a later step.\<close>

definition post_control :: "control_task \<Rightarrow> server_node \<Rightarrow> server_node" where
  "post_control task n = n\<lparr>n_posting := n_posting n @ [task]\<rparr>"

section \<open>Responses\<close>

definition respondRPCError :: "go_env \<Rightarrow> session \<Rightarrow> int \<Rightarrow> gerror option \<Rightarrow> server_node \<Rightarrow> server_node" where
  "respondRPCError env session contextID err n =
     (case encodeRPCError env err of
        Inl encodeErr \<Rightarrow> report (Some encodeErr) n
      | Inr wpk \<Rightarrow> emit (Respond session contextID wpk) n)"

definition respondRPC ::
    "go_env \<Rightarrow> session \<Rightarrow> int \<Rightarrow> pb_message \<Rightarrow> server_node \<Rightarrow> gerror option \<times> server_node" where
  "respondRPC env session contextID response n =
     (case encodeResult env '''' '''' (Msg response) of
        Inl err \<Rightarrow> (Some err, report (Some err) n)
      | Inr wpk \<Rightarrow> (None, emit (Respond session contextID wpk) n))"

section \<open>Remote nodes\<close>

definition remoteNodeFromSession :: "session \<Rightarrow> server_node \<Rightarrow> RemoteNode option" where
  "remoteNodeFromSession session n = go_get (n_sessions n) session"

definition set_remote :: "session \<Rightarrow> RemoteNode \<Rightarrow> server_node \<Rightarrow> server_node" where
  "set_remote session r n = n\<lparr>n_sessions := go_put session r (n_sessions n)\<rparr>"

text \<open>
  The closure of \<^verbatim>\<open>armRemoteNodeTimeout\<close>, which runs on the control loop: up to the start of
  the timer, and its second check. \<open>rm_timer\<close> is whether the timer is started.
\<close>

definition arm_start :: "session \<Rightarrow> server_node \<Rightarrow> server_node option" where
  "arm_start session n =
     (case go_get (n_sessions n) session of
        None \<Rightarrow> None
      | Some remote \<Rightarrow>
          if \<not> rm_active remote then None
          else Some (set_remote session (remote\<lparr>rm_timer := True\<rparr>) n))"

definition arm_recheck :: "session \<Rightarrow> server_node \<Rightarrow> server_node" where
  "arm_recheck session n =
     (case go_get (n_sessions n) session of
        None \<Rightarrow> n
      | Some remote \<Rightarrow>
          if \<not> rm_active remote then set_remote session (remote\<lparr>rm_timer := False\<rparr>) n else n)"

definition armRemoteNodeTimeout :: "session \<Rightarrow> server_node \<Rightarrow> server_node" where
  "armRemoteNodeTimeout session n = post_control (ArmTask session) n"

definition refreshRemoteHeartbeat :: "session \<Rightarrow> server_node \<Rightarrow> server_node" where
  "refreshRemoteHeartbeat remote n = armRemoteNodeTimeout remote n"

text \<open>\<^verbatim>\<open>events.OnAccept\<close>.\<close>

definition onAccept :: "session \<Rightarrow> server_node \<Rightarrow> server_node" where
  "onAccept session n = armRemoteNodeTimeout session
     (set_remote session \<lparr>rm_id = 0, rm_addr = '''', rm_session = session, rm_timer = False,
        rm_active = True\<rparr> n)"

definition linked :: "session \<Rightarrow> RemoteNode \<Rightarrow> server_node \<Rightarrow> bool" where
  "linked session remote n \<longleftrightarrow> rm_active remote \<and> rm_id remote \<noteq> 0 \<and>
     go_get (n_remoteNodes n) (rm_id remote) = Some session"

definition registeredRemoteNode :: "session \<Rightarrow> server_node \<Rightarrow> RemoteNode result" where
  "registeredRemoteNode session n =
     (case remoteNodeFromSession session n of
        None \<Rightarrow> Inl (wrapf ErrNodeNotFound ''rpc session is not registered'' [])
      | Some remote \<Rightarrow>
          if \<not> linked session remote n
          then Inl (wrapf ErrNodeNotFound ''rpc session is not registered'' [])
          else Inr remote)"

definition remoteNodeIsCurrent :: "session \<Rightarrow> session \<Rightarrow> server_node \<Rightarrow> bool" where
  "remoteNodeIsCurrent session remote n =
     (case go_get (n_sessions n) remote of
        None \<Rightarrow> False
      | Some r \<Rightarrow> if rm_session r \<noteq> session then False else linked remote r n)"

text \<open>
  \<^verbatim>\<open>removeRemoteNode\<close> in its two parts: the atomic swap of \<^verbatim>\<open>active\<close>, and the stop of the
  timer with the section under the lock and what follows it.
\<close>

definition removeRemoteNode_swap :: "session \<Rightarrow> bool \<Rightarrow> server_node \<Rightarrow> server_node" where
  "removeRemoteNode_swap session closeSession n =
     (case remoteNodeFromSession session n of
        None \<Rightarrow> n
      | Some remote \<Rightarrow>
          if \<not> rm_active remote then n
          else (set_remote session (remote\<lparr>rm_active := False\<rparr>) n)
            \<lparr>n_removing := n_removing n @ [(session, closeSession)]\<rparr>)"

definition removeRemoteNode_unlink :: "session \<Rightarrow> bool \<Rightarrow> server_node \<Rightarrow> server_node" where
  "removeRemoteNode_unlink session closeSession n =
     (case go_get (n_sessions n) session of
        None \<Rightarrow> n
      | Some remote \<Rightarrow>
          let n = set_remote session (remote\<lparr>rm_timer := False\<rparr>) n;
              found = rm_id remote \<noteq> 0 \<and> go_get (n_remoteNodes n) (rm_id remote) = Some session;
              nodeID = (if found then rm_id remote else 0);
              n1 = (if found then n\<lparr>n_remoteNodes := go_del nodeID (n_remoteNodes n)\<rparr> else n);
              n2 = (if nodeID \<noteq> 0 \<and> IsMainNode n1 then post_control (NodeGoneTask nodeID) n1 else n1)
          in if closeSession then emit (CloseSession session) n2 else n2)"

section \<open>Pushing to other nodes\<close>

definition push_op :: "push \<Rightarrow> int" where
  "push_op p = (case p of RoutePush _ \<Rightarrow> opRouteInvalidate | DiscoveryPush _ _ _ _ \<Rightarrow> opServiceDiscovery)"

definition push_message :: "push \<Rightarrow> pb_message" where
  "push_message p =
     (case p of
        RoutePush key \<Rightarrow> PbRouteInvalidate \<lparr>ri_Target = Some (serviceKeyToProto key)\<rparr>
      | DiscoveryPush subscriber serviceName eventType svcs \<Rightarrow>
          PbServiceDiscovery \<lparr>sd_Subscriber = Some (serviceKeyToProto subscriber),
            sd_ServiceName = serviceName, sd_EventType = eventType,
            sd_Services = map (\<lambda>service. Some (serviceKeyToProto service)) svcs\<rparr>)"

definition encode_push :: "go_env \<Rightarrow> push \<Rightarrow> string result" where
  "encode_push env p = encodeEnvelope env (push_op p) (Msg (push_message p))"

text \<open>The nested loops of \<^verbatim>\<open>broadcastRouteInvalidation\<close>; an encoding error ends both.\<close>

fun broadcast_loop :: "go_env \<Rightarrow> (ServiceKey \<times> session) list \<Rightarrow> server_node \<Rightarrow> server_node" where
  "broadcast_loop env [] n = n"
| "broadcast_loop env ((key, session) # rest) n =
     (case encode_push env (RoutePush key) of
        Inl err \<Rightarrow> report (Some err) n
      | Inr wpk \<Rightarrow> broadcast_loop env rest (emit (SendDirect session (RoutePush key) wpk) n))"

definition remote_session :: "server_node \<Rightarrow> session \<Rightarrow> session" where
  "remote_session n p = (case go_get (n_sessions n) p of None \<Rightarrow> p | Some r \<Rightarrow> rm_session r)"

definition broadcastRouteInvalidation :: "go_env \<Rightarrow> ServiceKey list \<Rightarrow> server_node \<Rightarrow> server_node" where
  "broadcastRouteInvalidation env keys n =
     (if \<not> IsMainNode n \<or> keys = [] then n
      else
        let sessions = map (\<lambda>(_, remote). remote_session n remote) (n_remoteNodes n)
        in broadcast_loop env (concat (map (\<lambda>key. map (Pair key) sessions) keys)) n)"

text \<open>\<^verbatim>\<open>String\<close> of the generated enumerations.\<close>

definition event_String :: "int \<Rightarrow> string" where
  "event_String e =
     (if e = 0 then ''SERVICE_DISCOVERY_EVENT_TYPE_UNSPECIFIED''
      else if e = 1 then ''SERVICE_DISCOVERY_EVENT_TYPE_SNAPSHOT''
      else if e = 2 then ''SERVICE_DISCOVERY_EVENT_TYPE_ONLINE''
      else if e = 3 then ''SERVICE_DISCOVERY_EVENT_TYPE_OFFLINE'' else fmt_d e)"

definition mode_String :: "int \<Rightarrow> string" where
  "mode_String e =
     (if e = 0 then ''DELIVER_REQUEST_MODE_UNSPECIFIED''
      else if e = 1 then ''DELIVER_REQUEST_MODE_DIRECT''
      else if e = 2 then ''DELIVER_REQUEST_MODE_SYNC''
      else if e = 3 then ''DELIVER_REQUEST_MODE_ASYNC'' else fmt_d e)"

definition dispatchLocalServiceDiscovery ::
    "ServiceKey \<Rightarrow> string \<Rightarrow> int \<Rightarrow> ServiceKey list \<Rightarrow> server_node \<Rightarrow> gerror option \<times> server_node" where
  "dispatchLocalServiceDiscovery subscriber serviceName eventType svcs n =
     (case go_get (n_localServices n) subscriber of
        None \<Rightarrow> (Some (wrapf ErrServiceNotFound ''subscriber %s'' [ArgS (key_String subscriber)]), n)
      | Some runtime \<Rightarrow>
          if \<not> rt_handler runtime
          then (Some (Errorf ''service %s does not implement ServiceSubscriptionHandler''
            [ArgS (key_String subscriber)]), n)
          else if (eventType = eventOnline \<or> eventType = eventOffline) \<and> length svcs \<noteq> 1
          then (Some (Errorf ''discovery event %s contains %d services, want 1''
            [ArgS (event_String eventType), ArgD (int (length svcs))]), n)
          else if eventType \<noteq> eventSnapshot \<and> eventType \<noteq> eventOnline \<and> eventType \<noteq> eventOffline
          then (Some (Errorf ''unsupported discovery event type %s'' [ArgS (event_String eventType)]), n)
          else (None, emit (PostService subscriber
            (DiscoveryTask subscriber serviceName eventType svcs)) n))"

definition sendServiceDiscovery ::
    "go_env \<Rightarrow> ServiceKey \<Rightarrow> string \<Rightarrow> int \<Rightarrow> ServiceKey list \<Rightarrow> server_node \<Rightarrow> server_node" where
  "sendServiceDiscovery env subscriber serviceName eventType svcs n =
     (case registry_Lookup (n_registry n) subscriber of
        None \<Rightarrow> n
      | Some location \<Rightarrow>
          if NodeID location = n_id n
          then (case dispatchLocalServiceDiscovery subscriber serviceName eventType svcs n of
                  (err, n) \<Rightarrow> report err n)
          else
            (case go_get (n_remoteNodes n) (NodeID location) of
               None \<Rightarrow> n
             | Some remote \<Rightarrow>
                 (case encode_push env (DiscoveryPush subscriber serviceName eventType svcs) of
                    Inl err \<Rightarrow> report (Some err) n
                  | Inr wpk \<Rightarrow> emit (SendDirect (remote_session n remote)
                      (DiscoveryPush subscriber serviceName eventType svcs) wpk) n)))"

section \<open>Registration and subscription on the main node\<close>

definition serviceKeysForNode :: "int \<Rightarrow> server_node \<Rightarrow> ServiceKey list" where
  "serviceKeysForNode nodeID n = sortServiceKeys
     (map location_Key (filter (\<lambda>l. NodeID l = nodeID) (registry_List (n_registry n))))"

definition serviceSnapshot :: "string \<Rightarrow> server_node \<Rightarrow> ServiceKey list" where
  "serviceSnapshot serviceName n = sortServiceKeys
     (map location_Key (filter (\<lambda>l. ServiceName l = serviceName) (registry_List (n_registry n))))"

definition addServiceSubscription ::
    "ServiceKey \<Rightarrow> int \<Rightarrow> string \<Rightarrow> server_node \<Rightarrow> server_node result" where
  "addServiceSubscription subscriber sourceNode serviceName n =
     (case registry_Lookup (n_registry n) subscriber of
        None \<Rightarrow> Inl (wrapf ErrServiceNotFound ''subscriber %s'' [ArgS (key_String subscriber)])
      | Some location \<Rightarrow>
          if NodeID location \<noteq> sourceNode
          then Inl (Errorf ''subscriber %s belongs to node %d, not node %d''
            [ArgS (key_String subscriber), ArgD (NodeID location), ArgD sourceNode])
          else Inr (n\<lparr>n_subscriptions :=
            snd (index_subscribe subscriber serviceName (n_subscriptions n))\<rparr>))"

definition announce :: "go_env \<Rightarrow> int \<Rightarrow> ServiceKey \<Rightarrow> server_node \<Rightarrow> server_node" where
  "announce env eventType service n =
     fold (\<lambda>subscriber. sendServiceDiscovery env subscriber (key_Name service) eventType [service])
       (index_subscribers (n_subscriptions n) (key_Name service)) n"

definition serviceRegistered :: "go_env \<Rightarrow> ServiceKey \<Rightarrow> server_node \<Rightarrow> server_node" where
  "serviceRegistered env service n =
     announce env eventOnline service (broadcastRouteInvalidation env [service] n)"

definition servicesUnregistered :: "go_env \<Rightarrow> ServiceKey list \<Rightarrow> server_node \<Rightarrow> server_node" where
  "servicesUnregistered env svcs n =
     (let n1 = n\<lparr>n_subscriptions := fold index_removeSubscriber svcs (n_subscriptions n)\<rparr>;
          n2 = broadcastRouteInvalidation env svcs n1
      in fold (announce env eventOffline) svcs n2)"

definition serviceUnregistered :: "go_env \<Rightarrow> ServiceKey \<Rightarrow> server_node \<Rightarrow> server_node" where
  "serviceUnregistered env service n = servicesUnregistered env [service] n"

text \<open>The closures of \<^verbatim>\<open>registerService\<close>, \<^verbatim>\<open>unregisterService\<close> and
  \<^verbatim>\<open>requestServiceSubscription\<close> on the main node.\<close>

definition local_location :: "server_node \<Rightarrow> ServiceKey \<Rightarrow> ServiceLocation" where
  "local_location n key = \<lparr>ServiceName = key_Name key, ServiceID = key_ID key, NodeID = n_id n,
     NodeAddr = n_listenAddr n\<rparr>"

definition register_on_main ::
    "go_env \<Rightarrow> ServiceLocation \<Rightarrow> server_node \<Rightarrow> gerror option \<times> server_node" where
  "register_on_main env location n =
     (case registry_Register location (n_registry n) of
        Inl err \<Rightarrow> (Some err, n)
      | Inr r \<Rightarrow> (None, serviceRegistered env (location_Key location) (n\<lparr>n_registry := r\<rparr>)))"

definition unregister_on_main ::
    "go_env \<Rightarrow> ServiceKey \<Rightarrow> int \<Rightarrow> server_node \<Rightarrow> gerror option \<times> server_node" where
  "unregister_on_main env key nodeID n =
     (case registry_Unregister key nodeID (n_registry n) of
        Inl err \<Rightarrow> (Some err, n)
      | Inr r \<Rightarrow> (None, serviceUnregistered env key (n\<lparr>n_registry := r\<rparr>)))"

definition subscribe_on_main ::
    "go_env \<Rightarrow> ServiceKey \<Rightarrow> int \<Rightarrow> string \<Rightarrow> server_node \<Rightarrow> gerror option \<times> server_node" where
  "subscribe_on_main env subscriber sourceNode serviceName n =
     (case addServiceSubscription subscriber sourceNode serviceName n of
        Inl err \<Rightarrow> (Some err, n)
      | Inr n \<Rightarrow> (None, sendServiceDiscovery env subscriber serviceName eventSnapshot
          (serviceSnapshot serviceName n) n))"

section \<open>Dispatch to local services\<close>

text \<open>The posts to a service's loop; what the closures do there is a matter of that loop.\<close>

definition known_kind :: "serviceMessageID \<Rightarrow> bool" where
  "known_kind messageID \<longleftrightarrow>
     kind messageID = serviceMessageIDNumeric \<or> kind messageID = serviceMessageIDString"

definition dispatch_local ::
    "ServiceKey \<Rightarrow> serviceMessageID \<Rightarrow> service_task \<Rightarrow> server_node \<Rightarrow> gerror option \<times> server_node" where
  "dispatch_local target messageID task n =
     (case go_get (n_localServices n) target of
        None \<Rightarrow> (Some (wrapf ErrServiceNotFound ''%s'' [ArgS (key_String target)]), n)
      | Some runtime \<Rightarrow>
          if \<not> known_kind messageID
          then (Some (wrapf ErrInvalidMessage ''message id kind is invalid'' []), n)
          else (None, emit (PostService target task) n))"

definition dispatchLocalDirect ::
    "ServiceKey \<Rightarrow> ServiceKey \<Rightarrow> serviceMessageID \<Rightarrow> string \<Rightarrow> server_node \<Rightarrow> gerror option \<times> server_node" where
  "dispatchLocalDirect source target messageID payload n =
     dispatch_local target messageID (DirectTask source target messageID payload) n"

definition dispatchLocalRequestAsync ::
    "ServiceKey \<Rightarrow> ServiceKey \<Rightarrow> serviceMessageID \<Rightarrow> string \<Rightarrow> localResponder \<Rightarrow> server_node \<Rightarrow>
     gerror option \<times> server_node" where
  "dispatchLocalRequestAsync source target messageID payload responder n =
     dispatch_local target messageID (AsyncTask source target messageID payload responder) n"

definition dispatchLocalRequestSync ::
    "ServiceKey \<Rightarrow> ServiceKey \<Rightarrow> serviceMessageID \<Rightarrow> string \<Rightarrow> localResponder \<Rightarrow> server_node \<Rightarrow>
     gerror option \<times> server_node" where
  "dispatchLocalRequestSync source target messageID payload responder n =
     dispatch_local target messageID (SyncTask source target messageID payload responder) n"

section \<open>Handlers\<close>

text \<open>
  A pooled request object is acquired for every deliver message and released on every path;
  \<open>pick\<close> is the pool's choice. The request is decoded into the acquired object, which
  unmarshalling resets first.
\<close>

definition with_receive_request ::
    "nat option \<Rightarrow> (server_node \<Rightarrow> server_node) \<Rightarrow> server_node \<Rightarrow> server_node" where
  "with_receive_request pick body n =
     (let (request, pool) = acquireDeliverReceiveRequest pick (n_receivePool n);
          n1 = body (n\<lparr>n_receivePool := pool\<rparr>)
      in n1\<lparr>n_receivePool := releaseDeliverReceiveRequest (Some request) (n_receivePool n1)\<rparr>)"

definition handleRPCDirect ::
    "go_env \<Rightarrow> nat option \<Rightarrow> session \<Rightarrow> string \<Rightarrow> server_node \<Rightarrow> server_node" where
  "handleRPCDirect env pick session rpk n =
     (case decodeEnvelope env rpk of
        Inl err \<Rightarrow> report (Some err) n
      | Inr (op, payload) \<Rightarrow>
          (case registeredRemoteNode session n of
             Inl err \<Rightarrow> report (Some err) n
           | Inr _ \<Rightarrow>
               if op = opDeliver then
                 with_receive_request pick (\<lambda>n.
                   case decodeOperationPayload (un_DeliverRequest (proto env)) payload of
                     Inl err \<Rightarrow> report (Some (rpcInvalidMessage err)) n
                   | Inr request \<Rightarrow>
                       (case decodeDeliverRequest env request of
                          Inl err \<Rightarrow> report (Some (rpcInvalidMessage err)) n
                        | Inr (source, target, messageID, mode) \<Rightarrow>
                            if mode \<noteq> deliverRequestModeDirect
                            then report (Some (rpcInvalidMessage (Errorf
                              ''deliver mode %s is invalid for a direct message''
                              [ArgS (mode_String mode)]))) n
                            else
                              (case dispatchLocalDirect source target messageID (dr_Payload request) n of
                                 (err, n) \<Rightarrow> report err n))) n
               else report (Some (Errorf ''unsupported direct rpc operation %d'' [ArgD op])) n))"

definition handleRegisterNode ::
    "go_env \<Rightarrow> session \<Rightarrow> int \<Rightarrow> string \<Rightarrow> server_node \<Rightarrow> server_node" where
  "handleRegisterNode env session contextID payload n =
     (let refuse = (\<lambda>err. respondRPCError env session contextID (Some err) n) in
      case decodeOperationPayload (un_RegisterNodeRequest (proto env)) payload of
        Inl err \<Rightarrow> refuse (rpcInvalidMessage err)
      | Inr request \<Rightarrow>
          (case rpcNodeID env (rn_NodeId request) of
             Inl err \<Rightarrow> refuse (rpcInvalidMessage err)
           | Inr nodeID \<Rightarrow>
               (case Config_Node (Some (n_config n)) nodeID of
                  None \<Rightarrow> refuse (wrapf ErrNodeNotFound ''id=%d'' [ArgD nodeID])
                | Some configured \<Rightarrow>
                    if nodeID = n_id n
                    then refuse (rpcInvalidMessage (Errorf ''node %d cannot register with itself'' [ArgD nodeID]))
                    else if rn_NodeAddr request \<noteq> nc_ListenAddr configured
                    then refuse (rpcInvalidMessage (Errorf
                      ''node %d address %q does not match configured address %q''
                      [ArgD nodeID, ArgQ (rn_NodeAddr request), ArgQ (nc_ListenAddr configured)]))
                    else
                      (case remoteNodeFromSession session n of
                         None \<Rightarrow> refuse (rpcInvalidMessage (Errorf ''rpc session is not tracked'' []))
                       | Some remote \<Rightarrow>
                           if \<not> rm_active remote
                           then refuse (wrapf ErrNodeNotFound ''rpc session is closed'' [])
                           else if rm_id remote \<noteq> 0
                           then refuse (wrapf ErrNodeExists
                             ''rpc session is already registered as node %d'' [ArgD (rm_id remote)])
                           else if go_get (n_remoteNodes n) nodeID \<noteq> None
                           then refuse (wrapf ErrNodeExists ''node %d'' [ArgD nodeID])
                           else
                             let n1 = set_remote session
                                   (remote\<lparr>rm_id := nodeID, rm_addr := rn_NodeAddr request\<rparr>) n;
                                 n2 = n1\<lparr>n_remoteNodes := go_put nodeID session (n_remoteNodes n1)\<rparr>;
                                 n3 = refreshRemoteHeartbeat session n2
                             in snd (respondRPC env session contextID PbRegisterNodeResponse n3)))))"

definition not_main :: "server_node \<Rightarrow> gerror" where
  "not_main n = Errorf ''node %d is not the main node'' [ArgD (n_id n)]"

text \<open>The cases of the switch of \<^verbatim>\<open>handleRPCRequest\<close>.\<close>

definition handle_heartbeat :: "go_env \<Rightarrow> session \<Rightarrow> int \<Rightarrow> string \<Rightarrow> server_node \<Rightarrow> server_node" where
  "handle_heartbeat env session contextID payload n =
     (case decodeOperationPayload (un_HeartbeatRequest (proto env)) payload of
        Inl err \<Rightarrow> respondRPCError env session contextID (Some (rpcInvalidMessage err)) n
      | Inr _ \<Rightarrow> snd (respondRPC env session contextID PbHeartbeatResponse
          (refreshRemoteHeartbeat session n)))"

definition handle_register ::
    "go_env \<Rightarrow> session \<Rightarrow> int \<Rightarrow> RemoteNode \<Rightarrow> string \<Rightarrow> server_node \<Rightarrow> server_node" where
  "handle_register env session contextID remoteNode payload n =
     (let refuse = (\<lambda>err. respondRPCError env session contextID (Some err) n) in
      case decodeOperationPayload (un_RegisterRequest (proto env)) payload of
        Inl err \<Rightarrow> refuse (rpcInvalidMessage err)
      | Inr request \<Rightarrow>
          (case requiredRPCServiceLocation env (rr_Location request) ''register location'' of
             Inl err \<Rightarrow> refuse (rpcInvalidMessage err)
           | Inr location \<Rightarrow>
               if \<not> IsMainNode n then refuse (not_main n)
               else if NodeID location \<noteq> rm_id remoteNode \<or> NodeAddr location \<noteq> rm_addr remoteNode
               then refuse (Errorf ''register location does not match registered node %d''
                 [ArgD (rm_id remoteNode)])
               else post_control (RegisterTask session contextID session (rm_id remoteNode) location) n))"

definition handle_unregister ::
    "go_env \<Rightarrow> session \<Rightarrow> int \<Rightarrow> RemoteNode \<Rightarrow> string \<Rightarrow> server_node \<Rightarrow> server_node" where
  "handle_unregister env session contextID remoteNode payload n =
     (let refuse = (\<lambda>err. respondRPCError env session contextID (Some err) n) in
      case decodeOperationPayload (un_UnregisterRequest (proto env)) payload of
        Inl err \<Rightarrow> refuse (rpcInvalidMessage err)
      | Inr request \<Rightarrow>
          (case requiredRPCServiceKey env (ur_Target request) ''unregister target'' of
             Inl err \<Rightarrow> refuse (rpcInvalidMessage err)
           | Inr target \<Rightarrow>
               if \<not> IsMainNode n then refuse (not_main n)
               else post_control (UnregisterTask session contextID session (rm_id remoteNode) target) n))"

definition handle_subscribe ::
    "go_env \<Rightarrow> session \<Rightarrow> int \<Rightarrow> RemoteNode \<Rightarrow> string \<Rightarrow> server_node \<Rightarrow> server_node" where
  "handle_subscribe env session contextID remoteNode payload n =
     (let refuse = (\<lambda>err. respondRPCError env session contextID (Some err) n) in
      case decodeOperationPayload (un_SubscribeRequest (proto env)) payload of
        Inl err \<Rightarrow> refuse (rpcInvalidMessage err)
      | Inr request \<Rightarrow>
          (case requiredRPCServiceKey env (sq_Subscriber request) ''subscribe subscriber'' of
             Inl err \<Rightarrow> refuse (rpcInvalidMessage err)
           | Inr subscriber \<Rightarrow>
               (case normalizeSubscribedServiceName (sq_ServiceName request) of
                  Inl err \<Rightarrow> refuse (rpcInvalidMessage err)
                | Inr serviceName \<Rightarrow>
                    if serviceName \<noteq> sq_ServiceName request
                    then refuse (rpcInvalidMessage (Errorf ''subscribed service name is not normalized'' []))
                    else if \<not> IsMainNode n then refuse (not_main n)
                    else post_control (SubscribeTask session contextID session (rm_id remoteNode)
                      subscriber serviceName) n)))"

definition handle_lookup :: "go_env \<Rightarrow> session \<Rightarrow> int \<Rightarrow> string \<Rightarrow> server_node \<Rightarrow> server_node" where
  "handle_lookup env session contextID payload n =
     (let refuse = (\<lambda>err. respondRPCError env session contextID (Some err) n) in
      case decodeOperationPayload (un_LookupRequest (proto env)) payload of
        Inl err \<Rightarrow> refuse (rpcInvalidMessage err)
      | Inr request \<Rightarrow>
          (case requiredRPCServiceKey env (lq_Target request) ''lookup target'' of
             Inl err \<Rightarrow> refuse (rpcInvalidMessage err)
           | Inr target \<Rightarrow>
               if \<not> IsMainNode n then refuse (not_main n)
               else
                 (case registry_Lookup (n_registry n) target of
                    None \<Rightarrow> refuse (wrapf ErrServiceNotFound ''%s'' [ArgS (key_String target)])
                  | Some location \<Rightarrow> snd (respondRPC env session contextID
                      (PbLookupResponse \<lparr>lr_Location = Some (serviceLocationToProto location)\<rparr>) n))))"

definition handle_deliver ::
    "go_env \<Rightarrow> nat option \<Rightarrow> session \<Rightarrow> int \<Rightarrow> string \<Rightarrow> server_node \<Rightarrow> server_node" where
  "handle_deliver env pick session contextID payload n =
     with_receive_request pick (\<lambda>n.
       case decodeOperationPayload (un_DeliverRequest (proto env)) payload of
         Inl err \<Rightarrow> respondRPCError env session contextID (Some (rpcInvalidMessage err)) n
       | Inr request \<Rightarrow>
           (case decodeDeliverRequest env request of
              Inl err \<Rightarrow> respondRPCError env session contextID (Some (rpcInvalidMessage err)) n
            | Inr (source, target, messageID, mode) \<Rightarrow>
                let responder = RpcResponder session contextID;
                    (err, n) =
                      (if mode = deliverRequestModeSync
                       then dispatchLocalRequestSync source target messageID (dr_Payload request) responder n
                       else if mode = deliverRequestModeAsync
                       then dispatchLocalRequestAsync source target messageID (dr_Payload request) responder n
                       else (Some (rpcInvalidMessage (Errorf ''deliver mode %s is invalid for a request''
                         [ArgS (mode_String mode)])), n))
                in if err \<noteq> None then respondRPCError env session contextID err n else n)) n"

definition handleRPCRequest ::
    "go_env \<Rightarrow> nat option \<Rightarrow> session \<Rightarrow> int \<Rightarrow> string \<Rightarrow> server_node \<Rightarrow> server_node" where
  "handleRPCRequest env pick session contextID rpk n =
     (case decodeEnvelope env rpk of
        Inl err \<Rightarrow> respondRPCError env session contextID (Some (rpcInvalidMessage err)) n
      | Inr (op, payload) \<Rightarrow>
          if op = opRegisterNode then handleRegisterNode env session contextID payload n
          else
            (case registeredRemoteNode session n of
               Inl err \<Rightarrow> respondRPCError env session contextID (Some err) n
             | Inr remoteNode \<Rightarrow>
                 if op = opHeartbeat then handle_heartbeat env session contextID payload n
                 else if op = opRegister then handle_register env session contextID remoteNode payload n
                 else if op = opUnregister then handle_unregister env session contextID remoteNode payload n
                 else if op = opSubscribe then handle_subscribe env session contextID remoteNode payload n
                 else if op = opLookup then handle_lookup env session contextID payload n
                 else if op = opDeliver then handle_deliver env pick session contextID payload n
                 else respondRPCError env session contextID
                   (Some (Errorf ''unsupported rpc operation %d'' [ArgD op])) n))"

section \<open>The control loop\<close>

text \<open>
  A closure on the control loop: its first check, and the rest. \<open>None\<close> as the second
  component of \<open>task_begin\<close> means that the closure has returned already.
\<close>

definition task_current ::
    "go_env \<Rightarrow> session \<Rightarrow> int \<Rightarrow> session \<Rightarrow> int \<Rightarrow> control_task \<Rightarrow> server_node \<Rightarrow> server_node" where
  "task_current env session contextID remote sourceNode task n =
     (if \<not> remoteNodeIsCurrent session remote n
      then respondRPCError env session contextID
        (Some (wrapf ErrNodeNotFound ''node %d disconnected'' [ArgD sourceNode])) n
      else n\<lparr>n_running := Some task\<rparr>)"

definition task_begin :: "go_env \<Rightarrow> control_task \<Rightarrow> server_node \<Rightarrow> server_node" where
  "task_begin env task n =
     (case task of
        RegisterTask session contextID remote sourceNode location \<Rightarrow>
          task_current env session contextID remote sourceNode task n
      | UnregisterTask session contextID remote sourceNode target \<Rightarrow>
          task_current env session contextID remote sourceNode task n
      | SubscribeTask session contextID remote sourceNode subscriber serviceName \<Rightarrow>
          task_current env session contextID remote sourceNode task n
      | ArmTask session \<Rightarrow>
          (case arm_start session n of None \<Rightarrow> n | Some n \<Rightarrow> n\<lparr>n_running := Some task\<rparr>)
      | _ \<Rightarrow> n\<lparr>n_running := Some task\<rparr>)"

definition respond_task ::
    "go_env \<Rightarrow> session \<Rightarrow> int \<Rightarrow> pb_message \<Rightarrow> gerror option \<times> server_node \<Rightarrow> server_node" where
  "respond_task env session contextID response outcome =
     (case outcome of
        (Some err, n) \<Rightarrow> respondRPCError env session contextID (Some err) n
      | (None, n) \<Rightarrow> snd (respondRPC env session contextID response n))"

definition node_gone :: "go_env \<Rightarrow> int \<Rightarrow> server_node \<Rightarrow> server_node" where
  "node_gone env nodeID n =
     (let keys = serviceKeysForNode nodeID n
      in servicesUnregistered env keys (n\<lparr>n_registry := registry_UnregisterNode nodeID (n_registry n)\<rparr>))"

definition call_done :: "control_task \<Rightarrow> gerror option \<times> server_node \<Rightarrow> server_node" where
  "call_done task outcome = (case outcome of (err, n) \<Rightarrow> emit (CallDone task err) n)"

definition task_commit :: "go_env \<Rightarrow> control_task \<Rightarrow> server_node \<Rightarrow> server_node" where
  "task_commit env task n =
     (case task of
        RegisterTask session contextID remote sourceNode location \<Rightarrow>
          respond_task env session contextID PbRegisterResponse (register_on_main env location n)
      | UnregisterTask session contextID remote sourceNode target \<Rightarrow>
          respond_task env session contextID PbUnregisterResponse (unregister_on_main env target sourceNode n)
      | SubscribeTask session contextID remote sourceNode subscriber serviceName \<Rightarrow>
          respond_task env session contextID PbSubscribeResponse
            (subscribe_on_main env subscriber sourceNode serviceName n)
      | NodeGoneTask nodeID \<Rightarrow> node_gone env nodeID n
      | ArmTask session \<Rightarrow> arm_recheck session n
      | LocalRegisterTask key \<Rightarrow> call_done task (register_on_main env (local_location n key) n)
      | LocalUnregisterTask key \<Rightarrow> call_done task (unregister_on_main env key (n_id n) n)
      | LocalSubscribeTask key serviceName \<Rightarrow> call_done task (subscribe_on_main env key (n_id n) serviceName n))"

section \<open>Steps\<close>

datatype server_event =
    Accept session
  | Request session int string "nat option"
  | Direct session string "nat option"
  | SessionClosed session
  | HeartbeatExpired session
  | Unlink nat
  | Enqueue nat
  | LocalCall control_task
  | TaskBegin
  | TaskCommit

text \<open>The calls that the lifecycle of the main node makes on its own control loop.\<close>

definition local_task :: "control_task \<Rightarrow> bool" where
  "local_task task \<longleftrightarrow> (case task of LocalRegisterTask _ \<Rightarrow> True | LocalUnregisterTask _ \<Rightarrow> True
     | LocalSubscribeTask _ _ \<Rightarrow> True | _ \<Rightarrow> False)"

definition drop_nth :: "nat \<Rightarrow> 'a list \<Rightarrow> 'a list" where
  "drop_nth i xs = take i xs @ drop (Suc i) xs"

inductive server_step :: "go_env \<Rightarrow> server_node \<Rightarrow> server_event \<Rightarrow> server_node \<Rightarrow> bool"
  for env :: go_env
where
  step_Accept: "go_get (n_sessions n) s = None \<Longrightarrow> server_step env n (Accept s) (onAccept s n)"
| step_Request: "server_step env n (Request s c rpk pick) (handleRPCRequest env pick s c rpk n)"
| step_Direct: "server_step env n (Direct s rpk pick) (handleRPCDirect env pick s rpk n)"
| step_SessionClosed: "server_step env n (SessionClosed s) (removeRemoteNode_swap s False n)"
| step_HeartbeatExpired: "server_step env n (HeartbeatExpired s) (removeRemoteNode_swap s True n)"
| step_Unlink:
    "i < length (n_removing n) \<Longrightarrow> n_removing n ! i = (s, c) \<Longrightarrow>
     server_step env n (Unlink i)
       (removeRemoteNode_unlink s c (n\<lparr>n_removing := drop_nth i (n_removing n)\<rparr>))"
| step_Enqueue:
    "i < length (n_posting n) \<Longrightarrow>
     server_step env n (Enqueue i) (n\<lparr>n_posting := drop_nth i (n_posting n),
       n_control := n_control n @ [n_posting n ! i]\<rparr>)"
| step_LocalCall: "IsMainNode n \<Longrightarrow> local_task task \<Longrightarrow>
     server_step env n (LocalCall task) (post_control task n)"
| step_TaskBegin:
    "n_running n = None \<Longrightarrow> n_control n = task # rest \<Longrightarrow>
     server_step env n TaskBegin (task_begin env task (n\<lparr>n_control := rest\<rparr>))"
| step_TaskCommit:
    "n_running n = Some task \<Longrightarrow>
     server_step env n TaskCommit ((task_commit env task n)\<lparr>n_running := None\<rparr>)"

text \<open>The node as \<^verbatim>\<open>NewNode\<close> creates it.\<close>

definition server_init :: "server_node \<Rightarrow> bool" where
  "server_init n \<longleftrightarrow> n_registry n = NewMemoryRegistry \<and>
     n_subscriptions n = newServiceSubscriptionIndex \<and> n_sessions n = [] \<and> n_remoteNodes n = [] \<and>
     n_receivePool n = [] \<and> n_posting n = [] \<and> n_control n = [] \<and> n_running n = None \<and>
     n_removing n = [] \<and> n_out n = []"

abbreviation server_reach :: "go_env \<Rightarrow> server_node \<Rightarrow> bool" where
  "server_reach env \<equiv> reach server_init (server_step env)"

lemma drop_nth_set: "i < length xs \<Longrightarrow> set xs = insert (xs ! i) (set (drop_nth i xs))"
proof -
  assume "i < length xs"
  then have "xs = take i xs @ xs ! i # drop (Suc i) xs" by (rule id_take_nth_drop)
  then have "set xs = set (take i xs @ xs ! i # drop (Suc i) xs)" by (rule arg_cong)
  then show ?thesis by (simp add: drop_nth_def)
qed

end
