(* ===== verification/Node_Effects.thy ===== *)
theory Node_Effects
  imports Node_Server
begin

text \<open>
  What the operations of \<open>Node_Server\<close> do, separated into the state they change and the
  effects they emit. Operations that only send are shown to be a list of effects computed
  from the state, so that the invariants need not look at them, and the handlers of the RPC
  server are reduced to the few kinds of change they can make.
\<close>

section \<open>Emitting\<close>

definition out :: "effect list \<Rightarrow> server_node \<Rightarrow> server_node" where
  "out xs n = n\<lparr>n_out := n_out n @ xs\<rparr>"

lemma out_simps [simp]:
  "n_id (out xs n) = n_id n" "n_mainNodeID (out xs n) = n_mainNodeID n"
  "n_config (out xs n) = n_config n" "n_listenAddr (out xs n) = n_listenAddr n"
  "n_localServices (out xs n) = n_localServices n" "n_registry (out xs n) = n_registry n"
  "n_subscriptions (out xs n) = n_subscriptions n" "n_sessions (out xs n) = n_sessions n"
  "n_remoteNodes (out xs n) = n_remoteNodes n" "n_receivePool (out xs n) = n_receivePool n"
  "n_posting (out xs n) = n_posting n" "n_control (out xs n) = n_control n"
  "n_running (out xs n) = n_running n" "n_removing (out xs n) = n_removing n"
  "n_out (out xs n) = n_out n @ xs"
  by (simp_all add: out_def)

lemma out_Nil [simp]: "out [] n = n"
  by (simp add: out_def)

lemma out_out [simp]: "out ys (out xs n) = out (xs @ ys) n"
  by (simp add: out_def)

lemma emit_out: "emit x n = out [x] n"
  by (simp add: emit_def out_def)

lemma out_update:
  "(out xs n)\<lparr>n_registry := r\<rparr> = out xs (n\<lparr>n_registry := r\<rparr>)"
  "(out xs n)\<lparr>n_subscriptions := i\<rparr> = out xs (n\<lparr>n_subscriptions := i\<rparr>)"
  "(out xs n)\<lparr>n_running := t\<rparr> = out xs (n\<lparr>n_running := t\<rparr>)"
  "(out xs n)\<lparr>n_receivePool := p\<rparr> = out xs (n\<lparr>n_receivePool := p\<rparr>)"
  by (simp_all add: out_def)

lemma IsMainNode_out [simp]: "IsMainNode (out xs n) = IsMainNode n"
  by (simp add: IsMainNode_def)

lemma remote_session_out [simp]: "remote_session (out xs n) = remote_session n"
  by (simp add: remote_session_def fun_eq_iff)

section \<open>Sending\<close>

text \<open>A list of effects without a push.\<close>

definition quiet :: "effect list \<Rightarrow> bool" where
  "quiet xs \<longleftrightarrow> list_all (\<lambda>x. case x of SendDirect _ _ _ \<Rightarrow> False | _ \<Rightarrow> True) xs"

lemma quiet_simps [simp]:
  "quiet []" "quiet (xs @ ys) \<longleftrightarrow> quiet xs \<and> quiet ys" "quiet [Report e]" "quiet [Respond s c w]"
  "quiet [PostService k t]" "quiet [CallDone task err]" "quiet [CloseSession s]"
  by (simp_all add: quiet_def)

definition report_out :: "gerror option \<Rightarrow> effect list" where
  "report_out err = (case err of None \<Rightarrow> [] | Some e \<Rightarrow> [Report e])"

lemma quiet_report [simp]: "quiet (report_out err)"
  by (simp add: report_out_def split: option.split)

lemma report_eq: "report err n = out (report_out err) n"
  by (cases err) (simp_all add: report_def report_out_def emit_out)

definition error_out :: "go_env \<Rightarrow> session \<Rightarrow> int \<Rightarrow> gerror option \<Rightarrow> effect list" where
  "error_out env s c err =
     (case encodeRPCError env err of Inl e \<Rightarrow> [Report e] | Inr wpk \<Rightarrow> [Respond s c wpk])"

lemma quiet_error [simp]: "quiet (error_out env s c err)"
  by (simp add: error_out_def split: sum.split)

lemma respondRPCError_eq: "respondRPCError env s c err n = out (error_out env s c err) n"
  by (auto simp: respondRPCError_def error_out_def report_eq report_out_def emit_out split: sum.splits)

definition response_out :: "go_env \<Rightarrow> session \<Rightarrow> int \<Rightarrow> pb_message \<Rightarrow> effect list" where
  "response_out env s c m =
     (case encodeResult env '''' '''' (Msg m) of Inl e \<Rightarrow> [Report e] | Inr wpk \<Rightarrow> [Respond s c wpk])"

lemma quiet_response [simp]: "quiet (response_out env s c m)"
  by (simp add: response_out_def split: sum.split)

lemma respondRPC_eq: "snd (respondRPC env s c m n) = out (response_out env s c m) n"
  by (auto simp: respondRPC_def response_out_def report_eq report_out_def emit_out split: sum.splits)

fun broadcast_out :: "go_env \<Rightarrow> (ServiceKey \<times> session) list \<Rightarrow> effect list" where
  "broadcast_out env [] = []"
| "broadcast_out env ((key, session) # rest) =
     (case encode_push env (RoutePush key) of
        Inl err \<Rightarrow> [Report err]
      | Inr wpk \<Rightarrow> SendDirect session (RoutePush key) wpk # broadcast_out env rest)"

lemma broadcast_loop_eq: "broadcast_loop env ps n = out (broadcast_out env ps) n"
  by (induction ps arbitrary: n) (auto simp: report_eq report_out_def emit_out split: sum.splits)

text \<open>The sessions of all registered remote nodes.\<close>

definition node_sessions :: "server_node \<Rightarrow> session list" where
  "node_sessions n = map (\<lambda>(_, remote). remote_session n remote) (n_remoteNodes n)"

definition route_out :: "go_env \<Rightarrow> server_node \<Rightarrow> ServiceKey list \<Rightarrow> effect list" where
  "route_out env n keys =
     (if IsMainNode n then broadcast_out env (concat (map (\<lambda>key. map (Pair key) (node_sessions n)) keys))
      else [])"

lemma broadcastRouteInvalidation_eq:
  "broadcastRouteInvalidation env keys n = out (route_out env n keys) n"
  by (auto simp: broadcastRouteInvalidation_def route_out_def broadcast_loop_eq node_sessions_def)

definition local_discovery_out ::
    "server_node \<Rightarrow> ServiceKey \<Rightarrow> string \<Rightarrow> int \<Rightarrow> ServiceKey list \<Rightarrow> effect list" where
  "local_discovery_out n k nm ev ks =
     (case fst (dispatchLocalServiceDiscovery k nm ev ks n) of
        None \<Rightarrow> [PostService k (DiscoveryTask k nm ev ks)]
      | Some e \<Rightarrow> [Report e])"

definition discovery_out ::
    "go_env \<Rightarrow> server_node \<Rightarrow> ServiceKey \<Rightarrow> string \<Rightarrow> int \<Rightarrow> ServiceKey list \<Rightarrow> effect list" where
  "discovery_out env n k nm ev ks =
     (case registry_Lookup (n_registry n) k of
        None \<Rightarrow> []
      | Some l \<Rightarrow>
          if NodeID l = n_id n then local_discovery_out n k nm ev ks
          else (case go_get (n_remoteNodes n) (NodeID l) of
                  None \<Rightarrow> []
                | Some p \<Rightarrow>
                    (case encode_push env (DiscoveryPush k nm ev ks) of
                       Inl e \<Rightarrow> [Report e]
                     | Inr wpk \<Rightarrow> [SendDirect (remote_session n p) (DiscoveryPush k nm ev ks) wpk])))"

lemma dispatchLocalServiceDiscovery_eq:
  "dispatchLocalServiceDiscovery k nm ev ks n = (err, n') \<Longrightarrow>
     report err n' = out (local_discovery_out n k nm ev ks) n"
  by (auto simp: dispatchLocalServiceDiscovery_def local_discovery_out_def report_eq report_out_def
      emit_out split: option.splits if_splits)

lemma sendServiceDiscovery_eq:
  "sendServiceDiscovery env k nm ev ks n = out (discovery_out env n k nm ev ks) n"
  by (auto simp: sendServiceDiscovery_def discovery_out_def report_eq [of "Some _"] report_out_def
      emit_out dispatchLocalServiceDiscovery_eq split: option.splits sum.splits prod.splits)

lemma discovery_out_cong [simp]: "discovery_out env (out xs n) = discovery_out env n"
proof -
  have "fst (dispatchLocalServiceDiscovery k nm ev ks (out xs n)) =
      fst (dispatchLocalServiceDiscovery k nm ev ks n)" for k nm ev ks
    by (simp add: dispatchLocalServiceDiscovery_def split: option.splits)
  then have "local_discovery_out (out xs n) k nm ev ks = local_discovery_out n k nm ev ks" for k nm ev ks
    by (simp add: local_discovery_out_def)
  then show ?thesis by (intro ext) (simp add: discovery_out_def split: option.split sum.split)
qed

lemma fold_out:
  assumes "\<And>x xs m. f x (out xs n) = out (g x) (out xs n)"
  shows "fold f ks (out ys n) = out (ys @ concat (map g ks)) n"
  using assms by (induction ks arbitrary: ys) simp_all

definition announce_out :: "go_env \<Rightarrow> server_node \<Rightarrow> int \<Rightarrow> ServiceKey \<Rightarrow> effect list" where
  "announce_out env n ev k =
     concat (map (\<lambda>sub. discovery_out env n sub (key_Name k) ev [k])
       (index_subscribers (n_subscriptions n) (key_Name k)))"

lemma announce_eq: "announce env ev k n = out (announce_out env n ev k) n"
  using fold_out [of "\<lambda>sub. sendServiceDiscovery env sub (key_Name k) ev [k]" n
      "\<lambda>sub. discovery_out env n sub (key_Name k) ev [k]" _ "[]"]
  by (simp add: announce_def announce_out_def sendServiceDiscovery_eq)

lemma announce_out_cong [simp]: "announce_out env (out xs n) = announce_out env n"
  by (simp add: announce_out_def fun_eq_iff)

text \<open>The effects of a change of the registry, in the state after it.\<close>

definition registered_out :: "go_env \<Rightarrow> server_node \<Rightarrow> ServiceKey \<Rightarrow> effect list" where
  "registered_out env n k = route_out env n [k] @ announce_out env n eventOnline k"

lemma serviceRegistered_eq: "serviceRegistered env k n = out (registered_out env n k) n"
  by (simp add: serviceRegistered_def broadcastRouteInvalidation_eq announce_eq registered_out_def)

definition drop_subscribers :: "ServiceKey list \<Rightarrow> server_node \<Rightarrow> server_node" where
  "drop_subscribers ks n = n\<lparr>n_subscriptions := fold index_removeSubscriber ks (n_subscriptions n)\<rparr>"

definition unregistered_out :: "go_env \<Rightarrow> server_node \<Rightarrow> ServiceKey list \<Rightarrow> effect list" where
  "unregistered_out env n ks = route_out env n ks @ concat (map (announce_out env n eventOffline) ks)"

lemma servicesUnregistered_eq:
  "servicesUnregistered env ks n =
     out (unregistered_out env (drop_subscribers ks n) ks) (drop_subscribers ks n)"
  using fold_out [of "announce env eventOffline" "drop_subscribers ks n"
      "announce_out env (drop_subscribers ks n) eventOffline" ks]
  by (simp add: servicesUnregistered_def broadcastRouteInvalidation_eq unregistered_out_def
      drop_subscribers_def [symmetric] announce_eq Let_def)

section \<open>Tasks of the control loop\<close>

lemma register_on_main_eq:
  "register_on_main env l n =
     (case registry_Register l (n_registry n) of
        Inl err \<Rightarrow> (Some err, n)
      | Inr r \<Rightarrow> (None, out (registered_out env (n\<lparr>n_registry := r\<rparr>) (location_Key l)) (n\<lparr>n_registry := r\<rparr>)))"
  by (simp add: register_on_main_def serviceRegistered_eq split: sum.splits)

definition unregister_state :: "ServiceKey list \<Rightarrow> MemoryRegistry \<Rightarrow> server_node \<Rightarrow> server_node" where
  "unregister_state ks r n = drop_subscribers ks (n\<lparr>n_registry := r\<rparr>)"

lemma unregister_on_main_eq:
  "unregister_on_main env k i n =
     (case registry_Unregister k i (n_registry n) of
        Inl err \<Rightarrow> (Some err, n)
      | Inr r \<Rightarrow> (None, out (unregistered_out env (unregister_state [k] r n) [k]) (unregister_state [k] r n)))"
  by (simp add: unregister_on_main_def serviceUnregistered_def servicesUnregistered_eq
      unregister_state_def split: sum.splits)

lemma node_gone_eq:
  "node_gone env i n =
     (let ks = serviceKeysForNode i n;
          m = unregister_state ks (registry_UnregisterNode i (n_registry n)) n
      in out (unregistered_out env m ks) m)"
  by (simp add: node_gone_def servicesUnregistered_eq unregister_state_def Let_def)

definition subscribe_state :: "ServiceKey \<Rightarrow> string \<Rightarrow> server_node \<Rightarrow> server_node" where
  "subscribe_state k nm n = n\<lparr>n_subscriptions := snd (index_subscribe k nm (n_subscriptions n))\<rparr>"

lemma subscribe_on_main_eq:
  "subscribe_on_main env k i nm n =
     (case registry_Lookup (n_registry n) k of
        None \<Rightarrow> (Some (wrapf ErrServiceNotFound ''subscriber %s'' [ArgS (key_String k)]), n)
      | Some l \<Rightarrow>
          if NodeID l \<noteq> i
          then (Some (Errorf ''subscriber %s belongs to node %d, not node %d''
            [ArgS (key_String k), ArgD (NodeID l), ArgD i]), n)
          else (None, out (discovery_out env (subscribe_state k nm n) k nm eventSnapshot
              (serviceSnapshot nm (subscribe_state k nm n))) (subscribe_state k nm n)))"
  by (simp add: subscribe_on_main_def addServiceSubscription_def sendServiceDiscovery_eq
      subscribe_state_def split: option.splits)

text \<open>
  The change a task makes to the registry and the subscriptions, and the pushes it makes in the
  state it leaves; it is the same for the closures of remote and of local callers.
\<close>

inductive registry_change :: "go_env \<Rightarrow> control_task \<Rightarrow> server_node \<Rightarrow> server_node \<Rightarrow> effect list \<Rightarrow> bool"
  for env :: go_env and task :: control_task and n :: server_node
where
  change_none: "(\<And>i. task \<noteq> NodeGoneTask i) \<Longrightarrow> registry_change env task n n []"
| change_register:
    "registry_Register l (n_registry n) = Inr r \<Longrightarrow>
     (\<exists>s c p i. task = RegisterTask s c p i l) \<or> (\<exists>k. task = LocalRegisterTask k \<and> l = local_location n k) \<Longrightarrow>
     m = n\<lparr>n_registry := r\<rparr> \<Longrightarrow> registry_change env task n m (registered_out env m (location_Key l))"
| change_unregister:
    "registry_Unregister k i (n_registry n) = Inr r \<Longrightarrow>
     (\<exists>s c p. task = UnregisterTask s c p i k) \<or> (task = LocalUnregisterTask k \<and> i = n_id n) \<Longrightarrow>
     m = unregister_state [k] r n \<Longrightarrow> registry_change env task n m (unregistered_out env m [k])"
| change_node_gone:
    "task = NodeGoneTask i \<Longrightarrow>
     m = unregister_state (serviceKeysForNode i n) (registry_UnregisterNode i (n_registry n)) n \<Longrightarrow>
     registry_change env task n m (unregistered_out env m (serviceKeysForNode i n))"
| change_subscribe:
    "registry_Lookup (n_registry n) k \<noteq> None \<Longrightarrow>
     (\<exists>s c p i. task = SubscribeTask s c p i k nm) \<or> task = LocalSubscribeTask k nm \<Longrightarrow>
     m = subscribe_state k nm n \<Longrightarrow>
     registry_change env task n m (discovery_out env m k nm eventSnapshot (serviceSnapshot nm m))"

lemma task_commit_change:
  assumes "\<And>s. task \<noteq> ArmTask s"
  obtains m xs ys where "registry_change env task n m xs" "quiet ys" "task_commit env task n = out (xs @ ys) m"
proof (cases task)
  case (RegisterTask s c p i l)
  note eqs = task_commit_def register_on_main_eq respond_task_def respondRPCError_eq respondRPC_eq
  show ?thesis
  proof (cases "registry_Register l (n_registry n)")
    case Inl
    with RegisterTask show ?thesis by (intro that [OF change_none]) (simp_all add: eqs)
  next
    case (Inr r)
    with RegisterTask show ?thesis by (intro that [OF change_register [OF Inr _ refl]]) (simp_all add: eqs)
  qed
next
  case (UnregisterTask s c p i k)
  note eqs = task_commit_def unregister_on_main_eq respond_task_def respondRPCError_eq respondRPC_eq
  show ?thesis
  proof (cases "registry_Unregister k i (n_registry n)")
    case Inl
    with UnregisterTask show ?thesis by (intro that [OF change_none]) (simp_all add: eqs)
  next
    case (Inr r)
    with UnregisterTask show ?thesis by (intro that [OF change_unregister [OF Inr _ refl]]) (simp_all add: eqs)
  qed
next
  case (SubscribeTask s c p i k nm)
  note eqs = task_commit_def subscribe_on_main_eq respond_task_def respondRPCError_eq respondRPC_eq
  show ?thesis
  proof (cases "\<exists>l. registry_Lookup (n_registry n) k = Some l \<and> NodeID l = i")
    case True
    then have "registry_Lookup (n_registry n) k \<noteq> None" by auto
    with True SubscribeTask show ?thesis by (intro that [OF change_subscribe [where k = k and nm = nm, OF _ _ refl]]) (auto simp: eqs)
  next
    case False
    with SubscribeTask show ?thesis
      by (cases "registry_Lookup (n_registry n) k"; intro that [OF change_none])
        (auto simp: eqs)
  qed
next
  case (NodeGoneTask i)
  then show ?thesis
    by (intro that [OF change_node_gone [OF _ refl], of i "[]"]) (simp_all add: task_commit_def node_gone_eq Let_def)
next
  case (LocalRegisterTask k)
  note eqs = task_commit_def register_on_main_eq call_done_def emit_out
  show ?thesis
  proof (cases "registry_Register (local_location n k) (n_registry n)")
    case Inl
    with LocalRegisterTask show ?thesis by (intro that [OF change_none]) (simp_all add: eqs)
  next
    case (Inr r)
    with LocalRegisterTask show ?thesis by (intro that [OF change_register [OF Inr _ refl]]) (simp_all add: eqs)
  qed
next
  case (LocalUnregisterTask k)
  note eqs = task_commit_def unregister_on_main_eq call_done_def emit_out
  show ?thesis
  proof (cases "registry_Unregister k (n_id n) (n_registry n)")
    case Inl
    with LocalUnregisterTask show ?thesis by (intro that [OF change_none]) (simp_all add: eqs)
  next
    case (Inr r)
    with LocalUnregisterTask show ?thesis by (intro that [OF change_unregister [OF Inr _ refl]]) (simp_all add: eqs)
  qed
next
  case (LocalSubscribeTask k nm)
  note eqs = task_commit_def subscribe_on_main_eq call_done_def emit_out
  show ?thesis
  proof (cases "\<exists>l. registry_Lookup (n_registry n) k = Some l \<and> NodeID l = n_id n")
    case True
    then have "registry_Lookup (n_registry n) k \<noteq> None" by auto
    with True LocalSubscribeTask show ?thesis by (intro that [OF change_subscribe [where k = k and nm = nm, OF _ _ refl]]) (auto simp: eqs)
  next
    case False
    with LocalSubscribeTask show ?thesis
      by (cases "registry_Lookup (n_registry n) k"; intro that [OF change_none])
        (auto simp: eqs)
  qed
qed (use assms in auto)

section \<open>Handlers\<close>

text \<open>The tasks a handler may post for a registered session \<open>s\<close> with remote node \<open>r\<close>.\<close>

inductive remote_task :: "session \<Rightarrow> RemoteNode \<Rightarrow> control_task \<Rightarrow> bool"
  for s :: session and r :: RemoteNode
where
  "NodeID l = rm_id r \<Longrightarrow> NodeAddr l = rm_addr r \<Longrightarrow> valid_location l \<Longrightarrow>
     remote_task s r (RegisterTask s c s (rm_id r) l)"
| "remote_task s r (UnregisterTask s c s (rm_id r) k)"
| "remote_task s r (SubscribeTask s c s (rm_id r) k nm)"

text \<open>Everything a handler of the RPC server may do.\<close>

inductive handler_change :: "session \<Rightarrow> server_node \<Rightarrow> server_node \<Rightarrow> bool"
  for s :: session and n :: server_node
where
  change_out: "quiet xs \<Longrightarrow> handler_change s n (out xs (n\<lparr>n_receivePool := p\<rparr>))"
| change_arm: "quiet xs \<Longrightarrow> handler_change s n (out xs (post_control (ArmTask s) n))"
| change_post:
    "go_get (n_sessions n) s = Some r \<Longrightarrow> linked s r n \<Longrightarrow> IsMainNode n \<Longrightarrow> remote_task s r t \<Longrightarrow>
     handler_change s n (post_control t n)"
| change_link:
    "go_get (n_sessions n) s = Some r \<Longrightarrow> rm_active r \<Longrightarrow> rm_id r = 0 \<Longrightarrow> 0 < i \<Longrightarrow> i \<noteq> n_id n \<Longrightarrow>
     go_get (n_remoteNodes n) i = None \<Longrightarrow> Config_Node (Some (n_config n)) i = Some c \<Longrightarrow> quiet xs \<Longrightarrow>
     handler_change s n (out xs (post_control (ArmTask s)
       (n\<lparr>n_sessions := go_put s (r\<lparr>rm_id := i, rm_addr := nc_ListenAddr c\<rparr>) (n_sessions n),
          n_remoteNodes := go_put i s (n_remoteNodes n)\<rparr>)))"

lemma handler_change_out: "quiet xs \<Longrightarrow> handler_change s n (out xs n)"
  using change_out [of xs s n "n_receivePool n"] by simp

lemmas respond_eqs = respondRPCError_eq respondRPC_eq report_eq emit_out

text \<open>An operation that only emits.\<close>

definition sends :: "server_node \<Rightarrow> server_node \<Rightarrow> bool" where
  "sends n m \<longleftrightarrow> (\<exists>xs. quiet xs \<and> m = out xs n)"

lemma sends_out [simp, intro]: "quiet xs \<Longrightarrow> sends n (out xs n)" "sends n n"
  unfolding sends_def by (blast, metis out_Nil quiet_simps(1))

lemma sends_change: "sends n m \<Longrightarrow> handler_change s n m"
  by (auto simp: sends_def handler_change_out)

lemma dispatch_local_cases:
  obtains (posted) "dispatch_local target mid t n = (None, out [PostService target t] n)"
  | (refused) e where "dispatch_local target mid t n = (Some e, n)"
  by (cases "go_get (n_localServices n) target"; cases "known_kind mid")
    (auto simp: dispatch_local_def emit_out)

lemma dispatch_sends: "sends n (snd (dispatch_local target mid t n))"
  by (cases rule: dispatch_local_cases [of target mid t n]) auto

lemmas dispatch_defs =
  dispatchLocalDirect_def dispatchLocalRequestSync_def dispatchLocalRequestAsync_def

lemma with_receive_request_sends:
  assumes "\<And>n. sends n (body n)"
  shows "handler_change s n (with_receive_request pick body n)"
proof -
  obtain request pool where a: "acquireDeliverReceiveRequest pick (n_receivePool n) = (request, pool)"
    by fastforce
  obtain xs where "quiet xs" "body (n\<lparr>n_receivePool := pool\<rparr>) = out xs (n\<lparr>n_receivePool := pool\<rparr>)"
    using assms unfolding sends_def by blast
  with a show ?thesis
    by (simp add: with_receive_request_def out_update change_out)
qed

text \<open>What follows a dispatch: the error is answered or reported.\<close>

lemma dispatched_responds:
  "sends n (case dispatch_local target mid t n of (err, m) \<Rightarrow>
     if err \<noteq> None then respondRPCError env s c err m else m)"
  by (rule dispatch_local_cases [of target mid t n]) (simp_all add: respondRPCError_eq)

lemma dispatched_reports:
  "sends n (case dispatch_local target mid t n of (err, m) \<Rightarrow> report err m)"
proof (rule dispatch_local_cases [of target mid t n])
  assume "dispatch_local target mid t n = (None, out [PostService target t] n)"
  then show ?thesis by (simp add: report_def)
next
  fix e assume "dispatch_local target mid t n = (Some e, n)"
  then show ?thesis by (simp add: report_eq)
qed

lemma handle_deliver_change: "handler_change s n (handle_deliver env pick s c payload n)"
  unfolding handle_deliver_def
  by (rule with_receive_request_sends)
    (auto simp: Let_def dispatch_defs dispatched_responds respondRPCError_eq split: sum.split
      simp del: not_None_eq)

lemma direct_sends:
  "sends n (case decodeDeliverRequest env request of
      Inl err \<Rightarrow> report (Some (rpcInvalidMessage err)) n
    | Inr (source, target, messageID, mode) \<Rightarrow>
        if mode \<noteq> deliverRequestModeDirect
        then report (Some (rpcInvalidMessage (Errorf
          ''deliver mode %s is invalid for a direct message'' [ArgS (mode_String mode)]))) n
        else (case dispatchLocalDirect source target messageID (dr_Payload request) n of
                (err, n) \<Rightarrow> report err n))"
  by (auto simp: dispatch_defs dispatched_reports respond_eqs(3) [of "Some _"] split: sum.split)

lemma handleRPCDirect_change: "handler_change s n (handleRPCDirect env pick s rpk n)"
  using direct_sends
  by (auto simp: handleRPCDirect_def handler_change_out respond_eqs(3) [of "Some _"]
      split: sum.split intro!: with_receive_request_sends)

lemma handleRegisterNode_cases:
  obtains (refused) xs where "quiet xs" "handleRegisterNode env s c payload n = out xs n"
  | (linked) r i cfg where "go_get (n_sessions n) s = Some r" "rm_active r" "rm_id r = 0" "0 < i"
      "i \<noteq> n_id n" "go_get (n_remoteNodes n) i = None" "Config_Node (Some (n_config n)) i = Some cfg"
      "handleRegisterNode env s c payload n =
         out (response_out env s c PbRegisterNodeResponse) (post_control (ArmTask s)
           (n\<lparr>n_sessions := go_put s (r\<lparr>rm_id := i, rm_addr := nc_ListenAddr cfg\<rparr>) (n_sessions n),
              n_remoteNodes := go_put i s (n_remoteNodes n)\<rparr>))"
proof (cases "sends n (handleRegisterNode env s c payload n)")
  case False
  have pos: "0 < i" if "rpcNodeID env v = Inr i" for i v
    using that by (auto simp: rpcNodeID_def split: sum.splits if_splits)
  from False obtain req where "decodeOperationPayload (un_RegisterNodeRequest (proto env)) payload = Inr req"
    by (cases "decodeOperationPayload (un_RegisterNodeRequest (proto env)) payload")
      (auto simp: handleRegisterNode_def Let_def respond_eqs)
  moreover from this False obtain i where i: "rpcNodeID env (rn_NodeId req) = Inr i"
    by (cases "rpcNodeID env (rn_NodeId req)") (auto simp: handleRegisterNode_def Let_def respond_eqs)
  moreover from calculation False obtain cfg where "Config_Node (Some (n_config n)) i = Some cfg"
    by (cases "Config_Node (Some (n_config n)) i") (auto simp: handleRegisterNode_def Let_def respond_eqs)
  moreover from calculation False obtain r where "go_get (n_sessions n) s = Some r"
    by (cases "go_get (n_sessions n) s")
      (auto simp: handleRegisterNode_def Let_def respond_eqs remoteNodeFromSession_def split: if_splits)
  ultimately show ?thesis
    using False pos [OF i]
    by (intro linked [of r i cfg])
      (auto simp: handleRegisterNode_def Let_def respond_eqs remoteNodeFromSession_def
        set_remote_def refreshRemoteHeartbeat_def armRemoteNodeTimeout_def split: if_splits)
qed (auto simp: sends_def)

lemma handleRegisterNode_change: "handler_change s n (handleRegisterNode env s c payload n)"
proof (cases rule: handleRegisterNode_cases [of env s c payload n])
  case (refused xs)
  then show ?thesis by (simp add: handler_change_out)
next
  case (linked r i cfg)
  show ?thesis unfolding linked(8) by (rule change_link [OF linked(1-7)]) simp
qed

lemma handleRPCRequest_change: "handler_change s n (handleRPCRequest env pick s c rpk n)"
proof -
  have reg: "go_get (n_sessions n) s = Some r \<and> linked s r n" if "registeredRemoteNode s n = Inr r" for r
    using that by (auto simp: registeredRemoteNode_def remoteNodeFromSession_def
        split: option.splits if_splits)
  have "handler_change s n (handle_register env s c r payload n)" if "registeredRemoteNode s n = Inr r" for r payload
    using reg [OF that]
    by (auto simp: handle_register_def Let_def respond_eqs handler_change_out
        split: sum.split intro!: change_post remote_task.intros dest: requiredRPCServiceLocation_Inr)
  moreover have "handler_change s n (handle_unregister env s c r payload n)"
    if "registeredRemoteNode s n = Inr r" for r payload
    using reg [OF that]
    by (auto simp: handle_unregister_def Let_def respond_eqs handler_change_out
        split: sum.split intro!: change_post remote_task.intros)
  moreover have "handler_change s n (handle_subscribe env s c r payload n)"
    if "registeredRemoteNode s n = Inr r" for r payload
    using reg [OF that]
    by (auto simp: handle_subscribe_def Let_def respond_eqs handler_change_out
        split: sum.split intro!: change_post remote_task.intros)
  moreover have "handler_change s n (handle_heartbeat env s c payload n)" for payload
    by (auto simp: handle_heartbeat_def respond_eqs handler_change_out refreshRemoteHeartbeat_def
        armRemoteNodeTimeout_def split: sum.split intro: change_arm)
  moreover have "handler_change s n (handle_lookup env s c payload n)" for payload
    by (auto simp: handle_lookup_def Let_def respond_eqs handler_change_out split: sum.split option.split)
  ultimately show ?thesis
    by (auto simp: handleRPCRequest_def respond_eqs handler_change_out handleRegisterNode_change
        handle_deliver_change split: sum.split)
qed

end
