(* ===== verification/Node_Invariants.thy ===== *)
theory Node_Invariants
  imports Node_Effects
begin

text \<open>
  The invariants of a node's server side over all interleavings of its goroutines: the table of
  remote nodes is consistent, dead sessions hold no timer, the registry and the subscription
  index stay well formed and in step, and no service outlives its node.
\<close>

section \<open>The table of remote nodes\<close>

type_synonym remote_table = "(int, session) gomap"
type_synonym session_table = "(session, RemoteNode) gomap"

text \<open>The remote node \<open>r\<close> carries an id and address that the configuration knows.\<close>

definition configured :: "int \<Rightarrow> Config \<Rightarrow> RemoteNode \<Rightarrow> bool" where
  "configured me cfg r \<longleftrightarrow> 0 < rm_id r \<and> rm_id r \<noteq> me \<and>
     (\<exists>c. Config_Node (Some cfg) (rm_id r) = Some c \<and> rm_addr r = nc_ListenAddr c)"

definition session_inv ::
    "int \<Rightarrow> Config \<Rightarrow> remote_table \<Rightarrow> session set \<Rightarrow> session \<Rightarrow> RemoteNode \<Rightarrow> bool" where
  "session_inv me cfg tab rem s r \<longleftrightarrow> rm_session r = s \<and>
     (rm_id r \<noteq> 0 \<longrightarrow> configured me cfg r) \<and>
     (rm_id r \<noteq> 0 \<longrightarrow> rm_active r \<longrightarrow> go_get tab (rm_id r) = Some s) \<and>
     (\<not> rm_active r \<longrightarrow> go_get tab (rm_id r) = Some s \<longrightarrow> s \<in> rem)"

definition table_inv ::
    "int \<Rightarrow> Config \<Rightarrow> remote_table \<Rightarrow> session_table \<Rightarrow> session set \<Rightarrow> bool" where
  "table_inv me cfg tab ses rem \<longleftrightarrow> go_wf tab \<and>
     (\<forall>i s. go_get tab i = Some s \<longrightarrow> i \<noteq> 0 \<and> (\<exists>r. go_get ses s = Some r \<and> rm_id r = i)) \<and>
     (\<forall>s r. go_get ses s = Some r \<longrightarrow> session_inv me cfg tab rem s r) \<and>
     (\<forall>s \<in> rem. \<exists>r. go_get ses s = Some r \<and> \<not> rm_active r)"

definition table_ok :: "server_node \<Rightarrow> bool" where
  "table_ok n \<longleftrightarrow> table_inv (n_id n) (n_config n) (n_remoteNodes n) (n_sessions n) (fst ` set (n_removing n))"

lemma table_invD:
  assumes "table_inv me cfg tab ses rem"
  shows "go_get tab i = Some s \<Longrightarrow> i \<noteq> 0 \<and> (\<exists>r. go_get ses s = Some r \<and> rm_id r = i)"
    and "go_get ses s = Some r \<Longrightarrow> session_inv me cfg tab rem s r"
    and "s \<in> rem \<Longrightarrow> \<exists>r. go_get ses s = Some r \<and> \<not> rm_active r"
    and "go_wf tab"
  using assms unfolding table_inv_def by blast+

lemma table_invI:
  assumes "go_wf tab"
    and "\<And>i s. go_get tab i = Some s \<Longrightarrow> i \<noteq> 0 \<and> (\<exists>r. go_get ses s = Some r \<and> rm_id r = i)"
    and "\<And>s r. go_get ses s = Some r \<Longrightarrow> session_inv me cfg tab rem s r"
    and "\<And>s. s \<in> rem \<Longrightarrow> \<exists>r. go_get ses s = Some r \<and> \<not> rm_active r"
  shows "table_inv me cfg tab ses rem"
  using assms unfolding table_inv_def by blast

lemma session_inv_mono:
  "session_inv me cfg tab rem s r \<Longrightarrow> rem \<subseteq> rem' \<Longrightarrow> session_inv me cfg tab rem' s r"
  by (auto simp: session_inv_def)

text \<open>Replacing the remote node of a session by one with the same id.\<close>

lemma table_put:
  assumes "table_inv me cfg tab ses rem" "go_get ses s = Some r" "rm_id r' = rm_id r"
    "session_inv me cfg tab rem' s r'" "rem \<subseteq> rem'" "rem' \<subseteq> insert s rem"
    "s \<in> rem' \<longrightarrow> \<not> rm_active r'"
  shows "table_inv me cfg tab (go_put s r' ses) rem'"
proof (rule table_invI)
  note ok = table_invD [OF assms(1)]
  show "go_wf tab" by (rule ok(4))
  show "i \<noteq> 0 \<and> (\<exists>x. go_get (go_put s r' ses) t = Some x \<and> rm_id x = i)" if "go_get tab i = Some t" for i t
    using ok(1) [OF that] assms(2,3) by auto
  show "session_inv me cfg tab rem' t x" if "go_get (go_put s r' ses) t = Some x" for t x
  proof (cases "t = s")
    case False
    with that have "go_get ses t = Some x" by simp
    from session_inv_mono [OF ok(2) [OF this] assms(5)] show ?thesis .
  qed (use that assms(4) in simp)
  show "\<exists>x. go_get (go_put s r' ses) t = Some x \<and> \<not> rm_active x" if "t \<in> rem'" for t
  proof (cases "t = s")
    case False
    with that assms(6) ok(3) [of t] show ?thesis by auto
  qed (use that assms(7) in simp)
qed

lemma table_timer:
  assumes "table_inv me cfg tab ses rem" "go_get ses s = Some r"
  shows "table_inv me cfg tab (go_put s (r\<lparr>rm_timer := b\<rparr>) ses) rem"
proof (rule table_put [OF assms])
  show "session_inv me cfg tab rem s (r\<lparr>rm_timer := b\<rparr>)"
    using table_invD(2) [OF assms] by (simp add: session_inv_def configured_def)
  show "s \<in> rem \<longrightarrow> \<not> rm_active (r\<lparr>rm_timer := b\<rparr>)"
    using table_invD(3) [OF assms(1), of s] assms(2) by auto
qed auto

lemma table_swap:
  assumes "table_inv me cfg tab ses rem" "go_get ses s = Some r"
  shows "table_inv me cfg tab (go_put s (r\<lparr>rm_active := False\<rparr>) ses) (insert s rem)"
proof (rule table_put [OF assms])
  show "session_inv me cfg tab (insert s rem) s (r\<lparr>rm_active := False\<rparr>)"
    using table_invD(2) [OF assms] by (simp add: session_inv_def configured_def)
qed auto

lemma table_accept:
  assumes "table_inv me cfg tab ses rem" "go_get ses s = None" "rm_id r = 0" "rm_session r = s"
    "rm_active r"
  shows "table_inv me cfg tab (go_put s r ses) rem"
proof (rule table_invI)
  note ok = table_invD [OF assms(1)]
  show "go_wf tab" by (rule ok(4))
  show "i \<noteq> 0 \<and> (\<exists>x. go_get (go_put s r ses) t = Some x \<and> rm_id x = i)" if "go_get tab i = Some t" for i t
    using ok(1) [OF that] assms(2) by auto
  show "session_inv me cfg tab rem t x" if "go_get (go_put s r ses) t = Some x" for t x
    using that assms(3-5) ok(2) [of t x] by (cases "t = s") (auto simp: session_inv_def)
  show "\<exists>x. go_get (go_put s r ses) t = Some x \<and> \<not> rm_active x" if "t \<in> rem" for t
    using ok(3) [OF that] assms(2) by auto
qed

lemma table_link:
  assumes "table_inv me cfg tab ses rem" "go_get ses s = Some r" "rm_active r" "rm_id r = 0" "0 < i"
    "i \<noteq> me" "go_get tab i = None" "Config_Node (Some cfg) i = Some c"
  shows "table_inv me cfg (go_put i s tab)
     (go_put s (r\<lparr>rm_id := i, rm_addr := nc_ListenAddr c\<rparr>) ses) rem"
proof (rule table_invI)
  note ok = table_invD [OF assms(1)]
  show "go_wf (go_put i s tab)" using ok(4) by simp
  show "j \<noteq> 0 \<and> (\<exists>r'. go_get (go_put s (r\<lparr>rm_id := i, rm_addr := nc_ListenAddr c\<rparr>) ses) s' = Some r' \<and>
      rm_id r' = j)" if "go_get (go_put i s tab) j = Some s'" for j s'
    using that assms(2,4,5) ok(1) [of j s'] by (auto split: if_splits)
  show "session_inv me cfg (go_put i s tab) rem s' r'"
    if "go_get (go_put s (r\<lparr>rm_id := i, rm_addr := nc_ListenAddr c\<rparr>) ses) s' = Some r'" for s' r'
    using that assms(3-8) ok(2) [OF assms(2)] ok(2) [of s' r']
    by (auto simp: session_inv_def configured_def split: if_splits)
  show "\<exists>r'. go_get (go_put s (r\<lparr>rm_id := i, rm_addr := nc_ListenAddr c\<rparr>) ses) s' = Some r' \<and>
      \<not> rm_active r'" if "s' \<in> rem" for s'
    using ok(3) [OF that] assms(2,3) by auto
qed

lemma table_unlink:
  assumes "table_inv me cfg tab ses rem" "go_get ses s = Some r" "\<not> rm_active r"
    "rem' \<subseteq> rem" "rem \<subseteq> insert s rem'"
    "tab' = (if rm_id r \<noteq> 0 \<and> go_get tab (rm_id r) = Some s then go_del (rm_id r) tab else tab)"
  shows "table_inv me cfg tab' ses rem'"
proof (rule table_invI)
  note ok = table_invD [OF assms(1)]
  show "go_wf tab'" using ok(4) assms(6) by simp
  show "j \<noteq> 0 \<and> (\<exists>r'. go_get ses s' = Some r' \<and> rm_id r' = j)" if "go_get tab' j = Some s'" for j s'
    using that assms(6) ok(1) [of j s'] by (auto split: if_splits)
  show "session_inv me cfg tab' rem' s' r'" if "go_get ses s' = Some r'" for s' r'
  proof (cases "s' = s")
    case True
    with that assms(2) have "r' = r" by simp
    with True ok(2) [OF that] ok(1) [of 0 s] assms(3,5,6) show ?thesis by (auto simp: session_inv_def split: if_splits)
  next
    case False
    with ok(2) [OF that] ok(1) [of "rm_id r'" s'] that assms(2,5,6) show ?thesis
      by (auto simp: session_inv_def split: if_splits)
  qed
  show "\<exists>r'. go_get ses s' = Some r' \<and> \<not> rm_active r'" if "s' \<in> rem'" for s'
    using ok(3) that assms(4) by blast
qed

lemma arm_start_Some:
  "arm_start s n = Some m \<Longrightarrow> \<exists>r. go_get (n_sessions n) s = Some r \<and> rm_active r \<and>
     m = n\<lparr>n_sessions := go_put s (r\<lparr>rm_timer := True\<rparr>) (n_sessions n)\<rparr>"
  by (auto simp: arm_start_def set_remote_def split: option.splits if_splits)

text \<open>The beginning of a task either ends it with an error or leaves it running.\<close>

lemma task_begin_cases:
  obtains (ended) xs where "quiet xs" "task_begin env task n = out xs n" "\<And>i. task \<noteq> NodeGoneTask i"
  | (running) "task_begin env task n = n\<lparr>n_running := Some task\<rparr>" "\<And>s. task \<noteq> ArmTask s"
      "\<And>s c p i l. task = RegisterTask s c p i l \<Longrightarrow> remoteNodeIsCurrent s p n"
  | (armed) s m where "task = ArmTask s" "arm_start s n = Some m"
      "task_begin env task n = m\<lparr>n_running := Some task\<rparr>"
proof (cases task)
  case (ArmTask s)
  show ?thesis
  proof (cases "arm_start s n")
    case None
    with ArmTask show ?thesis by (intro ended [of "[]"]) (simp_all add: task_begin_def)
  next
    case (Some m)
    with ArmTask show ?thesis by (intro armed [OF ArmTask Some]) (simp add: task_begin_def)
  qed
next
  case (RegisterTask s c p i l)
  note eqs = task_begin_def task_current_def respondRPCError_eq
  show ?thesis
  proof (cases "remoteNodeIsCurrent s p n")
    case True
    with RegisterTask show ?thesis by (intro running) (simp_all add: eqs)
  next
    case False
    with RegisterTask show ?thesis by (intro ended) (simp_all add: eqs)
  qed
next
  case (UnregisterTask s c p i k)
  note eqs = task_begin_def task_current_def respondRPCError_eq
  show ?thesis
  proof (cases "remoteNodeIsCurrent s p n")
    case True
    with UnregisterTask show ?thesis by (intro running) (simp_all add: eqs)
  next
    case False
    with UnregisterTask show ?thesis by (intro ended) (simp_all add: eqs)
  qed
next
  case (SubscribeTask s c p i k nm)
  note eqs = task_begin_def task_current_def respondRPCError_eq
  show ?thesis
  proof (cases "remoteNodeIsCurrent s p n")
    case True
    with SubscribeTask show ?thesis by (intro running) (simp_all add: eqs)
  next
    case False
    with SubscribeTask show ?thesis by (intro ended) (simp_all add: eqs)
  qed
next
  case (NodeGoneTask i)
  then show ?thesis by (intro running) (simp_all add: task_begin_def)
next
  case (LocalRegisterTask k)
  then show ?thesis by (intro running) (simp_all add: task_begin_def)
next
  case (LocalUnregisterTask k)
  then show ?thesis by (intro running) (simp_all add: task_begin_def)
next
  case (LocalSubscribeTask k nm)
  then show ?thesis by (intro running) (simp_all add: task_begin_def)
qed

text \<open>The fields after the second part of \<^verbatim>\<open>removeRemoteNode\<close>.\<close>

lemma unlink_fields:
  assumes "go_get (n_sessions n) s = Some r"
    "found \<longleftrightarrow> rm_id r \<noteq> 0 \<and> go_get (n_remoteNodes n) (rm_id r) = Some s"
  shows "n_sessions (removeRemoteNode_unlink s c n) = go_put s (r\<lparr>rm_timer := False\<rparr>) (n_sessions n)"
    and "n_remoteNodes (removeRemoteNode_unlink s c n) =
      (if found then go_del (rm_id r) (n_remoteNodes n) else n_remoteNodes n)"
    and "n_posting (removeRemoteNode_unlink s c n) =
      (if found \<and> IsMainNode n then n_posting n @ [NodeGoneTask (rm_id r)] else n_posting n)"
    and "n_id (removeRemoteNode_unlink s c n) = n_id n"
    and "n_mainNodeID (removeRemoteNode_unlink s c n) = n_mainNodeID n"
    and "n_config (removeRemoteNode_unlink s c n) = n_config n"
    and "n_removing (removeRemoteNode_unlink s c n) = n_removing n"
    and "n_control (removeRemoteNode_unlink s c n) = n_control n"
    and "n_running (removeRemoteNode_unlink s c n) = n_running n"
    and "n_registry (removeRemoteNode_unlink s c n) = n_registry n"
    and "n_subscriptions (removeRemoteNode_unlink s c n) = n_subscriptions n"
    and "n_out (removeRemoteNode_unlink s c n) = n_out n @ (if c then [CloseSession s] else [])"
  using assms
  by (simp_all add: removeRemoteNode_unlink_def Let_def set_remote_def post_control_def emit_def
      IsMainNode_def)

lemma commit_change:
  "\<not> (\<exists>s. task = ArmTask s) \<Longrightarrow>
     \<exists>m xs ys. registry_change env task n m xs \<and> quiet ys \<and> task_commit env task n = out (xs @ ys) m"
  by (rule task_commit_change [of task env n]) auto

lemma table_ok_handler: "table_ok n \<Longrightarrow> handler_change s n m \<Longrightarrow> table_ok m"
  by (erule handler_change.cases) (auto simp: table_ok_def post_control_def table_link)

lemma table_ok_step:
  assumes "table_ok n" "server_step env n e m"
  shows "table_ok m"
  using assms(2)
proof (cases rule: server_step.cases)
  case (step_Accept s)
  with assms(1) show ?thesis
    by (simp add: table_ok_def onAccept_def armRemoteNodeTimeout_def post_control_def set_remote_def
        table_accept)
next
  case (step_Request s c rpk pick)
  with table_ok_handler [OF assms(1) handleRPCRequest_change] show ?thesis by simp
next
  case (step_Direct s rpk pick)
  with table_ok_handler [OF assms(1) handleRPCDirect_change] show ?thesis by simp
next
  case (step_SessionClosed s)
  with assms(1) show ?thesis
    by (auto simp: table_ok_def removeRemoteNode_swap_def remoteNodeFromSession_def set_remote_def
        table_swap split: option.split)
next
  case (step_HeartbeatExpired s)
  with assms(1) show ?thesis
    by (auto simp: table_ok_def removeRemoteNode_swap_def remoteNodeFromSession_def set_remote_def
        table_swap split: option.split)
next
  case (step_Unlink i s c)
  let ?rem = "fst ` set (n_removing n)" and ?rem' = "fst ` set (drop_nth i (n_removing n))"
  from drop_nth_set [OF step_Unlink(3)] step_Unlink(4) have rem: "?rem = insert s ?rem'" by simp
  then have "s \<in> ?rem" by simp
  with table_invD(3) assms(1) obtain r where
    r: "go_get (n_sessions n) s = Some r" "\<not> rm_active r" unfolding table_ok_def by blast
  have "table_inv (n_id n) (n_config n)
      (if rm_id r \<noteq> 0 \<and> go_get (n_remoteNodes n) (rm_id r) = Some s
       then go_del (rm_id r) (n_remoteNodes n) else n_remoteNodes n)
      (go_put s (r\<lparr>rm_timer := False\<rparr>) (n_sessions n)) ?rem'"
    using assms(1) r rem unfolding table_ok_def
    by (intro table_timer [OF table_unlink]) auto
  then show ?thesis
    using unlink_fields(1,2,4,6,7) [of "n\<lparr>n_removing := drop_nth i (n_removing n)\<rparr>" s r, OF _ refl] r
    by (auto simp: table_ok_def step_Unlink(2) split: if_split_asm)
next
  case (step_TaskBegin task rest)
  let ?n = "n\<lparr>n_control := rest\<rparr>"
  show ?thesis
  proof (cases rule: task_begin_cases [of env task ?n])
    case (armed s m')
    with assms(1) step_TaskBegin(2) show ?thesis
      by (auto simp: table_ok_def table_timer dest!: arm_start_Some)
  qed (use assms(1) step_TaskBegin(2) in \<open>auto simp: table_ok_def\<close>)
next
  case (step_TaskCommit task)
  show ?thesis
  proof (cases "\<exists>s. task = ArmTask s")
    case True
    with assms(1) step_TaskCommit(2) show ?thesis
      by (auto simp: table_ok_def task_commit_def arm_recheck_def set_remote_def table_timer
          split: option.split)
  next
    case False
    then obtain k xs ys where "registry_change env task n k xs" "quiet ys" "task_commit env task n = out (xs @ ys) k"
      using commit_change [of task env n] by blast
    with assms(1) step_TaskCommit(2) show ?thesis
      by (auto simp: table_ok_def unregister_state_def drop_subscribers_def subscribe_state_def
          elim!: registry_change.cases)
  qed
qed (use assms(1) in \<open>auto simp: table_ok_def post_control_def\<close>)

section \<open>Timers\<close>

text \<open>A started timer of a dead session is about to be stopped.\<close>

definition timer_ok :: "server_node \<Rightarrow> bool" where
  "timer_ok n \<longleftrightarrow>
     (\<forall>s r. go_get (n_sessions n) s = Some r \<longrightarrow> rm_timer r \<longrightarrow> \<not> rm_active r \<longrightarrow>
        s \<in> fst ` set (n_removing n) \<or> n_running n = Some (ArmTask s))"

lemma timer_ok_handler: "timer_ok n \<Longrightarrow> handler_change s n m \<Longrightarrow> timer_ok m"
  by (erule handler_change.cases) (auto simp: timer_ok_def post_control_def split: if_splits)

lemma timer_ok_swap: "timer_ok n \<Longrightarrow> timer_ok (removeRemoteNode_swap s c n)"
  by (auto simp: timer_ok_def removeRemoteNode_swap_def remoteNodeFromSession_def set_remote_def
      split: option.splits if_splits)

lemma registry_change_frame:
  assumes "registry_change env task n m xs"
  shows "n_sessions m = n_sessions n" "n_remoteNodes m = n_remoteNodes n" "n_removing m = n_removing n"
    "n_posting m = n_posting n" "n_control m = n_control n" "n_running m = n_running n"
    "n_id m = n_id n" "n_mainNodeID m = n_mainNodeID n" "n_config m = n_config n" "n_out m = n_out n"
    "n_localServices m = n_localServices n"
  using assms
  by (auto simp: unregister_state_def drop_subscribers_def subscribe_state_def
      elim!: registry_change.cases)

lemma timer_ok_step:
  assumes "table_ok n" "timer_ok n" "server_step env n e m"
  shows "timer_ok m"
  using assms(3)
proof (cases rule: server_step.cases)
  case (step_Accept s)
  with assms(2) show ?thesis
    by (auto simp: timer_ok_def onAccept_def armRemoteNodeTimeout_def post_control_def set_remote_def)
next
  case (step_Request s c rpk pick)
  with timer_ok_handler [OF assms(2) handleRPCRequest_change] show ?thesis by simp
next
  case (step_Direct s rpk pick)
  with timer_ok_handler [OF assms(2) handleRPCDirect_change] show ?thesis by simp
next
  case (step_Unlink i s c)
  from drop_nth_set [OF step_Unlink(3)] step_Unlink(4)
  have rem: "fst ` set (n_removing n) = insert s (fst ` set (drop_nth i (n_removing n)))" by simp
  then have "s \<in> fst ` set (n_removing n)" by simp
  with table_invD(3) assms(1) obtain r where
    r: "go_get (n_sessions n) s = Some r" unfolding table_ok_def by blast
  with assms(2) rem show ?thesis
    using unlink_fields(1,7,9) [of "n\<lparr>n_removing := drop_nth i (n_removing n)\<rparr>" s r, OF _ refl]
    by (auto simp: timer_ok_def step_Unlink(2) split: if_splits)
next
  case (step_TaskBegin task rest)
  show ?thesis
  proof (cases rule: task_begin_cases [of env task "n\<lparr>n_control := rest\<rparr>"])
    case (armed s m')
    with assms(2) step_TaskBegin(2,3) show ?thesis
      by (fastforce simp: timer_ok_def dest!: arm_start_Some split: if_splits)
  qed (use assms(2) step_TaskBegin(2,3) in \<open>auto simp: timer_ok_def\<close>)
next
  case (step_TaskCommit task)
  show ?thesis
  proof (cases "\<exists>s. task = ArmTask s")
    case True
    with assms(2) step_TaskCommit(2,3) show ?thesis
      by (fastforce simp: timer_ok_def task_commit_def arm_recheck_def set_remote_def
          split: option.split if_splits)
  next
    case False
    then obtain k xs ys where k: "registry_change env task n k xs" "task_commit env task n = out (xs @ ys) k"
      using commit_change [of task env n] by blast
    with assms(2) step_TaskCommit(2,3) False registry_change_frame [OF k(1)] show ?thesis
      by (auto simp: timer_ok_def)
  qed
qed (use assms(2) timer_ok_swap in \<open>auto simp: timer_ok_def post_control_def\<close>)

section \<open>Pending tasks\<close>

definition pending :: "server_node \<Rightarrow> control_task set" where
  "pending n = set (n_posting n) \<union> set (n_control n) \<union> set_option (n_running n)"

text \<open>What a closure has captured fits the session it was made for.\<close>

definition task_ok :: "server_node \<Rightarrow> control_task \<Rightarrow> bool" where
  "task_ok n task \<longleftrightarrow>
     (case task of
        RegisterTask s c p i l \<Rightarrow> IsMainNode n \<and> p = s \<and> NodeID l = i \<and> valid_location l \<and> i \<noteq> 0 \<and>
          (\<exists>r. go_get (n_sessions n) s = Some r \<and> rm_id r = i \<and> NodeAddr l = rm_addr r)
      | NodeGoneTask i \<Rightarrow> IsMainNode n
      | ArmTask s \<Rightarrow> True
      | _ \<Rightarrow> IsMainNode n)"

definition tasks_ok :: "server_node \<Rightarrow> bool" where
  "tasks_ok n \<longleftrightarrow> (\<forall>task \<in> pending n. task_ok n task)"

text \<open>A session keeps its id and address once it has them.\<close>

definition sessions_grow :: "server_node \<Rightarrow> server_node \<Rightarrow> bool" where
  "sessions_grow n m \<longleftrightarrow> n_id m = n_id n \<and> n_mainNodeID m = n_mainNodeID n \<and> n_config m = n_config n \<and>
     (\<forall>s r. go_get (n_sessions n) s = Some r \<longrightarrow> rm_id r \<noteq> 0 \<longrightarrow>
        (\<exists>r'. go_get (n_sessions m) s = Some r' \<and> rm_id r' = rm_id r \<and> rm_addr r' = rm_addr r))"

lemma task_ok_grow: "task_ok n task \<Longrightarrow> sessions_grow n m \<Longrightarrow> task_ok m task"
  unfolding task_ok_def sessions_grow_def IsMainNode_def
  by (cases task) (simp_all, metis)

lemma tasks_okI:
  assumes "tasks_ok n" "sessions_grow n m" "\<And>t. t \<in> pending m \<Longrightarrow> t \<in> pending n \<or> task_ok m t"
  shows "tasks_ok m"
  using assms task_ok_grow unfolding tasks_ok_def by blast

lemma sessions_grow_refl [simp]:
  "n_id m = n_id n \<Longrightarrow> n_mainNodeID m = n_mainNodeID n \<Longrightarrow> n_config m = n_config n \<Longrightarrow>
   n_sessions m = n_sessions n \<Longrightarrow> sessions_grow n m"
  by (simp add: sessions_grow_def)

lemma sessions_grow_put:
  "n_id m = n_id n \<Longrightarrow> n_mainNodeID m = n_mainNodeID n \<Longrightarrow> n_config m = n_config n \<Longrightarrow>
   n_sessions m = go_put s r' (n_sessions n) \<Longrightarrow> go_get (n_sessions n) s = Some r \<Longrightarrow>
   (rm_id r \<noteq> 0 \<longrightarrow> rm_id r' = rm_id r \<and> rm_addr r' = rm_addr r) \<Longrightarrow> sessions_grow n m"
  by (auto simp: sessions_grow_def)

text \<open>The session of an entry of \<open>n_removing\<close>.\<close>

lemma removing_session:
  assumes "table_ok n" "i < length (n_removing n)" "n_removing n ! i = (s, c)"
  obtains r where "go_get (n_sessions n) s = Some r" "\<not> rm_active r"
proof -
  from assms(2,3) have "s \<in> fst ` set (n_removing n)" by (metis fst_conv image_eqI nth_mem)
  with assms(1) that table_invD(3) show ?thesis unfolding table_ok_def by blast
qed

lemma sessions_grow_step:
  assumes "table_ok n" "server_step env n e m"
  shows "sessions_grow n m"
  using assms(2)
proof (cases rule: server_step.cases)
  case (step_Accept s)
  then show ?thesis
    by (auto simp: sessions_grow_def onAccept_def armRemoteNodeTimeout_def post_control_def set_remote_def)
next
  case (step_Request s c rpk pick)
  from handleRPCRequest_change [of s n env pick c rpk] show ?thesis
    unfolding step_Request(2)
    by (cases rule: handler_change.cases) (auto simp: post_control_def sessions_grow_def)
next
  case (step_Direct s rpk pick)
  from handleRPCDirect_change [of s n env pick rpk] show ?thesis
    unfolding step_Direct(2)
    by (cases rule: handler_change.cases) (auto simp: post_control_def sessions_grow_def)
next
  case (step_SessionClosed s)
  then show ?thesis
    by (auto simp: removeRemoteNode_swap_def remoteNodeFromSession_def set_remote_def sessions_grow_def
        split: option.split)
next
  case (step_HeartbeatExpired s)
  then show ?thesis
    by (auto simp: removeRemoteNode_swap_def remoteNodeFromSession_def set_remote_def sessions_grow_def
        split: option.split)
next
  case (step_Unlink i s c)
  obtain r where r: "go_get (n_sessions n) s = Some r"
    using removing_session [OF assms(1) step_Unlink(3,4)] by blast
  with unlink_fields(1,4,5,6) [of "n\<lparr>n_removing := drop_nth i (n_removing n)\<rparr>" s r, OF _ refl]
  show ?thesis by (intro sessions_grow_put [of m n s "r\<lparr>rm_timer := False\<rparr>" r]) (simp_all add: step_Unlink(2))
next
  case (step_TaskBegin task rest)
  show ?thesis
  proof (cases rule: task_begin_cases [of env task "n\<lparr>n_control := rest\<rparr>"])
    case (armed s m')
    with step_TaskBegin(2) show ?thesis by (auto simp: sessions_grow_def dest!: arm_start_Some)
  qed (use step_TaskBegin(2) in auto)
next
  case (step_TaskCommit task)
  show ?thesis
  proof (cases "\<exists>s. task = ArmTask s")
    case True
    with step_TaskCommit(2) show ?thesis
      by (auto simp: task_commit_def arm_recheck_def set_remote_def sessions_grow_def split: option.split)
  next
    case False
    then obtain k xs ys where k: "registry_change env task n k xs" "task_commit env task n = out (xs @ ys) k"
      using commit_change [of task env n] by blast
    with step_TaskCommit(2) registry_change_frame [OF k(1)] show ?thesis by simp
  qed
qed (auto simp: post_control_def)

text \<open>The tasks that are pending after a step were pending before, or are new.\<close>

lemma pending_handler:
  assumes "table_ok n" "handler_change s n m" "t \<in> pending m"
  shows "t \<in> pending n \<or> task_ok n t"
  using assms(2,3)
proof (cases rule: handler_change.cases)
  case (change_post r t')
  from table_invD(2) assms(1) change_post(2)
  have "session_inv (n_id n) (n_config n) (n_remoteNodes n) (fst ` set (n_removing n)) s r"
    unfolding table_ok_def by blast
  with change_post assms(3) show ?thesis
    by (auto simp: pending_def post_control_def task_ok_def linked_def elim!: remote_task.cases)
qed (auto simp: pending_def post_control_def task_ok_def)

lemma pending_new:
  assumes "table_ok n" "server_step env n e m" "t \<in> pending m" "t \<notin> pending n"
  shows "(\<exists>s. t = ArmTask s) \<or> (\<exists>i. t = NodeGoneTask i \<and> IsMainNode n) \<or> (e = LocalCall t \<and> local_task t \<and> IsMainNode n) \<or>
    (\<exists>s c rpk pick. e = Request s c rpk pick) \<or> (\<exists>s rpk pick. e = Direct s rpk pick)"
  using assms(2)
proof (cases rule: server_step.cases)
  case (step_Unlink i s c)
  obtain r where r: "go_get (n_sessions n) s = Some r"
    using removing_session [OF assms(1) step_Unlink(3,4)] by blast
  with unlink_fields(3,8,9) [of "n\<lparr>n_removing := drop_nth i (n_removing n)\<rparr>" s r, OF _ refl] assms(3,4)
  show ?thesis by (auto simp: pending_def step_Unlink(2) IsMainNode_def split: if_splits)
next
  case (step_Enqueue i)
  with drop_nth_set [OF step_Enqueue(3)] assms(3,4) show ?thesis by (auto simp: pending_def)
next
  case (step_TaskBegin task rest)
  show ?thesis
  proof (cases rule: task_begin_cases [of env task "n\<lparr>n_control := rest\<rparr>"])
    case (armed s m')
    with step_TaskBegin assms(3,4) show ?thesis by (auto simp: pending_def dest!: arm_start_Some)
  qed (use step_TaskBegin assms(3,4) in \<open>auto simp: pending_def\<close>)
next
  case (step_TaskCommit task)
  show ?thesis
  proof (cases "\<exists>s. task = ArmTask s")
    case True
    with step_TaskCommit assms(3,4) show ?thesis
      by (auto simp: pending_def task_commit_def arm_recheck_def set_remote_def split: option.splits if_splits)
  next
    case False
    then obtain k xs ys where k: "registry_change env task n k xs" "task_commit env task n = out (xs @ ys) k"
      using commit_change [of task env n] by blast
    with step_TaskCommit(2) registry_change_frame [OF k(1)] assms(3,4) show ?thesis
      by (auto simp: pending_def)
  qed
qed (use assms(3,4) in \<open>auto simp: pending_def onAccept_def armRemoteNodeTimeout_def post_control_def
      set_remote_def removeRemoteNode_swap_def remoteNodeFromSession_def split: option.splits if_splits\<close>)

lemma pending_step:
  assumes "table_ok n" "server_step env n e m" "t \<in> pending m"
  shows "t \<in> pending n \<or> task_ok n t"
proof (cases "t \<in> pending n")
  case False
  from assms(2) show ?thesis
  proof (cases rule: server_step.cases)
    case (step_Request s c rpk pick)
    with pending_handler [OF assms(1) handleRPCRequest_change] assms(3) show ?thesis by blast
  next
    case (step_Direct s rpk pick)
    with pending_handler [OF assms(1) handleRPCDirect_change] assms(3) show ?thesis by blast
  qed (use pending_new [OF assms False] in \<open>auto simp: task_ok_def local_task_def split: control_task.splits\<close>)
qed simp

lemma tasks_ok_step:
  assumes "table_ok n" "tasks_ok n" "server_step env n e m"
  shows "tasks_ok m"
  using pending_step [OF assms(1,3)] task_ok_grow [OF _ sessions_grow_step [OF assms(1,3)]]
  by (intro tasks_okI [OF assms(2) sessions_grow_step [OF assms(1,3)]]) blast

section \<open>The registry and the subscriptions\<close>

definition registry_ok :: "server_node \<Rightarrow> bool" where
  "registry_ok n \<longleftrightarrow> registry_inv (n_registry n) \<and> index_inv (n_subscriptions n) \<and>
     (\<forall>k nm. (k, nm) \<in> index_rel (n_subscriptions n) \<longrightarrow> registry_Lookup (n_registry n) k \<noteq> None)"

lemma registry_okD:
  assumes "registry_ok n"
  shows "registry_inv (n_registry n)" "index_inv (n_subscriptions n)"
    "(k, nm) \<in> index_rel (n_subscriptions n) \<Longrightarrow> registry_Lookup (n_registry n) k \<noteq> None"
  using assms unfolding registry_ok_def by blast+

lemma registry_ok_cong:
  "n_registry m = n_registry n \<Longrightarrow> n_subscriptions m = n_subscriptions n \<Longrightarrow> registry_ok m = registry_ok n"
  by (simp add: registry_ok_def)

lemma set_serviceKeysForNode:
  "registry_inv (n_registry n) \<Longrightarrow>
     set (serviceKeysForNode i n) = {k. \<exists>l. registry_Lookup (n_registry n) k = Some l \<and> NodeID l = i}"
  using mem.set_keys_where [of "n_registry n" "\<lambda>l. NodeID l = i"]
  by (simp add: serviceKeysForNode_def sortServiceKeys_def mem.keys_where_def)

lemma set_serviceSnapshot:
  assumes "registry_inv (n_registry n)"
  shows "set (serviceSnapshot nm n) = {k. registry_Lookup (n_registry n) k \<noteq> None \<and> key_Name k = nm}"
proof -
  have "set (serviceSnapshot nm n) = {k. \<exists>l. registry_Lookup (n_registry n) k = Some l \<and> ServiceName l = nm}"
    using mem.set_keys_where [OF assms, of "\<lambda>l. ServiceName l = nm"]
    by (simp add: serviceSnapshot_def sortServiceKeys_def mem.keys_where_def)
  also have "\<dots> = {k. registry_Lookup (n_registry n) k \<noteq> None \<and> key_Name k = nm}"
    using mem.inv_key [OF assms] by (fastforce simp: location_Key_def)
  finally show ?thesis .
qed

text \<open>Removing services from the registry together with the subscriptions they made.\<close>

lemma registry_ok_remove:
  assumes "registry_ok n" "registry_inv r"
    "\<And>k. registry_Lookup r k = None \<Longrightarrow> registry_Lookup (n_registry n) k = None \<or> k \<in> set ks"
  shows "registry_ok (unregister_state ks r n)"
  using assms registry_okD [OF assms(1)]
  by (fastforce simp: registry_ok_def unregister_state_def drop_subscribers_def ix.inv_remove_all
      ix.rel_remove_all)

lemma registry_ok_change:
  assumes "registry_ok n" "registry_change env task n m xs"
  shows "registry_ok m"
  using assms(2)
proof (cases rule: registry_change.cases)
  case (change_register l r)
  with registry_okD [OF assms(1)] show ?thesis
    by (auto simp: registry_ok_def mem.Lookup_Register [OF change_register(2)]
        intro: mem.inv_Register [OF _ change_register(2)])
next
  case (change_unregister k i r)
  have "registry_ok (unregister_state [k] r n)"
    by (rule registry_ok_remove [OF assms(1) mem.inv_Unregister [OF registry_okD(1) [OF assms(1)] change_unregister(2)]])
      (auto simp: mem.Lookup_Unregister [OF change_unregister(2)] split: if_splits)
  with change_unregister show ?thesis by simp
next
  case (change_node_gone i)
  note inv = registry_okD(1) [OF assms(1)]
  have "registry_ok (unregister_state (serviceKeysForNode i n) (registry_UnregisterNode i (n_registry n)) n)"
    by (rule registry_ok_remove [OF assms(1) mem.inv_UnregisterNode [OF inv]])
      (auto simp: mem.Lookup_UnregisterNode [OF inv] set_serviceKeysForNode [OF inv]
        split: option.splits if_splits)
  with change_node_gone show ?thesis by simp
next
  case (change_subscribe k nm)
  with registry_okD [OF assms(1)] show ?thesis
    by (auto simp: registry_ok_def subscribe_state_def ix.inv_subscribe ix.rel_subscribe)
qed (use assms(1) in auto)

text \<open>Only the commit of a task touches the registry and the index.\<close>

lemma registry_step:
  assumes "table_ok n" "server_step env n e m"
  shows "(n_registry m = n_registry n \<and> n_subscriptions m = n_subscriptions n) \<or>
     (\<exists>task k xs ys. n_running n = Some task \<and> (\<forall>s. task \<noteq> ArmTask s) \<and> registry_change env task n k xs \<and>
        quiet ys \<and> m = out (xs @ ys) (k\<lparr>n_running := None\<rparr>))"
  using assms(2)
proof (cases rule: server_step.cases)
  case (step_Request s c rpk pick)
  from handleRPCRequest_change [of s n env pick c rpk] show ?thesis
    unfolding step_Request(2) by (cases rule: handler_change.cases) (auto simp: post_control_def)
next
  case (step_Direct s rpk pick)
  from handleRPCDirect_change [of s n env pick rpk] show ?thesis
    unfolding step_Direct(2) by (cases rule: handler_change.cases) (auto simp: post_control_def)
next
  case (step_Unlink i s c)
  obtain r where r: "go_get (n_sessions n) s = Some r"
    using removing_session [OF assms(1) step_Unlink(3,4)] by blast
  with unlink_fields(10,11) [of "n\<lparr>n_removing := drop_nth i (n_removing n)\<rparr>" s r, OF _ refl]
  show ?thesis by (simp add: step_Unlink(2))
next
  case (step_TaskBegin task rest)
  show ?thesis
  proof (cases rule: task_begin_cases [of env task "n\<lparr>n_control := rest\<rparr>"])
    case (armed s m')
    with step_TaskBegin(2) show ?thesis by (auto dest!: arm_start_Some)
  qed (use step_TaskBegin(2) in auto)
next
  case (step_TaskCommit task)
  show ?thesis
  proof (cases "\<exists>s. task = ArmTask s")
    case True
    with step_TaskCommit(2) show ?thesis
      by (auto simp: task_commit_def arm_recheck_def set_remote_def split: option.split)
  next
    case False
    then obtain k xs ys where "registry_change env task n k xs" "quiet ys" "task_commit env task n = out (xs @ ys) k"
      using commit_change [of task env n] by blast
    with False step_TaskCommit show ?thesis by (auto simp: out_update)
  qed
qed (auto simp: post_control_def onAccept_def armRemoteNodeTimeout_def set_remote_def
      removeRemoteNode_swap_def remoteNodeFromSession_def split: option.split)

lemma registry_ok_step:
  assumes "table_ok n" "registry_ok n" "server_step env n e m"
  shows "registry_ok m"
  using registry_step [OF assms(1,3)]
proof (elim disjE exE conjE)
  fix task k xs ys assume "registry_change env task n k xs" "m = out (xs @ ys) (k\<lparr>n_running := None\<rparr>)"
  with registry_ok_change [OF assms(2)] registry_ok_cong [of m k] show ?thesis by simp
qed (use assms(2) registry_ok_cong [of m n] in simp)

section \<open>Services and their nodes\<close>

text \<open>A node id is linked, or its removal from the registry is pending.\<close>

definition alive :: "server_node \<Rightarrow> int \<Rightarrow> bool" where
  "alive n i \<longleftrightarrow> go_get (n_remoteNodes n) i \<noteq> None \<or> NodeGoneTask i \<in> pending n"

definition orphan_ok :: "server_node \<Rightarrow> bool" where
  "orphan_ok n \<longleftrightarrow>
     (\<forall>k l. registry_Lookup (n_registry n) k = Some l \<longrightarrow> NodeID l = n_id n \<or> alive n (NodeID l)) \<and>
     (\<forall>s c p i l. n_running n = Some (RegisterTask s c p i l) \<longrightarrow> alive n i)"

lemma alive_handler:
  assumes "handler_change s n m" "alive n i"
  shows "alive m i"
  using assms by (cases rule: handler_change.cases) (auto simp: alive_def pending_def post_control_def)

lemma alive_step:
  assumes "table_ok n" "IsMainNode n" "server_step env n e m" "alive n i"
  shows "alive m i \<or> n_running n = Some (NodeGoneTask i) \<and> e = TaskCommit"
  using assms(3)
proof (cases rule: server_step.cases)
  case (step_Request s c rpk pick)
  with alive_handler [OF handleRPCRequest_change assms(4)] show ?thesis by simp
next
  case (step_Direct s rpk pick)
  with alive_handler [OF handleRPCDirect_change assms(4)] show ?thesis by simp
next
  case (step_Unlink j s c)
  obtain r where r: "go_get (n_sessions n) s = Some r"
    using removing_session [OF assms(1) step_Unlink(3,4)] by blast
  with unlink_fields(2,3,8,9) [of "n\<lparr>n_removing := drop_nth j (n_removing n)\<rparr>" s r, OF _ refl] assms(2,4)
  show ?thesis by (auto simp: alive_def pending_def step_Unlink(2) IsMainNode_def split: if_splits)
next
  case (step_Enqueue j)
  with drop_nth_set [OF step_Enqueue(3)] assms(4) show ?thesis by (auto simp: alive_def pending_def)
next
  case (step_TaskBegin task rest)
  show ?thesis
  proof (cases rule: task_begin_cases [of env task "n\<lparr>n_control := rest\<rparr>"])
    case (armed s m')
    with step_TaskBegin assms(4) show ?thesis by (auto simp: alive_def pending_def dest!: arm_start_Some)
  qed (use step_TaskBegin assms(4) in \<open>auto simp: alive_def pending_def\<close>)
next
  case (step_TaskCommit task)
  show ?thesis
  proof (cases "\<exists>s. task = ArmTask s")
    case True
    with step_TaskCommit assms(4) show ?thesis
      by (auto simp: alive_def pending_def task_commit_def arm_recheck_def set_remote_def
          split: option.splits)
  next
    case False
    then obtain k xs ys where k: "registry_change env task n k xs" "task_commit env task n = out (xs @ ys) k"
      using commit_change [of task env n] by blast
    with step_TaskCommit registry_change_frame [OF k(1)] assms(4) show ?thesis
      by (auto simp: alive_def pending_def)
  qed
qed (use assms(4) in \<open>auto simp: alive_def pending_def post_control_def onAccept_def
      armRemoteNodeTimeout_def set_remote_def removeRemoteNode_swap_def remoteNodeFromSession_def
      split: option.split\<close>)

text \<open>A registration that passed its check belongs to a node that is linked at that moment.\<close>

lemma begun_register:
  assumes "tasks_ok n" "table_ok n" "n_running n = None" "server_step env n e m"
    "n_running m = Some (RegisterTask s c p i l)"
  shows "alive m i"
  using assms(4)
proof (cases rule: server_step.cases)
  case (step_TaskBegin task rest)
  show ?thesis
  proof (cases rule: task_begin_cases [of env task "n\<lparr>n_control := rest\<rparr>"])
    case running
    with step_TaskBegin assms(5) have "task = RegisterTask s c p i l"
      "remoteNodeIsCurrent s p (n\<lparr>n_control := rest\<rparr>)" by auto
    moreover from this step_TaskBegin(4) assms(1) have "task_ok n (RegisterTask s c p i l)"
      by (auto simp: tasks_ok_def pending_def)
    ultimately show ?thesis
      using running(1) step_TaskBegin(2)
      by (auto simp: alive_def task_ok_def remoteNodeIsCurrent_def linked_def split: if_splits)
  qed (use step_TaskBegin assms(3,5) in \<open>auto dest!: arm_start_Some\<close>)
next
  case (step_Unlink j s' c')
  obtain r where r: "go_get (n_sessions n) s' = Some r"
    using removing_session [OF assms(2) step_Unlink(3,4)] by blast
  with unlink_fields(9) [of "n\<lparr>n_removing := drop_nth j (n_removing n)\<rparr>" s' r, OF _ refl] assms(3,5)
  show ?thesis by (simp add: step_Unlink(2))
next
  case (step_Request s' c' rpk pick)
  from handleRPCRequest_change [of s' n env pick c' rpk] assms(3,5) show ?thesis
    unfolding step_Request(2) by (cases rule: handler_change.cases) (auto simp: post_control_def)
next
  case (step_Direct s' rpk pick)
  from handleRPCDirect_change [of s' n env pick rpk] assms(3,5) show ?thesis
    unfolding step_Direct(2) by (cases rule: handler_change.cases) (auto simp: post_control_def)
qed (use assms(3,5) in \<open>auto simp: post_control_def onAccept_def armRemoteNodeTimeout_def set_remote_def
      removeRemoteNode_swap_def remoteNodeFromSession_def split: option.splits if_splits\<close>)

text \<open>The control loop runs one task at a time.\<close>

lemma running_step:
  assumes "table_ok n" "server_step env n e m" "n_running n = Some task"
  shows "n_running m = Some task \<or> n_running m = None \<and> e = TaskCommit"
  using assms(2)
proof (cases rule: server_step.cases)
  case (step_Unlink j s' c')
  obtain r where r: "go_get (n_sessions n) s' = Some r"
    using removing_session [OF assms(1) step_Unlink(3,4)] by blast
  with unlink_fields(9) [of "n\<lparr>n_removing := drop_nth j (n_removing n)\<rparr>" s' r, OF _ refl] assms(3)
  show ?thesis by (simp add: step_Unlink(2))
next
  case (step_Request s' c' rpk pick)
  from handleRPCRequest_change [of s' n env pick c' rpk] assms(3) show ?thesis
    unfolding step_Request(2) by (cases rule: handler_change.cases) (auto simp: post_control_def)
next
  case (step_Direct s' rpk pick)
  from handleRPCDirect_change [of s' n env pick rpk] assms(3) show ?thesis
    unfolding step_Direct(2) by (cases rule: handler_change.cases) (auto simp: post_control_def)
qed (use assms(3) in \<open>auto simp: post_control_def onAccept_def armRemoteNodeTimeout_def set_remote_def
      removeRemoteNode_swap_def remoteNodeFromSession_def split: option.splits if_splits\<close>)

lemma orphan_ok_step:
  assumes "table_ok n" "tasks_ok n" "registry_ok n" "IsMainNode n" "orphan_ok n" "server_step env n e m"
  shows "orphan_ok m"
proof -
  note alive = alive_step [OF assms(1,4,6)]
  have id: "n_id m = n_id n" using sessions_grow_step [OF assms(1,6)] by (simp add: sessions_grow_def)
  have reg: "NodeID l = n_id m \<or> alive m (NodeID l)" if l: "registry_Lookup (n_registry m) k = Some l" for k l
    using registry_step [OF assms(1,6)]
  proof (elim disjE exE conjE)
    assume "n_registry m = n_registry n"
    with l assms(5) have "NodeID l = n_id n \<or> alive n (NodeID l)" by (auto simp: orphan_ok_def)
    moreover have False if "n_running n = Some (NodeGoneTask (NodeID l))" "e = TaskCommit"
    proof -
      from assms(6) that have "m = (task_commit env (NodeGoneTask (NodeID l)) n)\<lparr>n_running := None\<rparr>"
        by (auto elim: server_step.cases)
      then have "n_registry m = registry_UnregisterNode (NodeID l) (n_registry n)"
        by (simp add: task_commit_def node_gone_eq Let_def unregister_state_def drop_subscribers_def)
      with l mem.UnregisterNode_clears [OF registry_okD(1) [OF assms(3)]] show False by auto
    qed
    ultimately show ?thesis using alive id by auto
  next
    fix task k' xs ys
    assume run: "n_running n = Some task" and ch: "registry_change env task n k' xs"
      and m: "m = out (xs @ ys) (k'\<lparr>n_running := None\<rparr>)"
    have old: "NodeID x = n_id m \<or> alive m (NodeID x)"
      if "registry_Lookup (n_registry n) k = Some x" "task \<noteq> NodeGoneTask (NodeID x)" for x
      using assms(5) that run alive [of "NodeID x"] id by (auto simp: orphan_ok_def)
    from ch show ?thesis
    proof (cases rule: registry_change.cases)
      case (change_register l' r)
      show ?thesis
      proof (cases "k = location_Key l'")
        case True
        with l m change_register mem.Lookup_Register [OF change_register(2)] have "l = l'" by simp
        with change_register(3) assms(5) run alive id show ?thesis
          by (auto simp: orphan_ok_def local_location_def) (use assms(2) in \<open>force simp: tasks_ok_def pending_def task_ok_def\<close>)
      next
        case False
        with l m change_register mem.Lookup_Register [OF change_register(2)] old show ?thesis by auto
      qed
    next
      case (change_unregister k2 i r)
      with l m mem.Lookup_Unregister [OF change_unregister(2)] old show ?thesis
        by (auto simp: unregister_state_def drop_subscribers_def split: if_splits)
    next
      case (change_node_gone i)
      with l m mem.Lookup_UnregisterNode [OF registry_okD(1) [OF assms(3)]] old show ?thesis
        by (auto simp: unregister_state_def drop_subscribers_def split: option.splits if_splits)
    qed (use l m old in \<open>auto simp: subscribe_state_def\<close>)
  qed
  have "alive m i" if "n_running m = Some (RegisterTask s c p i l)" for s c p i l
  proof (cases "n_running n")
    case None
    from begun_register [OF assms(2,1) None assms(6) that] show ?thesis .
  next
    case (Some task)
    with running_step [OF assms(1,6)] that have "task = RegisterTask s c p i l" by auto
    with Some assms(5) alive show ?thesis by (auto simp: orphan_ok_def)
  qed
  with reg show ?thesis by (auto simp: orphan_ok_def)
qed

section \<open>Addresses\<close>

text \<open>A registered service carries the configured address of its node.\<close>

definition address_ok :: "server_node \<Rightarrow> bool" where
  "address_ok n \<longleftrightarrow>
     (\<forall>k l. registry_Lookup (n_registry n) k = Some l \<longrightarrow> NodeID l \<noteq> n_id n \<longrightarrow>
        (\<exists>c. Config_Node (Some (n_config n)) (NodeID l) = Some c \<and> NodeAddr l = nc_ListenAddr c))"

lemma address_ok_step:
  assumes "table_ok n" "tasks_ok n" "registry_ok n" "address_ok n" "server_step env n e m"
  shows "address_ok m"
proof -
  have frame: "n_id m = n_id n" "n_config m = n_config n"
    using sessions_grow_step [OF assms(1,5)] by (simp_all add: sessions_grow_def)
  have "\<exists>c. Config_Node (Some (n_config n)) (NodeID l) = Some c \<and> NodeAddr l = nc_ListenAddr c"
    if l: "registry_Lookup (n_registry m) k = Some l" "NodeID l \<noteq> n_id n" for k l
    using registry_step [OF assms(1,5)]
  proof (elim disjE exE conjE)
    fix task k' xs ys
    assume run: "n_running n = Some task" and ch: "registry_change env task n k' xs"
      and m: "m = out (xs @ ys) (k'\<lparr>n_running := None\<rparr>)"
    from ch show ?thesis
    proof (cases rule: registry_change.cases)
      case (change_register l' r)
      show ?thesis
      proof (cases "k = location_Key l'")
        case True
        with l m change_register mem.Lookup_Register [OF change_register(2)] have "l = l'" by simp
        with change_register(3) l(2) obtain s c p i where t: "task = RegisterTask s c p i l"
          by (auto simp: local_location_def)
        with run assms(2) have "task_ok n (RegisterTask s c p i l)" by (auto simp: tasks_ok_def pending_def)
        then obtain rn where rn: "go_get (n_sessions n) s = Some rn" "rm_id rn = NodeID l" "NodeID l \<noteq> 0"
          "NodeAddr l = rm_addr rn" by (auto simp: task_ok_def)
        with table_invD(2) assms(1)
        have "session_inv (n_id n) (n_config n) (n_remoteNodes n) (fst ` set (n_removing n)) s rn"
          unfolding table_ok_def by blast
        with rn show ?thesis by (auto simp: session_inv_def configured_def)
      next
        case False
        with l m change_register mem.Lookup_Register [OF change_register(2)] assms(4) show ?thesis
          by (auto simp: address_ok_def)
      qed
    next
      case (change_unregister k2 i r)
      with l m mem.Lookup_Unregister [OF change_unregister(2)] assms(4) show ?thesis
        by (auto simp: address_ok_def unregister_state_def drop_subscribers_def split: if_splits)
    next
      case (change_node_gone i)
      with l m mem.Lookup_UnregisterNode [OF registry_okD(1) [OF assms(3)]] assms(4) show ?thesis
        by (auto simp: address_ok_def unregister_state_def drop_subscribers_def split: option.splits if_splits)
    qed (use l m assms(4) in \<open>auto simp: subscribe_state_def address_ok_def\<close>)
  qed (use l assms(4) in \<open>auto simp: address_ok_def\<close>)
  with frame show ?thesis by (simp add: address_ok_def)
qed

section \<open>The invariant of the server side\<close>

definition server_inv :: "server_node \<Rightarrow> bool" where
  "server_inv n \<longleftrightarrow> table_ok n \<and> timer_ok n \<and> tasks_ok n \<and> registry_ok n \<and> address_ok n \<and>
     (IsMainNode n \<longrightarrow> orphan_ok n)"

lemma server_inv_init: "server_init n \<Longrightarrow> server_inv n"
  by (auto simp: server_init_def server_inv_def table_ok_def table_inv_def timer_ok_def tasks_ok_def
      pending_def registry_ok_def address_ok_def orphan_ok_def mem.inv_empty mem.Lookup_empty ix.inv_empty
      ix.rel_empty)

lemma server_inv_step:
  assumes "server_inv n" "server_step env n e m"
  shows "server_inv m"
proof -
  have n: "table_ok n" "timer_ok n" "tasks_ok n" "registry_ok n" "address_ok n" "IsMainNode n \<Longrightarrow> orphan_ok n"
    using assms(1) by (simp_all add: server_inv_def)
  have "IsMainNode m = IsMainNode n"
    using sessions_grow_step [OF n(1) assms(2)] by (simp add: sessions_grow_def IsMainNode_def)
  then show ?thesis
    using table_ok_step [OF n(1) assms(2)] timer_ok_step [OF n(1,2) assms(2)]
      tasks_ok_step [OF n(1,3) assms(2)] registry_ok_step [OF n(1,4) assms(2)]
      address_ok_step [OF n(1,3,4,5) assms(2)] orphan_ok_step [OF n(1,3,4) _ n(6) assms(2)]
    by (simp add: server_inv_def)
qed

interpretation server: inductive_invariant server_init "server_step env" server_inv for env
  by unfold_locales (fact server_inv_init, fact server_inv_step)

end
