(* ===== verification/Node_Discovery.thy ===== *)
theory Node_Discovery
  imports Node_Invariants
begin

text \<open>
  What the main node tells the others: every change of the registry is broadcast to all
  registered nodes, and the discovery messages a subscriber receives over a session, replayed
  in order, give the registered services of the subscribed name.
\<close>

section \<open>Pushes\<close>

text \<open>The library marshals every message that is pushed.\<close>

definition pushes_encode :: "go_env \<Rightarrow> bool" where
  "pushes_encode env \<longleftrightarrow> (\<forall>p. is_ok (encode_push env p))"

lemma pushes_encodeD: "pushes_encode env \<Longrightarrow> \<exists>w. encode_push env p = Inr w"
  unfolding pushes_encode_def by (metis is_okE)

text \<open>The discovery events sent over session \<open>s\<close> to subscriber \<open>k\<close> about the name \<open>nm\<close>.\<close>

primrec discovery_events :: "session \<Rightarrow> ServiceKey \<Rightarrow> string \<Rightarrow> effect list \<Rightarrow> (int \<times> ServiceKey list) list" where
  "discovery_events s k nm [] = []"
| "discovery_events s k nm (x # xs) =
     (case x of
        SendDirect s' (DiscoveryPush k' nm' ev ks) w \<Rightarrow>
          (if s' = s \<and> k' = k \<and> nm' = nm then [(ev, ks)] else [])
      | _ \<Rightarrow> []) @ discovery_events s k nm xs"

lemma discovery_events_append [simp]:
  "discovery_events s k nm (xs @ ys) = discovery_events s k nm xs @ discovery_events s k nm ys"
  by (induction xs) auto

lemma discovery_events_quiet [simp]: "quiet xs \<Longrightarrow> discovery_events s k nm xs = []"
  by (induction xs) (auto simp: quiet_def split: effect.splits)

lemma discovery_events_broadcast [simp]: "discovery_events s k nm (broadcast_out env ps) = []"
  by (induction ps) (auto split: sum.split)

lemma discovery_events_route [simp]: "discovery_events s k nm (route_out env n ks) = []"
  by (simp add: route_out_def)

text \<open>The session over which \<open>k\<close> is notified.\<close>

definition notified_at :: "server_node \<Rightarrow> ServiceKey \<Rightarrow> session \<Rightarrow> bool" where
  "notified_at n k s \<longleftrightarrow> (\<exists>l. registry_Lookup (n_registry n) k = Some l \<and> NodeID l \<noteq> n_id n \<and>
     go_get (n_remoteNodes n) (NodeID l) = Some s)"

lemma remote_session_ok:
  assumes "table_ok n" "go_get (n_remoteNodes n) i = Some p"
  shows "remote_session n p = p"
proof -
  from table_invD(1) assms obtain r where "go_get (n_sessions n) p = Some r"
    unfolding table_ok_def by blast
  moreover from table_invD(2) assms(1) this
  have "session_inv (n_id n) (n_config n) (n_remoteNodes n) (fst ` set (n_removing n)) p r"
    unfolding table_ok_def by blast
  ultimately show ?thesis by (simp add: remote_session_def session_inv_def)
qed

lemma discovery_events_one:
  assumes "table_ok n" "pushes_encode env"
  shows "discovery_events s k nm (discovery_out env n k' nm' ev ks) =
     (if k' = k \<and> nm' = nm \<and> notified_at n k s then [(ev, ks)] else [])"
  using pushes_encodeD [OF assms(2), of "DiscoveryPush k' nm' ev ks"] remote_session_ok [OF assms(1)]
  by (auto simp: discovery_out_def notified_at_def local_discovery_out_def split: option.splits)

lemma discovery_events_concat:
  "discovery_events s k nm (concat (map f xs)) = concat (map (\<lambda>x. discovery_events s k nm (f x)) xs)"
  by (induction xs) auto

lemma concat_single:
  "distinct xs \<Longrightarrow> concat (map (\<lambda>x. if x = a \<and> P then [y] else []) xs) = (if a \<in> set xs \<and> P then [y] else [])"
  by (induction xs) auto

lemma concat_map_singleton_filter:
  "concat (map (\<lambda>x. if P x then [f x] else []) xs) = map f (filter P xs)"
  by (induction xs) auto

lemma discovery_events_announce:
  assumes "table_ok n" "pushes_encode env" "index_inv (n_subscriptions n)"
  shows "discovery_events s k nm (announce_out env n ev k') =
     (if key_Name k' = nm \<and> (k, nm) \<in> index_rel (n_subscriptions n) \<and> notified_at n k s
      then [(ev, [k'])] else [])"
proof -
  let ?subs = "index_subscribers (n_subscriptions n) (key_Name k')"
  have "distinct ?subs" "set ?subs = {k. (k, key_Name k') \<in> index_rel (n_subscriptions n)}"
    using ix.sorted_subscribers [OF assms(3)] ix.set_subscribers [OF assms(3)] by auto
  with concat_single [of ?subs k "key_Name k' = nm \<and> notified_at n k s" "(ev, [k'])"] show ?thesis
    by (simp add: announce_out_def discovery_events_concat discovery_events_one [OF assms(1,2)])
qed

section \<open>Replaying the events\<close>

text \<open>
  The view a subscriber builds from the events: a snapshot replaces it, an online or offline
  event adds or removes one service. Before the first snapshot there is no view.
\<close>

definition apply_event :: "int \<times> ServiceKey list \<Rightarrow> ServiceKey set option \<Rightarrow> ServiceKey set option" where
  "apply_event e v =
     (case e of (ev, ks) \<Rightarrow>
        if ev = eventSnapshot then Some (set ks)
        else if ev = eventOnline then map_option (\<lambda>v. v \<union> set ks) v
        else if ev = eventOffline then map_option (\<lambda>v. v - set ks) v
        else v)"

definition replay :: "(int \<times> ServiceKey list) list \<Rightarrow> ServiceKey set option" where
  "replay es = fold apply_event es None"

lemma replay_append: "replay (es @ [e]) = apply_event e (replay es)"
  by (simp add: replay_def)

lemma replay_offline:
  "replay (es @ map (\<lambda>k. (eventOffline, [k])) ks) = map_option (\<lambda>v. v - set ks) (replay es)"
proof (induction ks arbitrary: es)
  case (Cons k ks)
  have "replay (es @ map (\<lambda>k. (eventOffline, [k])) (k # ks)) =
      replay ((es @ [(eventOffline, [k])]) @ map (\<lambda>k. (eventOffline, [k])) ks)" by simp
  also have "\<dots> = map_option (\<lambda>v. v - set (k # ks)) (replay es)"
    unfolding Cons.IH replay_append by (cases "replay es") (auto simp: apply_event_def event_defs)
  finally show ?case .
qed (simp add: option.map_ident)

definition registered_names :: "server_node \<Rightarrow> string \<Rightarrow> ServiceKey set" where
  "registered_names n nm = {k. registry_Lookup (n_registry n) k \<noteq> None \<and> key_Name k = nm}"

text \<open>
  The view of a subscriber agrees with the registry, and a session that has not registered a
  node has received no event.
\<close>

definition view_ok :: "server_node \<Rightarrow> bool" where
  "view_ok n \<longleftrightarrow>
     (\<forall>k nm s v. (k, nm) \<in> index_rel (n_subscriptions n) \<longrightarrow> notified_at n k s \<longrightarrow>
        replay (discovery_events s k nm (n_out n)) = Some v \<longrightarrow> v = registered_names n nm)"

definition silent_ok :: "server_node \<Rightarrow> bool" where
  "silent_ok n \<longleftrightarrow>
     (\<forall>s k nm. discovery_events s k nm (n_out n) \<noteq> [] \<longrightarrow>
        (\<exists>r. go_get (n_sessions n) s = Some r \<and> rm_id r \<noteq> 0))"

text \<open>Removing services: their subscribers are notified of each one that bears the name.\<close>

lemma unregistered_view:
  assumes "registry_ok n" "table_ok m" "pushes_encode env" "index_inv (n_subscriptions m)"
    "m = unregister_state ks r n" "distinct ks"
    "\<And>k. registry_Lookup r k = (if k \<in> set ks then None else registry_Lookup (n_registry n) k)"
    "view_ok n" "(k, nm) \<in> index_rel (n_subscriptions m)" "notified_at m k s"
    "replay (discovery_events s k nm (n_out n) @ discovery_events s k nm (unregistered_out env m ks)) = Some v"
  shows "v = registered_names m nm"
proof -
  have m: "n_registry m = r" "n_id m = n_id n" "n_remoteNodes m = n_remoteNodes n"
    "n_subscriptions m = fold index_removeSubscriber ks (n_subscriptions n)"
    by (simp_all add: assms(5) unregister_state_def drop_subscribers_def)
  have old: "(k, nm) \<in> index_rel (n_subscriptions n)" "notified_at n k s"
    using assms(9,10) registry_okD(2) [OF assms(1)]
    by (auto simp: m notified_at_def assms(7) ix.rel_remove_all split: if_splits)
  have names: "registered_names m nm = registered_names n nm - set (filter (\<lambda>k. key_Name k = nm) ks)"
    by (auto simp: registered_names_def m assms(7))
  have "discovery_events s k nm (unregistered_out env m ks) =
      map (\<lambda>k. (eventOffline, [k])) (filter (\<lambda>k. key_Name k = nm) ks)"
    using assms(9,10) discovery_events_announce [OF assms(2-4)]
    by (simp add: unregistered_out_def discovery_events_concat concat_map_singleton_filter)
  with assms(11) replay_offline obtain w where
    "replay (discovery_events s k nm (n_out n)) = Some w" "v = w - set (filter (\<lambda>k. key_Name k = nm) ks)"
    by auto
  with old assms(8) names show ?thesis by (auto simp: view_ok_def)
qed

lemma registered_state_view:
  assumes "registry_ok n" "table_ok n" "pushes_encode env" "view_ok n" "registry_change env task n m xs"
  shows "view_ok (out xs m)"
  unfolding view_ok_def
proof (intro allI impI)
  note reg = registry_okD [OF assms(1)] and frame = registry_change_frame [OF assms(5)]
  have tab: "table_ok m" using assms(2) frame by (simp add: table_ok_def)
  have idx: "index_inv (n_subscriptions m)" using registry_okD(2) [OF registry_ok_change [OF assms(1,5)]] .
  fix k nm s v
  assume "(k, nm) \<in> index_rel (n_subscriptions (out xs m))" "notified_at (out xs m) k s"
    "replay (discovery_events s k nm (n_out (out xs m))) = Some v"
  then have a: "(k, nm) \<in> index_rel (n_subscriptions m)" "notified_at m k s"
    "replay (discovery_events s k nm (n_out n) @ discovery_events s k nm xs) = Some v"
    using frame by (simp_all add: notified_at_def)
  have "v = registered_names m nm"
    using assms(5)
  proof (cases rule: registry_change.cases)
    case change_none
    with a assms(4) show ?thesis by (auto simp: view_ok_def)
  next
    case (change_register l r)
    note lookup = mem.Lookup_Register [OF change_register(2)]
    have "is_ok (registry_Register l (n_registry n))" using change_register(2) by simp
    then have new: "registry_Lookup (n_registry n) (location_Key l) = None" by (simp add: mem.Register_ok)
    with a(1) reg(3) [of k nm] change_register(4) have "k \<noteq> location_Key l" by auto
    with a(1,2) have old: "(k, nm) \<in> index_rel (n_subscriptions n)" "notified_at n k s"
      by (auto simp: notified_at_def change_register(4) lookup)
    have names: "registered_names m nm = (if key_Name (location_Key l) = nm
        then registered_names n nm \<union> {location_Key l} else registered_names n nm)"
      by (auto simp: registered_names_def change_register(4) lookup)
    have ev: "discovery_events s k nm xs =
        (if key_Name (location_Key l) = nm then [(eventOnline, [location_Key l])] else [])"
      using a(1,2) discovery_events_announce [OF tab assms(3) idx]
      by (simp add: change_register(1) registered_out_def)
    obtain w where w: "replay (discovery_events s k nm (n_out n)) = Some w"
      using a(3) ev by (auto simp: replay_append apply_event_def event_defs split: if_splits)
    with old assms(4) have "w = registered_names n nm" by (auto simp: view_ok_def)
    with a(3) w show ?thesis
      by (auto simp: ev names replay_append apply_event_def event_defs split: if_splits)
  next
    case (change_subscribe k' nm')
    show ?thesis
    proof (cases "k = k' \<and> nm = nm'")
      case True
      with a(2,3) discovery_events_one [OF tab assms(3)] have "v = set (serviceSnapshot nm m)"
        by (simp add: change_subscribe(1) replay_append apply_event_def)
      moreover have "registry_inv (n_registry m)"
        using reg(1) by (simp add: change_subscribe(4) subscribe_state_def)
      ultimately show ?thesis by (simp add: set_serviceSnapshot registered_names_def)
    next
      case False
      with a(1,2) reg(2) have "(k, nm) \<in> index_rel (n_subscriptions n)" "notified_at n k s"
        by (auto simp: change_subscribe(4) subscribe_state_def ix.rel_subscribe notified_at_def)
      moreover from False a(3) have "replay (discovery_events s k nm (n_out n)) = Some v"
        using discovery_events_one [OF tab assms(3)] by (auto simp: change_subscribe(1) split: if_splits)
      moreover have "registered_names m nm = registered_names n nm"
        by (simp add: registered_names_def change_subscribe(4) subscribe_state_def)
      ultimately show ?thesis using assms(4) unfolding view_ok_def by blast
    qed
  next
    case (change_unregister k' i r)
    show ?thesis
      using unregistered_view [OF assms(1) tab assms(3) idx change_unregister(4) _ _ assms(4) a(1,2)]
        a(3) mem.Lookup_Unregister [OF change_unregister(2)]
      by (simp add: change_unregister(1))
  next
    case (change_node_gone i)
    let ?ks = "serviceKeysForNode i n"
    have "distinct ?ks"
      using mem.distinct_keys_where [OF reg(1)]
      by (simp add: serviceKeysForNode_def sortServiceKeys_def mem.keys_where_def)
    moreover have "registry_Lookup (registry_UnregisterNode i (n_registry n)) k' =
        (if k' \<in> set ?ks then None else registry_Lookup (n_registry n) k')" for k'
      by (auto simp: mem.Lookup_UnregisterNode [OF reg(1)] set_serviceKeysForNode [OF reg(1)]
          split: option.split)
    ultimately show ?thesis
      using unregistered_view [OF assms(1) tab assms(3) idx change_node_gone(3) _ _ assms(4) a(1,2)] a(3)
      by (simp add: change_node_gone(1))
  qed
  then show "v = registered_names (out xs m) nm" by (simp add: registered_names_def)
qed

text \<open>A session is linked by the handler of its own registration only.\<close>

lemma link_step:
  assumes "table_ok n" "server_step env n e m" "go_get (n_remoteNodes m) i = Some s"
  shows "go_get (n_remoteNodes n) i = Some s \<or> (\<exists>r. go_get (n_sessions n) s = Some r \<and> rm_id r = 0)"
  using assms(2)
proof (cases rule: server_step.cases)
  case (step_Request s' c rpk pick)
  from handleRPCRequest_change [of s' n env pick c rpk] assms(3) show ?thesis
    unfolding step_Request(2)
    by (cases rule: handler_change.cases) (auto simp: post_control_def split: if_splits)
next
  case (step_Direct s' rpk pick)
  from handleRPCDirect_change [of s' n env pick rpk] assms(3) show ?thesis
    unfolding step_Direct(2)
    by (cases rule: handler_change.cases) (auto simp: post_control_def split: if_splits)
next
  case (step_Unlink j s' c)
  obtain r where r: "go_get (n_sessions n) s' = Some r"
    using removing_session [OF assms(1) step_Unlink(3,4)] by blast
  with unlink_fields(2) [of "n\<lparr>n_removing := drop_nth j (n_removing n)\<rparr>" s' r, OF _ refl] assms(3)
  show ?thesis by (auto simp: step_Unlink(2) split: if_splits)
next
  case (step_TaskBegin task rest)
  show ?thesis
  proof (cases rule: task_begin_cases [of env task "n\<lparr>n_control := rest\<rparr>"])
    case (armed s' m')
    with step_TaskBegin(2) assms(3) show ?thesis by (auto dest!: arm_start_Some)
  qed (use step_TaskBegin(2) assms(3) in auto)
next
  case (step_TaskCommit task)
  show ?thesis
  proof (cases "\<exists>s. task = ArmTask s")
    case True
    with step_TaskCommit(2) assms(3) show ?thesis
      by (auto simp: task_commit_def arm_recheck_def set_remote_def split: option.splits if_splits)
  next
    case False
    then obtain k xs ys where k: "registry_change env task n k xs" "task_commit env task n = out (xs @ ys) k"
      using commit_change [of task env n] by blast
    with step_TaskCommit(2) registry_change_frame [OF k(1)] assms(3) show ?thesis by simp
  qed
qed (use assms(3) in \<open>auto simp: post_control_def onAccept_def armRemoteNodeTimeout_def set_remote_def
      removeRemoteNode_swap_def remoteNodeFromSession_def split: option.splits if_splits\<close>)

text \<open>Every step but the commit of a task only adds effects that are not pushes.\<close>

lemma quiet_step:
  assumes "table_ok n" "server_step env n e m"
  shows "(n_registry m = n_registry n \<and> n_subscriptions m = n_subscriptions n \<and>
       (\<exists>ys. quiet ys \<and> n_out m = n_out n @ ys)) \<or>
     (\<exists>task k xs ys. n_running n = Some task \<and> registry_change env task n k xs \<and>
        quiet ys \<and> m = out (xs @ ys) (k\<lparr>n_running := None\<rparr>))"
proof (cases "e = TaskCommit \<and> (\<forall>s. n_running n \<noteq> Some (ArmTask s))")
  case True
  with assms(2) obtain task where t: "n_running n = Some task" "\<not> (\<exists>s. task = ArmTask s)"
    "m = (task_commit env task n)\<lparr>n_running := None\<rparr>" by (auto elim: server_step.cases)
  from commit_change [OF t(2), of env n] obtain k xs ys where
    "registry_change env task n k xs" "quiet ys" "task_commit env task n = out (xs @ ys) k" by blast
  with t(1,3) show ?thesis
    by (intro disjI2 exI [of _ task] exI [of _ k] exI [of _ xs] exI [of _ ys]) (simp add: out_update)
next
  case False
  have same: "\<exists>ys. quiet ys \<and> n_out m = n_out n @ ys" if "n_out m = n_out n"
    using that by (intro exI [of _ "[]"]) simp
  from assms(2) have "n_registry m = n_registry n \<and> n_subscriptions m = n_subscriptions n \<and>
       (\<exists>ys. quiet ys \<and> n_out m = n_out n @ ys)"
  proof (cases rule: server_step.cases)
    case (step_Request s c rpk pick)
    from handleRPCRequest_change [of s n env pick c rpk] show ?thesis
      unfolding step_Request(2) by (cases rule: handler_change.cases)
        (auto simp: post_control_def intro: exI [of _ "[]"])
  next
    case (step_Direct s rpk pick)
    from handleRPCDirect_change [of s n env pick rpk] show ?thesis
      unfolding step_Direct(2) by (cases rule: handler_change.cases)
        (auto simp: post_control_def intro: exI [of _ "[]"])
  next
    case (step_Unlink i s c)
    obtain r where r: "go_get (n_sessions n) s = Some r"
      using removing_session [OF assms(1) step_Unlink(3,4)] by blast
    with unlink_fields(10,11,12) [of "n\<lparr>n_removing := drop_nth i (n_removing n)\<rparr>" s r, OF _ refl]
    show ?thesis by (auto simp: step_Unlink(2) intro: exI [of _ "if c then [CloseSession s] else []"])
  next
    case (step_TaskBegin task rest)
    show ?thesis
    proof (cases rule: task_begin_cases [of env task "n\<lparr>n_control := rest\<rparr>"])
      case (ended xs)
      with step_TaskBegin(2) show ?thesis by auto
    next
      case (armed s m')
      with step_TaskBegin(2) same show ?thesis by (auto dest!: arm_start_Some)
    qed (use step_TaskBegin(2) same in auto)
  next
    case (step_TaskCommit task)
    with False same show ?thesis
      by (auto simp: task_commit_def arm_recheck_def set_remote_def split: option.splits if_splits)
  qed (use same in \<open>auto simp: post_control_def onAccept_def armRemoteNodeTimeout_def set_remote_def
      removeRemoteNode_swap_def remoteNodeFromSession_def split: option.splits if_splits\<close>)
  then show ?thesis ..
qed


lemma view_ok_step:
  assumes "server_inv n" "pushes_encode env" "view_ok n" "silent_ok n" "server_step env n e m"
  shows "view_ok m"
proof -
  have n: "table_ok n" "registry_ok n" using assms(1) by (simp_all add: server_inv_def)
  show ?thesis
    using quiet_step [OF n(1) assms(5)]
  proof (elim disjE exE conjE)
    fix ys assume q: "n_registry m = n_registry n" "n_subscriptions m = n_subscriptions n" "quiet ys"
      "n_out m = n_out n @ ys"
    have id: "n_id m = n_id n" using sessions_grow_step [OF n(1) assms(5)] by (simp add: sessions_grow_def)
    show ?thesis
      unfolding view_ok_def
    proof (intro allI impI)
      fix k nm s v
      assume a: "(k, nm) \<in> index_rel (n_subscriptions m)" "notified_at m k s"
        "replay (discovery_events s k nm (n_out m)) = Some v"
      then have ev: "replay (discovery_events s k nm (n_out n)) = Some v" by (simp add: q)
      then have "discovery_events s k nm (n_out n) \<noteq> []" by (auto simp: replay_def)
      with assms(4) obtain r where "go_get (n_sessions n) s = Some r" "rm_id r \<noteq> 0"
        unfolding silent_ok_def by blast
      with a(2) link_step [OF n(1) assms(5)] id have "notified_at n k s"
        by (fastforce simp: notified_at_def q)
      with a(1) ev assms(3) have "v = registered_names n nm" unfolding view_ok_def q by blast
      then show "v = registered_names m nm" by (simp add: registered_names_def q)
    qed
  next
    fix task k xs ys
    assume c: "registry_change env task n k xs" "quiet ys" "m = out (xs @ ys) (k\<lparr>n_running := None\<rparr>)"
    from registered_state_view [OF n(2,1) assms(2,3) c(1)] c(2) show ?thesis
      by (simp add: c(3) view_ok_def notified_at_def registered_names_def)
  qed
qed

text \<open>Only a linked session receives discovery events.\<close>

lemma change_events:
  assumes "table_ok n" "registry_ok n" "pushes_encode env" "registry_change env task n m xs"
    "discovery_events s k nm xs \<noteq> []"
  shows "notified_at m k s"
proof -
  have tab: "table_ok m" using assms(1) registry_change_frame [OF assms(4)] by (simp add: table_ok_def)
  have idx: "index_inv (n_subscriptions m)" using registry_okD(2) [OF registry_ok_change [OF assms(2,4)]] .
  note ann = discovery_events_announce [OF tab assms(3) idx]
  from assms(4) show ?thesis
  proof (cases rule: registry_change.cases)
    case (change_register l r)
    with assms(5) ann show ?thesis by (auto simp: registered_out_def split: if_splits)
  next
    case (change_unregister k' i r)
    with assms(5) ann show ?thesis by (auto simp: unregistered_out_def split: if_splits)
  next
    case (change_node_gone i)
    with assms(5) ann show ?thesis
      by (auto simp: unregistered_out_def discovery_events_concat split: if_splits)
  next
    case (change_subscribe k' nm')
    with assms(5) discovery_events_one [OF tab assms(3)] show ?thesis by (auto split: if_splits)
  qed (use assms(5) in simp)
qed

lemma silent_ok_step:
  assumes "server_inv n" "pushes_encode env" "silent_ok n" "server_step env n e m"
  shows "silent_ok m"
proof -
  have n: "table_ok n" "registry_ok n" using assms(1) by (simp_all add: server_inv_def)
  have tab: "table_ok m" by (rule table_ok_step [OF n(1) assms(4)])
  have grow: "\<exists>r. go_get (n_sessions m) s = Some r \<and> rm_id r \<noteq> 0"
    if "discovery_events s k nm (n_out n) \<noteq> []" for s k nm
  proof -
    from that assms(3) obtain r where "go_get (n_sessions n) s = Some r" "rm_id r \<noteq> 0"
      unfolding silent_ok_def by blast
    with sessions_grow_step [OF n(1) assms(4)] show ?thesis unfolding sessions_grow_def by metis
  qed
  show ?thesis
    using quiet_step [OF n(1) assms(4)]
  proof (elim disjE exE conjE)
    fix ys assume "quiet ys" "n_out m = n_out n @ ys"
    with grow show ?thesis by (auto simp: silent_ok_def)
  next
    fix task k' xs ys
    assume c: "registry_change env task n k' xs" "quiet ys" "m = out (xs @ ys) (k'\<lparr>n_running := None\<rparr>)"
    show ?thesis
      unfolding silent_ok_def
    proof (intro allI impI)
      fix s k nm assume "discovery_events s k nm (n_out m) \<noteq> []"
      then consider "discovery_events s k nm (n_out n) \<noteq> []" | "discovery_events s k nm xs \<noteq> []"
        using c registry_change_frame(10) [OF c(1)] by auto
      then show "\<exists>r. go_get (n_sessions m) s = Some r \<and> rm_id r \<noteq> 0"
      proof cases
        case 2
        from change_events [OF n assms(2) c(1) 2] obtain i where "go_get (n_remoteNodes m) i = Some s"
          by (auto simp: notified_at_def c(3))
        with table_invD(1) tab show ?thesis unfolding table_ok_def by blast
      qed (rule grow)
    qed
  qed
qed

definition view_inv :: "go_env \<Rightarrow> server_node \<Rightarrow> bool" where
  "view_inv env n \<longleftrightarrow> server_inv n \<and> (pushes_encode env \<longrightarrow> view_ok n \<and> silent_ok n)"

interpretation discovery: inductive_invariant server_init "server_step env" "view_inv env" for env
proof unfold_locales
  show "server_init n \<Longrightarrow> view_inv env n" for n
    using server_inv_init [of n]
    by (auto simp: view_inv_def view_ok_def silent_ok_def server_init_def ix.rel_empty)
  show "view_inv env n \<Longrightarrow> server_step env n e m \<Longrightarrow> view_inv env m" for n e m
    unfolding view_inv_def using server_inv_step view_ok_step silent_ok_step by blast
qed

section \<open>Broadcasts\<close>

lemma broadcast_reaches:
  assumes "pushes_encode env" "(k, s) \<in> set ps"
  shows "\<exists>w. SendDirect s (RoutePush k) w \<in> set (broadcast_out env ps)"
  using assms(2)
proof (induction ps)
  case (Cons p ps)
  obtain k' s' where p: "p = (k', s')" by fastforce
  obtain w where "encode_push env (RoutePush k') = Inr w" using pushes_encodeD [OF assms(1)] by blast
  with Cons p show ?case by auto
qed simp

lemma route_reaches:
  assumes "pushes_encode env" "IsMainNode n" "table_ok n" "k \<in> set ks" "go_get (n_remoteNodes n) i = Some s"
  shows "\<exists>w. SendDirect s (RoutePush k) w \<in> set (route_out env n ks)"
proof -
  have "s \<in> set (node_sessions n)"
    using go_get_SomeD [OF assms(5)] remote_session_ok [OF assms(3,5)]
    by (force simp: node_sessions_def)
  with assms(4) have "(k, s) \<in> set (concat (map (\<lambda>key. map (Pair key) (node_sessions n)) ks))" by auto
  from broadcast_reaches [OF assms(1) this] assms(2) show ?thesis by (simp add: route_out_def)
qed

text \<open>The keys whose location a change of the registry alters are among those it broadcasts.\<close>

lemma change_broadcast:
  assumes "registry_ok n" "registry_change env task n m xs"
    "registry_Lookup (n_registry m) k \<noteq> registry_Lookup (n_registry n) k"
  shows "\<exists>ks ys. k \<in> set ks \<and> xs = route_out env m ks @ ys"
  using assms(2)
proof (cases rule: registry_change.cases)
  case (change_register l r)
  with assms(3) mem.Lookup_Register [OF change_register(2)] have "k = location_Key l"
    by (auto split: if_splits)
  with change_register(1) show ?thesis
    by (intro exI [of _ "[location_Key l]"]) (auto simp: registered_out_def)
next
  case (change_unregister k' i r)
  with assms(3) mem.Lookup_Unregister [OF change_unregister(2)] have "k = k'"
    by (auto simp: unregister_state_def drop_subscribers_def split: if_splits)
  with change_unregister(1) show ?thesis
    by (intro exI [of _ "[k']"]) (auto simp: unregistered_out_def)
next
  case (change_node_gone i)
  note inv = registry_okD(1) [OF assms(1)]
  have "k \<in> set (serviceKeysForNode i n)"
    using assms(3) mem.Lookup_UnregisterNode [OF inv, of i k]
    by (auto simp: change_node_gone(3) unregister_state_def drop_subscribers_def
        set_serviceKeysForNode [OF inv] split: option.splits if_splits)
  with change_node_gone show ?thesis by (auto simp: unregistered_out_def)
qed (use assms(3) in \<open>auto simp: subscribe_state_def\<close>)

end
