(* ===== verification/Node_Runs.thy ===== *)
theory Node_Runs
  imports Node_Discovery
begin

text \<open>
  An executable version of the step relation of a node's server side, and the concrete run
  of a small deployment, on which the properties of the node are exercised.
\<close>

section \<open>Running the model\<close>

definition server_exec :: "go_env \<Rightarrow> server_event \<Rightarrow> server_node \<Rightarrow> server_node option" where
  "server_exec env e n =
     (case e of
        Accept s \<Rightarrow> if go_get (n_sessions n) s = None then Some (onAccept s n) else None
      | Request s c rpk pick \<Rightarrow> Some (handleRPCRequest env pick s c rpk n)
      | Direct s rpk pick \<Rightarrow> Some (handleRPCDirect env pick s rpk n)
      | SessionClosed s \<Rightarrow> Some (removeRemoteNode_swap s False n)
      | HeartbeatExpired s \<Rightarrow> Some (removeRemoteNode_swap s True n)
      | Unlink i \<Rightarrow>
          if i < length (n_removing n)
          then (case n_removing n ! i of (s, c) \<Rightarrow>
            Some (removeRemoteNode_unlink s c (n\<lparr>n_removing := drop_nth i (n_removing n)\<rparr>)))
          else None
      | Enqueue i \<Rightarrow>
          if i < length (n_posting n)
          then Some (n\<lparr>n_posting := drop_nth i (n_posting n), n_control := n_control n @ [n_posting n ! i]\<rparr>)
          else None
      | LocalCall task \<Rightarrow>
          if IsMainNode n \<and> local_task task then Some (post_control task n) else None
      | TaskBegin \<Rightarrow>
          (case (n_running n, n_control n) of
             (None, task # rest) \<Rightarrow> Some (task_begin env task (n\<lparr>n_control := rest\<rparr>))
           | _ \<Rightarrow> None)
      | TaskCommit \<Rightarrow>
          (case n_running n of
             None \<Rightarrow> None
           | Some task \<Rightarrow> Some ((task_commit env task n)\<lparr>n_running := None\<rparr>)))"

lemma server_exec_step: "server_exec env e n = Some m \<Longrightarrow> server_step env n e m"
  by (cases e)
    (auto simp: server_exec_def intro: server_step.intros split: if_splits option.splits list.splits
      prod.splits)

lemma server_step_exec: "server_step env n e m \<Longrightarrow> server_exec env e n = Some m"
  by (induction rule: server_step.induct) (auto simp: server_exec_def)

fun server_run :: "go_env \<Rightarrow> server_event list \<Rightarrow> server_node \<Rightarrow> server_node option" where
  "server_run env [] n = Some n"
| "server_run env (e # es) n =
     (case server_exec env e n of None \<Rightarrow> None | Some m \<Rightarrow> server_run env es m)"

lemma server_run_reach:
  "server_reach env n \<Longrightarrow> server_run env es n = Some m \<Longrightarrow> server_reach env m"
  by (induction es arbitrary: n) (auto split: option.splits intro: reach_step server_exec_step)

section \<open>A concrete deployment\<close>

text \<open>
  Two nodes, of which node 1 is the main node. The protobuf library is a stand-in that
  marshals every message to nothing and unmarshals requests for the services of node 2; the
  id of the service in a registration is the length of the payload.
\<close>

definition demo_key :: "nat \<Rightarrow> ServiceKey" where
  "demo_key i = ServiceKey ''room'' (int i)"

definition demo_proto :: proto_api where
  "demo_proto = (table_proto [])
     \<lparr>proto_Size := (\<lambda>m. 0), proto_Marshal := (\<lambda>m. Inr []),
      un_RegisterNodeRequest := (\<lambda>b. Inr \<lparr>rn_NodeId = 2, rn_NodeAddr = '':2''\<rparr>),
      un_RegisterRequest := (\<lambda>b. Inr \<lparr>rr_Location = Some \<lparr>pl_ServiceName = ''room'',
        pl_ServiceId = int (length b), pl_NodeId = 2, pl_NodeAddr = '':2''\<rparr>\<rparr>),
      un_SubscribeRequest := (\<lambda>b. Inr \<lparr>sq_Subscriber = Some \<lparr>pk_Name = ''room'', pk_Id = 1\<rparr>,
        sq_ServiceName = ''room''\<rparr>)\<rparr>"

definition demo_env :: go_env where
  "demo_env = \<lparr>intBits = 64, quote = (\<lambda>s. s), packet = be_packet, proto = demo_proto\<rparr>"

definition demo_node :: "int \<Rightarrow> string \<Rightarrow> NodeConfig" where
  "demo_node i addr = \<lparr>nc_ID = i, nc_ListenAddr = addr, nc_ServiceCallTimeout = 0, nc_Logger = None,
     nc_Services = []\<rparr>"

definition demo_main :: server_node where
  "demo_main = \<lparr>n_id = 1, n_mainNodeID = 1,
     n_config = \<lparr>MainNode = 1, Nodes = [demo_node 1 '':1'', demo_node 2 '':2'']\<rparr>, n_listenAddr = '':1'',
     n_localServices = [], n_registry = NewMemoryRegistry, n_subscriptions = newServiceSubscriptionIndex,
     n_sessions = [], n_remoteNodes = [], n_receivePool = [], n_posting = [], n_control = [],
     n_running = None, n_removing = [], n_out = []\<rparr>"

definition ask :: "session \<Rightarrow> int \<Rightarrow> int \<Rightarrow> string \<Rightarrow> server_event" where
  "ask s c op payload = Request s c (be16 op @ payload) None"

definition demo_link :: "session \<Rightarrow> server_event list" where
  "demo_link s = [Accept s, ask s 1 opRegisterNode [], Enqueue 0, TaskBegin, TaskCommit,
     Enqueue 0, TaskBegin, TaskCommit]"

definition demo_ask :: "session \<Rightarrow> int \<Rightarrow> string \<Rightarrow> server_event list" where
  "demo_ask s op payload = [ask s 2 op payload, Enqueue 0, TaskBegin, TaskCommit]"

text \<open>Node 2 connects, registers a service, subscribes it, and registers a second one.\<close>

definition demo_events :: "server_event list" where
  "demo_events = demo_link 7 @ demo_ask 7 opRegister ''x'' @ demo_ask 7 opSubscribe [] @
     demo_ask 7 opRegister ''xx''"

definition demo_location :: "nat \<Rightarrow> ServiceLocation" where
  "demo_location i = \<lparr>ServiceName = ''room'', ServiceID = int i, NodeID = 2, NodeAddr = '':2''\<rparr>"

definition demo_state :: server_node where
  "demo_state = demo_main
     \<lparr>n_registry := \<lparr>services = [(demo_key 1, demo_location 1), (demo_key 2, demo_location 2)]\<rparr>,
      n_subscriptions := \<lparr>byServiceName = [(''room'', [(demo_key 1, ())])],
        bySubscriber = [(demo_key 1, [(''room'', ())])]\<rparr>,
      n_sessions := [(7, \<lparr>rm_id = 2, rm_addr = '':2'', rm_session = 7, rm_timer = True, rm_active = True\<rparr>)],
      n_remoteNodes := [(2, 7)],
      n_out :=
       [Respond 7 1 (be16 0 @ be16 0),
        SendDirect 7 (RoutePush (demo_key 1)) (be16 6),
        Respond 7 2 (be16 0 @ be16 0),
        SendDirect 7 (DiscoveryPush (demo_key 1) ''room'' 1 [demo_key 1]) (be16 9),
        Respond 7 2 (be16 0 @ be16 0),
        SendDirect 7 (RoutePush (demo_key 2)) (be16 6),
        SendDirect 7 (DiscoveryPush (demo_key 1) ''room'' 2 [demo_key 2]) (be16 9),
        Respond 7 2 (be16 0 @ be16 0)]\<rparr>"

lemma demo_init: "server_init demo_main"
  by (simp add: server_init_def demo_main_def)

lemma demo_run: "server_run demo_env demo_events demo_main = Some demo_state"
  by code_simp

lemma demo_reach: "server_reach demo_env demo_state"
  by (rule server_run_reach [OF _ demo_run]) (rule reach_init, rule demo_init)

lemma demo_pushes: "pushes_encode demo_env"
  by (simp add: pushes_encode_def encode_push_def encodeEnvelope_def demo_env_def demo_proto_def Let_def)


text \<open>The main node registers a service of its own: the closure is on the control loop.\<close>

definition demo_hub :: ServiceKey where
  "demo_hub = ServiceKey ''hub'' 1"

definition demo_registering :: server_node where
  "demo_registering = demo_state\<lparr>n_running := Some (LocalRegisterTask demo_hub)\<rparr>"

lemma demo_registering_reach: "server_reach demo_env demo_registering"
  by (rule server_run_reach [OF demo_reach, where es = "[LocalCall (LocalRegisterTask demo_hub), Enqueue 0, TaskBegin]"])
    (simp add: server_exec_def demo_registering_def demo_state_def demo_main_def IsMainNode_def local_task_def
      post_control_def drop_nth_def task_begin_def)

definition demo_registered :: server_node where
  "demo_registered = (task_commit demo_env (LocalRegisterTask demo_hub) demo_registering)\<lparr>n_running := None\<rparr>"

lemma demo_registering_step: "server_step demo_env demo_registering TaskCommit demo_registered"
  unfolding demo_registered_def by (rule step_TaskCommit) (simp add: demo_registering_def)


lemma demo_registering_fields:
  "n_running demo_registering = Some (LocalRegisterTask demo_hub)" "n_id demo_registering = 1"
  by (simp_all add: demo_registering_def demo_state_def demo_main_def)

text \<open>The session of node 2 is closed; the removal of its services is not yet on the control loop.\<close>

definition demo_closed :: server_node where
  "demo_closed = demo_state
     \<lparr>n_sessions := [(7, \<lparr>rm_id = 2, rm_addr = '':2'', rm_session = 7, rm_timer = False, rm_active = False\<rparr>)],
      n_remoteNodes := [], n_posting := [NodeGoneTask 2]\<rparr>"

lemma demo_closed_run: "server_run demo_env [SessionClosed 7, Unlink 0] demo_state = Some demo_closed"
  by (simp add: server_exec_def demo_closed_def demo_state_def demo_main_def removeRemoteNode_swap_def
      remoteNodeFromSession_def set_remote_def go_get_def go_put_def go_del_def removeRemoteNode_unlink_def
      drop_nth_def IsMainNode_def post_control_def)

lemma demo_closed_reach: "server_reach demo_env demo_closed"
  by (rule server_run_reach [OF demo_reach demo_closed_run])

text \<open>
  Node 2 reconnects over session 8 and registers a third service before the control loop
  takes the removal that belongs to session 7.
\<close>

definition race_events :: "server_event list" where
  "race_events = [Accept 8, ask 8 1 opRegisterNode [], ask 8 3 opRegister ''xxx'', Enqueue 3, TaskBegin, TaskCommit,
     Enqueue 0, TaskBegin, TaskCommit]"

definition demo_raced :: server_node where
  "demo_raced = the (server_run demo_env race_events demo_closed)"

lemma demo_raced_run:
  "case server_run demo_env race_events demo_closed of
     None \<Rightarrow> False
   | Some n \<Rightarrow> registry_Lookup (n_registry n) (demo_key 3) = None \<and> go_get (n_remoteNodes n) 2 = Some 8 \<and>
       Respond 8 3 (be16 0 @ be16 0) \<in> set (n_out n) \<and> NodeGoneTask 2 \<notin> set (n_posting n @ n_control n) \<and>
       n_running n = None \<and>
       (case go_get (n_sessions n) 8 of None \<Rightarrow> False | Some r \<Rightarrow> rm_active r \<and> rm_id r = 2)"
  by code_simp

end
