(* ===== verification/Node_Requests.thy ===== *)
theory Node_Requests
  imports Node_Runs "HOL-Library.Multiset"
begin

text \<open>
  Every RPC request is accounted for: in any run it has been answered once, or a closure or a
  local service holds it, or the failure to encode its answer has been reported.
\<close>

section \<open>Requests that are answered or held\<close>

text \<open>The request, a session and a context id, that an effect answers or hands to a local service.\<close>

fun effect_request :: "effect \<Rightarrow> (session \<times> int) option" where
  "effect_request (Respond s c w) = Some (s, c)"
| "effect_request (PostService k (SyncTask _ _ _ _ (RpcResponder s c))) = Some (s, c)"
| "effect_request (PostService k (AsyncTask _ _ _ _ (RpcResponder s c))) = Some (s, c)"
| "effect_request x = None"

fun task_request :: "control_task \<Rightarrow> (session \<times> int) option" where
  "task_request (RegisterTask s c _ _ _) = Some (s, c)"
| "task_request (UnregisterTask s c _ _ _) = Some (s, c)"
| "task_request (SubscribeTask s c _ _ _ _) = Some (s, c)"
| "task_request t = None"

abbreviation opt_mset :: "'a option \<Rightarrow> 'a multiset" where
  "opt_mset x \<equiv> mset (case x of None \<Rightarrow> [] | Some a \<Rightarrow> [a])"

primrec replies :: "effect list \<Rightarrow> (session \<times> int) multiset" where
  "replies [] = {#}"
| "replies (x # xs) = opt_mset (effect_request x) + replies xs"

primrec waiting :: "control_task list \<Rightarrow> (session \<times> int) multiset" where
  "waiting [] = {#}"
| "waiting (t # ts) = opt_mset (task_request t) + waiting ts"

primrec reports :: "effect list \<Rightarrow> nat" where
  "reports [] = 0"
| "reports (x # xs) = (case x of Report _ \<Rightarrow> 1 | _ \<Rightarrow> 0) + reports xs"

lemma replies_append [simp]:
  "replies (xs @ ys) = replies xs + replies ys" "reports (xs @ ys) = reports xs + reports ys"
  by (induction xs) (simp_all add: ac_simps)

lemma waiting_append [simp]: "waiting (ts @ us) = waiting ts + waiting us"
  by (induction ts) (simp_all add: ac_simps)

lemma waiting_drop_nth:
  assumes "i < length ts"
  shows "waiting ts = opt_mset (task_request (ts ! i)) + waiting (drop_nth i ts)"
proof -
  from assms have "waiting ts = waiting (take i ts @ ts ! i # drop (Suc i) ts)"
    by (simp add: id_take_nth_drop [symmetric])
  then show ?thesis by (simp add: drop_nth_def ac_simps)
qed

definition accounted :: "server_node \<Rightarrow> (session \<times> int) multiset" where
  "accounted n = replies (n_out n) + waiting (n_posting n) + waiting (n_control n) +
     (case n_running n of None \<Rightarrow> {#} | Some t \<Rightarrow> opt_mset (task_request t))"

text \<open>
  A change that receives the requests \<open>R\<close>: none is answered twice or invented, and whatever is
  dropped is reported.
\<close>

definition settles :: "(session \<times> int) multiset \<Rightarrow> server_node \<Rightarrow> server_node \<Rightarrow> bool" where
  "settles R n m \<longleftrightarrow> accounted m \<subseteq># accounted n + R \<and>
     (\<forall>k. count (accounted n + R) k + reports (n_out n) \<le> count (accounted m) k + reports (n_out m))"

lemma settlesI:
  assumes "accounted m + D = accounted n + R" "\<And>k. count D k + reports (n_out n) \<le> reports (n_out m)"
  shows "settles R n m"
proof -
  have "count (accounted n + R) k = count (accounted m) k + count D k" for k
    by (simp flip: assms(1))
  with assms(2) have "count (accounted n + R) k + reports (n_out n) \<le> count (accounted m) k + reports (n_out m)" for k
    by (metis add.assoc add_left_mono)
  moreover have "accounted m \<subseteq># accounted n + R" by (simp flip: assms(1))
  ultimately show ?thesis by (simp add: settles_def)
qed

lemma settles_same [intro]:
  "accounted m = accounted n \<Longrightarrow> reports (n_out n) \<le> reports (n_out m) \<Longrightarrow> settles {#} n m"
  by (rule settlesI [where D = "{#}"]) simp_all

lemma settles_cong:
  "settles R n m \<Longrightarrow> accounted n = accounted n' \<Longrightarrow> reports (n_out n) = reports (n_out n') \<Longrightarrow>
   accounted m = accounted m' \<Longrightarrow> reports (n_out m) = reports (n_out m') \<Longrightarrow> settles R n' m'"
  by (simp add: settles_def)

lemma accounted_out [simp]: "accounted (out xs n) = accounted n + replies xs"
  by (simp add: accounted_def ac_simps)

lemma accounted_post: "accounted (post_control t n) = accounted n + opt_mset (task_request t)"
  by (simp add: accounted_def post_control_def ac_simps)

lemma post_control_out [simp]: "n_out (post_control t n) = n_out n"
  by (simp add: post_control_def)

section \<open>Answers\<close>

text \<open>Effects that answer \<open>(s, c)\<close> or report that they could not.\<close>

definition replies_to :: "session \<Rightarrow> int \<Rightarrow> effect list \<Rightarrow> bool" where
  "replies_to s c xs \<longleftrightarrow> replies xs = {#(s, c)#} \<or> replies xs = {#} \<and> reports xs \<noteq> 0"

lemma replies_to_simps [simp]:
  "replies_to s c (error_out env s c err)" "replies_to s c (response_out env s c msg)"
  by (simp_all add: replies_to_def error_out_def response_out_def split: sum.split)

lemma settles_out: "replies_to s c xs \<Longrightarrow> settles {#(s, c)#} n (out xs n)"
  unfolding replies_to_def
  by (elim disjE) (rule settlesI [where D = "{#}"] settlesI [where D = "{#(s, c)#}"], simp_all)+

lemma settles_post: "task_request t = Some (s, c) \<Longrightarrow> settles {#(s, c)#} n (post_control t n)"
  by (rule settlesI [where D = "{#}"]) (simp_all add: accounted_post)

lemma settles_respond [simp]:
  "settles {#(s, c)#} n (out (error_out env s c err) n)" "settles {#(s, c)#} n (out (response_out env s c msg) n)"
  by (simp_all add: settles_out)

lemma settles_arm:
  "settles R (post_control (ArmTask s') n) m \<Longrightarrow> settles R n m"
  by (erule settles_cong) (simp_all add: accounted_post)

lemma settles_arm_respond:
  "settles {#(s, c)#} n (out (response_out env s c msg) (post_control (ArmTask s') n))"
  by (rule settles_arm [of _ s']) simp

text \<open>Pushes and notifications of local services answer nothing.\<close>

lemma replies_push [simp]:
  "replies (broadcast_out env ps) = {#}" "replies (route_out env n ks) = {#}"
  "replies (discovery_out env n k nm ev ks') = {#}" "replies (announce_out env n ev k') = {#}"
  "replies (registered_out env n k') = {#}" "replies (unregistered_out env n ks) = {#}"
proof -
  have concat: "replies (concat (map f xs)) = {#}" if "\<And>x. replies (f x) = {#}" for f and xs :: "'a list"
    using that by (induction xs) simp_all
  show b: "replies (broadcast_out env ps) = {#}" for ps
    by (induction ps) (auto split: sum.split)
  show d: "replies (discovery_out env n k nm ev ks') = {#}" for k nm ev ks'
    by (simp add: discovery_out_def local_discovery_out_def split: option.split sum.split)
  show r: "replies (route_out env n ks) = {#}" for ks by (simp add: route_out_def b)
  show a: "replies (announce_out env n ev k') = {#}" for ev k' by (simp add: announce_out_def concat d)
  show "replies (registered_out env n k') = {#}" by (simp add: registered_out_def r a)
  show "replies (unregistered_out env n ks) = {#}" by (simp add: unregistered_out_def r a concat)
qed

section \<open>Handlers\<close>

lemma settles_dispatched:
  assumes "effect_request (PostService target t) = Some (s, c)"
  shows "settles {#(s, c)#} n (case dispatch_local target mid t n of (err, m) \<Rightarrow>
     if err \<noteq> None then respondRPCError env s c err m else m)"
proof (cases rule: dispatch_local_cases [of target mid t n])
  case posted
  with assms show ?thesis by (simp add: settles_out replies_to_def)
qed (simp add: respondRPCError_eq)

lemma settles_with_receive_request:
  assumes "\<And>n. settles R n (body n)"
  shows "settles R n (with_receive_request pick body n)"
proof -
  obtain request pool where a: "acquireDeliverReceiveRequest pick (n_receivePool n) = (request, pool)"
    by fastforce
  show ?thesis
    using assms [of "n\<lparr>n_receivePool := pool\<rparr>"]
    by (rule settles_cong) (simp_all add: with_receive_request_def a accounted_def Let_def)
qed

lemma settles_deliver: "settles {#(s, c)#} n (handle_deliver env pick s c payload n)"
  unfolding handle_deliver_def
  by (rule settles_with_receive_request)
    (auto simp: Let_def dispatch_defs settles_dispatched respondRPCError_eq split: sum.split
      simp del: not_None_eq)

lemma settles_link:
  "settles {#(s, c)#} n (out (response_out env s c msg) (post_control (ArmTask s)
     (n\<lparr>n_sessions := ses, n_remoteNodes := tab\<rparr>)))"
proof -
  let ?n = "n\<lparr>n_sessions := ses, n_remoteNodes := tab\<rparr>"
  have "settles {#(s, c)#} ?n (out (response_out env s c msg) (post_control (ArmTask s) ?n))"
    by (rule settles_arm_respond)
  then show ?thesis by (rule settles_cong) (simp_all add: accounted_def)
qed

lemma settles_register_node: "settles {#(s, c)#} n (handleRegisterNode env s c payload n)"
  by (simp add: handleRegisterNode_def Let_def respond_eqs refreshRemoteHeartbeat_def armRemoteNodeTimeout_def
      set_remote_def settles_link split: sum.split option.split)

lemma settles_request: "settles {#(s, c)#} n (handleRPCRequest env pick s c rpk n)"
proof -
  have "settles {#(s, c)#} n (handle_register env s c r payload n)"
    "settles {#(s, c)#} n (handle_unregister env s c r payload n)"
    "settles {#(s, c)#} n (handle_subscribe env s c r payload n)"
    "settles {#(s, c)#} n (handle_lookup env s c payload n)" for r payload
    by (auto simp: handle_register_def handle_unregister_def handle_subscribe_def handle_lookup_def Let_def
        respond_eqs settles_post split: sum.split option.split)
  moreover have "settles {#(s, c)#} n (handle_heartbeat env s c payload n)" for payload
    by (auto simp: handle_heartbeat_def respond_eqs refreshRemoteHeartbeat_def armRemoteNodeTimeout_def
        settles_arm_respond split: sum.split)
  ultimately show ?thesis
    by (simp add: handleRPCRequest_def respond_eqs settles_register_node settles_deliver split: sum.split)
qed

lemma settles_direct: "settles {#} n (handleRPCDirect env pick s rpk n)"
proof -
  have reported: "settles {#} n (report err n)" for err n
    by (rule settles_same) (simp_all add: report_eq report_out_def split: option.split)
  have "settles {#} n (case dispatch_local target mid (DirectTask source target mid p) n of (err, m) \<Rightarrow> report err m)"
    for source target mid p n
  proof (cases rule: dispatch_local_cases [of target mid "DirectTask source target mid p" n])
    case posted
    then show ?thesis by (simp add: report_def settles_same)
  qed (simp add: reported)
  then have "settles {#} n (case decodeDeliverRequest env request of
      Inl err \<Rightarrow> report (Some (rpcInvalidMessage err)) n
    | Inr (source, target, messageID, mode) \<Rightarrow>
        if mode \<noteq> deliverRequestModeDirect
        then report (Some (rpcInvalidMessage (Errorf
          ''deliver mode %s is invalid for a direct message'' [ArgS (mode_String mode)]))) n
        else (case dispatchLocalDirect source target messageID (dr_Payload request) n of
                (err, n) \<Rightarrow> report err n))" for n request
    by (auto simp: dispatchLocalDirect_def reported split: sum.split)
  then show ?thesis
    by (auto simp: handleRPCDirect_def reported split: sum.split intro!: settles_with_receive_request)
qed

section \<open>The control loop\<close>

lemma settles_running:
  assumes "n_running n = None"
  shows "settles (opt_mset (task_request t)) n (n\<lparr>n_running := Some t\<rparr>)"
    "settles (opt_mset (task_request t)) n (n\<lparr>n_sessions := ses, n_running := Some t\<rparr>)"
  using assms by (intro settlesI [where D = "{#}"]; simp add: accounted_def)+

lemma settles_begin:
  assumes "n_running n = None"
  shows "settles (opt_mset (task_request t)) n (task_begin env t n)"
  using settles_running [OF assms, of t] settles_same [of n n]
  by (cases t)
    (auto simp: task_begin_def task_current_def respondRPCError_eq arm_start_def set_remote_def
      split: option.splits)

text \<open>
  A closure that leaves the queues alone, pushes \<open>xs\<close> and ends with \<open>ys\<close>, which answer its
  request if it has one.
\<close>

lemma settles_task:
  assumes "n_running n = Some t" "k = out (xs @ ys) (m\<lparr>n_running := None\<rparr>)"
    "n_out m = n_out n" "n_posting m = n_posting n" "n_control m = n_control n" "replies xs = {#}"
    "case task_request t of Some (s, c) \<Rightarrow> replies_to s c ys | None \<Rightarrow> replies ys = {#}"
  shows "settles {#} n k"
proof -
  let ?D = "case task_request t of None \<Rightarrow> {#} | Some r \<Rightarrow> {#r#} - replies ys"
  have "accounted k + ?D = accounted n + {#}"
    using assms by (auto simp: accounted_def replies_to_def split: option.splits)
  moreover have "count ?D r + reports (n_out n) \<le> reports (n_out k)" for r
    using assms by (auto simp: replies_to_def split: option.splits)
  ultimately show ?thesis by (rule settlesI)
qed

lemma settles_respond_task:
  assumes "n_running n = Some t" "task_request t = Some (s, c)"
    "outcome = (None, out xs m) \<or> (\<exists>e. outcome = (Some e, n) \<and> xs = [] \<and> m = n)"
    "n_out m = n_out n" "n_posting m = n_posting n" "n_control m = n_control n" "replies xs = {#}"
  shows "settles {#} n ((respond_task env s c msg outcome)\<lparr>n_running := None\<rparr>)"
  using assms(3)
proof (elim disjE exE conjE)
  assume "outcome = (None, out xs m)"
  with assms show ?thesis
    by (intro settles_task [OF assms(1), where xs = xs and m = m and ys = "response_out env s c msg"])
      (simp_all add: respond_task_def respondRPC_eq out_update)
next
  fix e assume "outcome = (Some e, n)" "xs = []" "m = n"
  with assms show ?thesis
    by (intro settles_task [OF assms(1), where xs = "[]" and m = n and ys = "error_out env s c (Some e)"])
      (simp_all add: respond_task_def respondRPCError_eq out_update)
qed

lemma settles_call_done:
  assumes "n_running n = Some t" "task_request t = None"
    "outcome = (None, out xs m) \<or> (\<exists>e. outcome = (Some e, n) \<and> xs = [] \<and> m = n)"
    "n_out m = n_out n" "n_posting m = n_posting n" "n_control m = n_control n" "replies xs = {#}"
  shows "settles {#} n ((call_done t outcome)\<lparr>n_running := None\<rparr>)"
proof -
  have "call_done t outcome = out (xs @ [CallDone t (fst outcome)]) m"
    using assms(3) by (auto simp: call_done_def emit_out)
  with assms show ?thesis
    by (intro settles_task [OF assms(1), where xs = xs and m = m and ys = "[CallDone t (fst outcome)]"])
      (simp_all add: out_update)
qed

text \<open>What the three operations of the main node return.\<close>

definition answers_main :: "server_node \<Rightarrow> gerror option \<times> server_node \<Rightarrow> bool" where
  "answers_main n outcome \<longleftrightarrow> (\<exists>xs m.
     (outcome = (None, out xs m) \<or> (\<exists>e. outcome = (Some e, n) \<and> xs = [] \<and> m = n)) \<and>
     n_out m = n_out n \<and> n_posting m = n_posting n \<and> n_control m = n_control n \<and> replies xs = {#})"

lemma answers_mainI:
  "n_out m = n_out n \<Longrightarrow> n_posting m = n_posting n \<Longrightarrow> n_control m = n_control n \<Longrightarrow> replies xs = {#} \<Longrightarrow>
     answers_main n (None, out xs m)"
  "answers_main n (Some e, n)"
  unfolding answers_main_def by blast (intro exI [of _ "[]"] exI [of _ n], simp)

lemma answers_main_ops:
  "answers_main n (register_on_main env l n)" "answers_main n (unregister_on_main env k i n)"
  "answers_main n (subscribe_on_main env k i nm n)"
  by (auto simp: register_on_main_eq unregister_on_main_eq subscribe_on_main_eq unregister_state_def
      drop_subscribers_def subscribe_state_def split: sum.split option.split intro!: answers_mainI)

lemma settles_answer:
  assumes "n_running n = Some t" "answers_main n outcome"
  shows "task_request t = Some (s, c) \<Longrightarrow> settles {#} n ((respond_task env s c msg outcome)\<lparr>n_running := None\<rparr>)"
    and "task_request t = None \<Longrightarrow> settles {#} n ((call_done t outcome)\<lparr>n_running := None\<rparr>)"
  using assms(2) settles_respond_task [OF assms(1)] settles_call_done [OF assms(1)]
  unfolding answers_main_def by blast+

lemma settles_commit:
  assumes "n_running n = Some t"
  shows "settles {#} n ((task_commit env t n)\<lparr>n_running := None\<rparr>)"
proof (cases t)
  case (NodeGoneTask i)
  let ?m = "unregister_state (serviceKeysForNode i n) (registry_UnregisterNode i (n_registry n)) n"
  show ?thesis
    using NodeGoneTask
    by (intro settles_task [OF assms, where xs = "unregistered_out env ?m (serviceKeysForNode i n)" and ys = "[]" and m = ?m])
      (simp_all add: task_commit_def node_gone_eq Let_def out_update unregister_state_def drop_subscribers_def)
next
  case (ArmTask s)
  then show ?thesis
    using assms by (intro settles_same)
      (auto simp: task_commit_def arm_recheck_def set_remote_def accounted_def split: option.split)
qed (use settles_answer [OF assms] answers_main_ops in \<open>simp_all add: task_commit_def\<close>)

section \<open>Runs\<close>

primrec event_request :: "server_event \<Rightarrow> (session \<times> int) multiset" where
  "event_request (Request s c _ _) = {#(s, c)#}"
| "event_request (Accept _) = {#}"
| "event_request (Direct _ _ _) = {#}"
| "event_request (SessionClosed _) = {#}"
| "event_request (HeartbeatExpired _) = {#}"
| "event_request (Unlink _) = {#}"
| "event_request (Enqueue _) = {#}"
| "event_request (LocalCall _) = {#}"
| "event_request TaskBegin = {#}"
| "event_request TaskCommit = {#}"

lemma settles_step: "server_step env n e m \<Longrightarrow> settles (event_request e) n m"
proof (induction rule: server_step.induct)
  case (step_Enqueue i n)
  then show ?case using waiting_drop_nth [of i "n_posting n"]
    by (intro settlesI [where D = "{#}"]) (simp_all add: accounted_def ac_simps)
next
  case (step_TaskBegin n task rest)
  let ?n = "n\<lparr>n_control := rest\<rparr>"
  have "accounted n = accounted ?n + opt_mset (task_request task)"
    using step_TaskBegin by (simp add: accounted_def ac_simps)
  moreover have "settles (opt_mset (task_request task)) ?n (task_begin env task ?n)"
    using step_TaskBegin by (intro settles_begin) simp
  ultimately show ?case by (simp add: settles_def)
next
  case (step_LocalCall n task)
  then have "settles {#} n (post_control task n)"
    by (intro settles_same) (auto simp: local_task_def accounted_post split: control_task.splits)
  then show ?case by simp
next
  case (step_Unlink i n s c)
  have "settles {#} n (removeRemoteNode_unlink s c (n\<lparr>n_removing := drop_nth i (n_removing n)\<rparr>))"
    by (rule settles_same)
      (auto simp: removeRemoteNode_unlink_def Let_def set_remote_def post_control_def emit_def accounted_def
        split: option.split)
  then show ?case by simp
qed (auto simp: settles_request settles_direct settles_commit onAccept_def armRemoteNodeTimeout_def
    post_control_def set_remote_def removeRemoteNode_swap_def accounted_def remoteNodeFromSession_def
    split: option.split intro!: settles_same)

primrec requests :: "server_event list \<Rightarrow> (session \<times> int) multiset" where
  "requests [] = {#}"
| "requests (e # es) = event_request e + requests es"

lemma settles_trans:
  assumes "settles R n m" "settles S m k"
  shows "settles (R + S) n k"
  unfolding settles_def
proof (intro conjI allI)
  have "accounted k \<subseteq># accounted m + S" using assms(2) by (simp add: settles_def)
  also have "accounted m + S \<subseteq># accounted n + R + S" using assms(1) by (simp add: settles_def)
  finally show "accounted k \<subseteq># accounted n + (R + S)" by (simp add: add.assoc)
  fix x
  have "count (accounted n + R) x + reports (n_out n) \<le> count (accounted m) x + reports (n_out m)"
    "count (accounted m + S) x + reports (n_out m) \<le> count (accounted k) x + reports (n_out k)"
    using assms unfolding settles_def by blast+
  then show "count (accounted n + (R + S)) x + reports (n_out n) \<le> count (accounted k) x + reports (n_out k)"
    by simp
qed

lemma settles_run: "server_run env es n = Some m \<Longrightarrow> settles (requests es) n m"
proof (induction es arbitrary: n)
  case (Cons e es)
  then obtain k where k: "server_exec env e n = Some k" "server_run env es k = Some m"
    by (auto split: option.splits)
  from settles_trans [OF settles_step [OF server_exec_step [OF k(1)]] Cons.IH [OF k(2)]]
  show ?case by simp
qed (auto intro: settles_same)



end
