(* ===== verification/Route_Cache.thy ===== *)
theory Route_Cache
  imports Registry Go_Error "HOL-Library.Word"
begin

text \<open>
  \<^verbatim>\<open>route_cache.go\<close>: the cache of service locations of a node that is not the main node. The
  code is split at its lock boundaries, one definition for each critical section, and the
  goroutines that run \<^verbatim>\<open>lookup\<close> concurrently with \<^verbatim>\<open>invalidate\<close> and
  \<^verbatim>\<open>invalidateAll\<close> are a transition system over these sections. The counters
  \<^verbatim>\<open>epoch\<close> and \<^verbatim>\<open>revisions\<close> are 64-bit words and wrap around.
\<close>

section \<open>Data\<close>

text \<open>
  A time is the number of nanoseconds since the zero time, as \<^verbatim>\<open>time.Time\<close> counts them.
\<close>

type_synonym go_time = int

definition IsZero :: "go_time \<Rightarrow> bool" where
  "IsZero t \<longleftrightarrow> t = 0"

record routeCacheEntry =
  re_location :: ServiceLocation
  re_expiresAt :: go_time

text \<open>
  A lookup in flight. The fields \<^verbatim>\<open>location\<close> and \<^verbatim>\<open>err\<close> are one result; the channel
  \<^verbatim>\<open>done\<close> is whether it has been closed.
\<close>

record routeLookupCall =
  rl_done :: bool
  rl_result :: "ServiceLocation result"
  rl_epoch :: "64 word"
  rl_revision :: "64 word"
  rl_stale :: bool

text \<open>The pointers to calls are indexes of the list of all calls ever allocated.\<close>

type_synonym call_heap = "routeLookupCall list"

record serviceRouteCache =
  ttl :: int
  enabled :: bool
  entries :: "(ServiceKey, routeCacheEntry) gomap"
  lookups :: "(ServiceKey, nat) gomap"
  epoch :: "64 word"
  revisions :: "(ServiceKey, 64 word) gomap"

definition newServiceRouteCache :: "int \<Rightarrow> bool \<Rightarrow> serviceRouteCache" where
  "newServiceRouteCache t en =
     \<lparr>ttl = t, enabled = en, entries = [], lookups = [], epoch = 0, revisions = []\<rparr>"

text \<open>Reading a key that a Go map lacks gives the zero value.\<close>

definition revision_of :: "serviceRouteCache \<Rightarrow> ServiceKey \<Rightarrow> 64 word" where
  "revision_of c key = (case go_get (revisions c) key of None \<Rightarrow> 0 | Some r \<Rightarrow> r)"

section \<open>The critical sections\<close>

definition unexpired :: "go_time \<Rightarrow> routeCacheEntry \<Rightarrow> bool" where
  "unexpired now entry \<longleftrightarrow> IsZero (re_expiresAt entry) \<or> now < re_expiresAt entry"

text \<open>The first section of \<^verbatim>\<open>lookup\<close>, under the read lock.\<close>

definition lookup_fast :: "ServiceKey \<Rightarrow> go_time \<Rightarrow> serviceRouteCache \<Rightarrow> ServiceLocation option" where
  "lookup_fast key now c =
     (case go_get (entries c) key of
        None \<Rightarrow> None
      | Some entry \<Rightarrow> if unexpired now entry then Some (re_location entry) else None)"

text \<open>
  The second section, under the write lock: the entry is checked again, an expired one is
  deleted, and then the lookup in flight is joined or a new one is begun.
\<close>

datatype lookup_outcome = Hit ServiceLocation | Join nat | Begin nat

definition lookup_miss ::
    "ServiceKey \<Rightarrow> serviceRouteCache \<Rightarrow> call_heap \<Rightarrow> lookup_outcome \<times> serviceRouteCache \<times> call_heap" where
  "lookup_miss key c calls =
     (let ep = epoch c; rv = revision_of c key;
          begin_call = (Begin (length calls),
            c\<lparr>lookups := go_put key (length calls) (lookups c)\<rparr>,
            calls @ [\<lparr>rl_done = False, rl_result = Inr zero_location, rl_epoch = ep,
                       rl_revision = rv, rl_stale = False\<rparr>])
      in case go_get (lookups c) key of
           None \<Rightarrow> begin_call
         | Some p \<Rightarrow>
             if rl_epoch (calls ! p) = ep \<and> rl_revision (calls ! p) = rv then (Join p, c, calls)
             else begin_call)"

definition lookup_slow ::
    "ServiceKey \<Rightarrow> go_time \<Rightarrow> serviceRouteCache \<Rightarrow> call_heap \<Rightarrow>
     lookup_outcome \<times> serviceRouteCache \<times> call_heap" where
  "lookup_slow key now c calls =
     (case go_get (entries c) key of
        None \<Rightarrow> lookup_miss key c calls
      | Some entry \<Rightarrow>
          if unexpired now entry then (Hit (re_location entry), c, calls)
          else lookup_miss key (c\<lparr>entries := go_del key (entries c)\<rparr>) calls)"

text \<open>The third section, after \<^verbatim>\<open>load\<close> has returned \<open>res\<close> to the goroutine that began call \<open>p\<close>.\<close>

definition lookup_finish ::
    "ServiceKey \<Rightarrow> nat \<Rightarrow> 64 word \<Rightarrow> 64 word \<Rightarrow> ServiceLocation result \<Rightarrow> go_time \<Rightarrow>
     serviceRouteCache \<Rightarrow> call_heap \<Rightarrow> serviceRouteCache \<times> call_heap" where
  "lookup_finish key p ep rv res now c calls =
     (let stale = (epoch c \<noteq> ep \<or> revision_of c key \<noteq> rv);
          call = (calls ! p)\<lparr>rl_result := res, rl_stale := stale, rl_done := True\<rparr>;
          c1 = (case res of
                  Inl _ \<Rightarrow> c
                | Inr location \<Rightarrow>
                    if \<not> stale \<and> enabled c
                    then c\<lparr>entries := go_put key
                      \<lparr>re_location = location, re_expiresAt = (if 0 < ttl c then now + ttl c else 0)\<rparr>
                      (entries c)\<rparr>
                    else c);
          c2 = (if go_get (lookups c1) key = Some p
                then c1\<lparr>lookups := go_del key (lookups c1)\<rparr> else c1)
      in (c2, calls[p := call]))"

definition cache_invalidate :: "ServiceKey \<Rightarrow> serviceRouteCache \<Rightarrow> serviceRouteCache" where
  "cache_invalidate key c =
     c\<lparr>entries := go_del key (entries c),
       revisions := go_put key (revision_of c key + 1) (revisions c)\<rparr>"

definition cache_invalidateAll :: "serviceRouteCache \<Rightarrow> serviceRouteCache" where
  "cache_invalidateAll c = c\<lparr>entries := [], epoch := epoch c + 1\<rparr>"

section \<open>Goroutines\<close>

text \<open>
  Where a goroutine inside \<^verbatim>\<open>lookup\<close> is: before reading the clock, before the section under
  the read lock, before the section under the write lock, blocked on the channel of a call
  it joined, running \<^verbatim>\<open>load\<close> for a call it began, or back at its caller.
\<close>

datatype lookup_pc =
    AtClock
  | AtFast go_time
  | AtSlow
  | Waiting nat
  | Loading nat "64 word" "64 word"
  | Returned "ServiceLocation result"

record lookup_thread =
  th_key :: ServiceKey
  th_pc :: lookup_pc
  th_start :: nat
  th_retries :: nat

text \<open>
  The system. The fields from \<open>epochs\<close> on and the two counters of a thread are history:
  the numbers of invalidations without wrap-around, and for every call its key and these
  numbers when it began. No step depends on them.
\<close>

record cache_system =
  cs_cache :: serviceRouteCache
  cs_calls :: call_heap
  cs_threads :: "lookup_thread list"
  cs_now :: go_time
  epochs :: nat
  revs :: "ServiceKey \<Rightarrow> nat"
  births :: "(ServiceKey \<times> nat \<times> nat) list"

definition inval_count :: "cache_system \<Rightarrow> ServiceKey \<Rightarrow> nat" where
  "inval_count s k = epochs s + revs s k"

definition birth_count :: "cache_system \<Rightarrow> nat \<Rightarrow> nat" where
  "birth_count s p = (case births s ! p of (_, e, r) \<Rightarrow> e + r)"

definition set_pc :: "nat \<Rightarrow> lookup_pc \<Rightarrow> cache_system \<Rightarrow> cache_system" where
  "set_pc i pc s = s\<lparr>cs_threads := (cs_threads s)[i := (cs_threads s ! i)\<lparr>th_pc := pc\<rparr>]\<rparr>"

text \<open>
  Leaving the loop body with the outcome of call \<open>p\<close>: \<^verbatim>\<open>continue\<close> when it is stale, return
  its result otherwise.
\<close>

definition conclude :: "nat \<Rightarrow> nat \<Rightarrow> cache_system \<Rightarrow> cache_system" where
  "conclude i p s =
     (let th = cs_threads s ! i; call = cs_calls s ! p in
      s\<lparr>cs_threads := (cs_threads s)[i :=
        (if rl_stale call then th\<lparr>th_pc := AtClock, th_retries := Suc (th_retries th)\<rparr>
         else th\<lparr>th_pc := Returned (rl_result call)\<rparr>)]\<rparr>)"

datatype cache_event =
    Enter ServiceKey
  | ReadClock nat
  | FastSection nat
  | SlowSection nat
  | FinishSection nat "ServiceLocation result"
  | Wake nat
  | Invalidate ServiceKey
  | InvalidateAll
  | Tick nat

inductive cache_step :: "cache_system \<Rightarrow> cache_event \<Rightarrow> cache_system \<Rightarrow> bool" where
  step_Enter:
    "cache_step s (Enter k) (s\<lparr>cs_threads := cs_threads s @
       [\<lparr>th_key = k, th_pc = AtClock, th_start = inval_count s k, th_retries = 0\<rparr>]\<rparr>)"
| step_ReadClock:
    "i < length (cs_threads s) \<Longrightarrow> th_pc (cs_threads s ! i) = AtClock \<Longrightarrow>
     cache_step s (ReadClock i) (set_pc i (AtFast (cs_now s)) s)"
| step_FastHit:
    "i < length (cs_threads s) \<Longrightarrow> th_pc (cs_threads s ! i) = AtFast now \<Longrightarrow>
     lookup_fast (th_key (cs_threads s ! i)) now (cs_cache s) = Some l \<Longrightarrow>
     cache_step s (FastSection i) (set_pc i (Returned (Inr l)) s)"
| step_FastMiss:
    "i < length (cs_threads s) \<Longrightarrow> th_pc (cs_threads s ! i) = AtFast now \<Longrightarrow>
     lookup_fast (th_key (cs_threads s ! i)) now (cs_cache s) = None \<Longrightarrow>
     cache_step s (FastSection i) (set_pc i AtSlow s)"
| step_SlowHit:
    "i < length (cs_threads s) \<Longrightarrow> th_pc (cs_threads s ! i) = AtSlow \<Longrightarrow>
     lookup_slow (th_key (cs_threads s ! i)) (cs_now s) (cs_cache s) (cs_calls s) = (Hit l, c, cl) \<Longrightarrow>
     cache_step s (SlowSection i) (set_pc i (Returned (Inr l)) (s\<lparr>cs_cache := c, cs_calls := cl\<rparr>))"
| step_SlowJoin:
    "i < length (cs_threads s) \<Longrightarrow> th_pc (cs_threads s ! i) = AtSlow \<Longrightarrow>
     lookup_slow (th_key (cs_threads s ! i)) (cs_now s) (cs_cache s) (cs_calls s) = (Join p, c, cl) \<Longrightarrow>
     cache_step s (SlowSection i) (set_pc i (Waiting p) (s\<lparr>cs_cache := c, cs_calls := cl\<rparr>))"
| step_SlowBegin:
    "i < length (cs_threads s) \<Longrightarrow> th_pc (cs_threads s ! i) = AtSlow \<Longrightarrow> k = th_key (cs_threads s ! i) \<Longrightarrow>
     lookup_slow k (cs_now s) (cs_cache s) (cs_calls s) = (Begin p, c, cl) \<Longrightarrow>
     cache_step s (SlowSection i)
       (set_pc i (Loading p (epoch (cs_cache s)) (revision_of (cs_cache s) k))
         (s\<lparr>cs_cache := c, cs_calls := cl, births := births s @ [(k, epochs s, revs s k)]\<rparr>))"
| step_Finish:
    "i < length (cs_threads s) \<Longrightarrow> th_pc (cs_threads s ! i) = Loading p ep rv \<Longrightarrow>
     lookup_finish (th_key (cs_threads s ! i)) p ep rv res (cs_now s) (cs_cache s) (cs_calls s) = (c, cl) \<Longrightarrow>
     cache_step s (FinishSection i res) (conclude i p (s\<lparr>cs_cache := c, cs_calls := cl\<rparr>))"
| step_Wake:
    "i < length (cs_threads s) \<Longrightarrow> th_pc (cs_threads s ! i) = Waiting p \<Longrightarrow>
     rl_done (cs_calls s ! p) \<Longrightarrow> cache_step s (Wake i) (conclude i p s)"

| step_Invalidate:
    "cache_step s (Invalidate k) (s\<lparr>cs_cache := cache_invalidate k (cs_cache s),
       revs := (revs s)(k := Suc (revs s k))\<rparr>)"
| step_InvalidateAll:
    "cache_step s InvalidateAll (s\<lparr>cs_cache := cache_invalidateAll (cs_cache s),
       epochs := Suc (epochs s)\<rparr>)"
| step_Tick:
    "cache_step s (Tick d) (s\<lparr>cs_now := cs_now s + int d\<rparr>)"

text \<open>Initially no goroutine is inside \<^verbatim>\<open>lookup\<close>, and the clock is past the zero time.\<close>

definition cache_init :: "int \<Rightarrow> bool \<Rightarrow> cache_system \<Rightarrow> bool" where
  "cache_init t en s \<longleftrightarrow> cs_cache s = newServiceRouteCache t en \<and> cs_calls s = [] \<and>
     cs_threads s = [] \<and> 0 < cs_now s \<and> epochs s = 0 \<and> revs s = (\<lambda>k. 0) \<and> births s = []"

abbreviation cache_reach :: "int \<Rightarrow> bool \<Rightarrow> cache_system \<Rightarrow> bool" where
  "cache_reach t en \<equiv> reach (cache_init t en) cache_step"

section \<open>What the sections do\<close>

lemma revision_of_upd [simp]:
  "revision_of (c\<lparr>entries := es\<rparr>) k = revision_of c k"
  "revision_of (c\<lparr>lookups := ls\<rparr>) k = revision_of c k"
  "revision_of (c\<lparr>epoch := ep\<rparr>) k = revision_of c k"
  by (simp_all add: revision_of_def)

lemma revision_of_new [simp]: "revision_of (newServiceRouteCache t en) k = 0"
  by (simp add: revision_of_def newServiceRouteCache_def)

lemma revision_of_invalidate [simp]:
  "revision_of (cache_invalidate k c) k' = (if k' = k then revision_of c k + 1 else revision_of c k')"
  by (simp add: cache_invalidate_def revision_of_def)

lemma revision_of_invalidateAll [simp]: "revision_of (cache_invalidateAll c) k = revision_of c k"
  by (simp add: cache_invalidateAll_def)

text \<open>The entry of a key is dropped once it has expired.\<close>

definition purge :: "ServiceKey \<Rightarrow> serviceRouteCache \<Rightarrow> serviceRouteCache" where
  "purge k c = (case go_get (entries c) k of None \<Rightarrow> c | Some _ \<Rightarrow> c\<lparr>entries := go_del k (entries c)\<rparr>)"

lemma purge_simps [simp]:
  "lookups (purge k c) = lookups c" "epoch (purge k c) = epoch c"
  "revision_of (purge k c) k' = revision_of c k'" "ttl (purge k c) = ttl c"
  "enabled (purge k c) = enabled c"
  "go_get (entries (purge k c)) k' = (if k' = k then None else go_get (entries c) k')"
  by (auto simp: purge_def split: option.splits)

lemma lookup_fast_Some:
  "lookup_fast k now c = Some l \<longleftrightarrow>
     (\<exists>e. go_get (entries c) k = Some e \<and> unexpired now e \<and> l = re_location e)"
  by (auto simp: lookup_fast_def split: option.splits if_splits)

lemma lookup_slow_Hit:
  "lookup_slow k now c calls = (Hit l, c', cl) \<longleftrightarrow>
     (\<exists>e. go_get (entries c) k = Some e \<and> unexpired now e \<and> l = re_location e) \<and>
     c' = c \<and> cl = calls"
  by (auto simp: lookup_slow_def lookup_miss_def Let_def split: option.splits if_splits)

lemma lookup_slow_Join:
  assumes "lookup_slow k now c calls = (Join p, c', cl)"
  shows "go_get (lookups c) k = Some p \<and> rl_epoch (calls ! p) = epoch c \<and>
     rl_revision (calls ! p) = revision_of c k \<and> c' = purge k c \<and> cl = calls"
  using assms
  by (auto simp: lookup_slow_def lookup_miss_def purge_def Let_def split: option.splits if_splits)

lemma lookup_slow_Begin:
  assumes "lookup_slow k now c calls = (Begin p, c', cl)"
  shows "p = length calls \<and>
     (\<forall>q. go_get (lookups c) k = Some q \<longrightarrow>
        rl_epoch (calls ! q) \<noteq> epoch c \<or> rl_revision (calls ! q) \<noteq> revision_of c k) \<and>
     c' = (purge k c)\<lparr>lookups := go_put k p (lookups c)\<rparr> \<and>
     cl = calls @ [\<lparr>rl_done = False, rl_result = Inr zero_location, rl_epoch = epoch c,
                    rl_revision = revision_of c k, rl_stale = False\<rparr>]"
  using assms
  by (auto simp: lookup_slow_def lookup_miss_def purge_def Let_def split: option.splits if_splits)

lemma lookup_finish_eq:
  assumes "lookup_finish k p ep rv res now c calls = (c', cl)"
  shows "cl = calls[p := (calls ! p)\<lparr>rl_result := res,
            rl_stale := (epoch c \<noteq> ep \<or> revision_of c k \<noteq> rv), rl_done := True\<rparr>]"
    and "epoch c' = epoch c" "revision_of c' k' = revision_of c k'" "ttl c' = ttl c"
    and "enabled c' = enabled c"
    and "go_get (lookups c') k' =
           (if k' = k \<and> go_get (lookups c) k = Some p then None else go_get (lookups c) k')"
    and "go_get (entries c') k' =
           (case res of
              Inr location \<Rightarrow>
                if k' = k \<and> enabled c \<and> epoch c = ep \<and> revision_of c k = rv
                then Some \<lparr>re_location = location,
                           re_expiresAt = (if 0 < ttl c then now + ttl c else 0)\<rparr>
                else go_get (entries c) k'
            | Inl _ \<Rightarrow> go_get (entries c) k')"
  using assms
  by (auto simp: lookup_finish_def Let_def split: sum.splits if_splits)

section \<open>Well-formed systems\<close>

text \<open>The history agrees with the words of the code, and pointers are valid.\<close>

definition words_ok :: "cache_system \<Rightarrow> bool" where
  "words_ok s \<longleftrightarrow> epoch (cs_cache s) = of_nat (epochs s) \<and>
     (\<forall>k. revision_of (cs_cache s) k = of_nat (revs s k)) \<and>
     length (births s) = length (cs_calls s) \<and>
     (\<forall>p k e r. p < length (cs_calls s) \<longrightarrow> births s ! p = (k, e, r) \<longrightarrow>
        e \<le> epochs s \<and> r \<le> revs s k \<and>
        rl_epoch (cs_calls s ! p) = of_nat e \<and> rl_revision (cs_calls s ! p) = of_nat r)"

definition lookups_ok :: "cache_system \<Rightarrow> bool" where
  "lookups_ok s \<longleftrightarrow>
     (\<forall>k p. go_get (lookups (cs_cache s)) k = Some p \<longrightarrow>
        p < length (cs_calls s) \<and> fst (births s ! p) = k \<and> \<not> rl_done (cs_calls s ! p))"

definition thread_ok :: "cache_system \<Rightarrow> lookup_thread \<Rightarrow> bool" where
  "thread_ok s th \<longleftrightarrow>
     (case th_pc th of
        Waiting p \<Rightarrow> p < length (cs_calls s) \<and> fst (births s ! p) = th_key th
      | Loading p ep rv \<Rightarrow> p < length (cs_calls s) \<and> fst (births s ! p) = th_key th \<and>
          \<not> rl_done (cs_calls s ! p) \<and>
          ep = rl_epoch (cs_calls s ! p) \<and> rv = rl_revision (cs_calls s ! p)
      | _ \<Rightarrow> True)"

definition threads_ok :: "cache_system \<Rightarrow> bool" where
  "threads_ok s \<longleftrightarrow> (\<forall>i < length (cs_threads s). thread_ok s (cs_threads s ! i))"

text \<open>A call that is not done is loaded by one goroutine, and by one only.\<close>

definition loads :: "lookup_thread \<Rightarrow> nat option" where
  "loads th = (case th_pc th of Loading p _ _ \<Rightarrow> Some p | _ \<Rightarrow> None)"

definition loaders_ok :: "nat option list \<Rightarrow> nat set \<Rightarrow> bool" where
  "loaders_ok ps open_calls \<longleftrightarrow>
     (\<forall>i j p. i < length ps \<longrightarrow> j < length ps \<longrightarrow> ps ! i = Some p \<longrightarrow> ps ! j = Some p \<longrightarrow> i = j) \<and>
     (\<forall>p \<in> open_calls. \<exists>i < length ps. ps ! i = Some p)"

definition open_calls :: "call_heap \<Rightarrow> nat set" where
  "open_calls calls = {p. p < length calls \<and> \<not> rl_done (calls ! p)}"

definition one_loader :: "cache_system \<Rightarrow> bool" where
  "one_loader s \<longleftrightarrow> loaders_ok (map loads (cs_threads s)) (open_calls (cs_calls s))"

lemma loaders_begin:
  assumes "loaders_ok ps D" "i < length ps" "ps ! i = None" "\<forall>j < length ps. ps ! j \<noteq> Some p"
  shows "loaders_ok (ps[i := Some p]) (insert p D)"
  unfolding loaders_ok_def
proof (intro conjI ballI allI impI)
  fix q assume "q \<in> insert p D"
  then consider "q = p" | j where "j < length ps" "ps ! j = Some q"
    using assms(1) by (auto simp: loaders_ok_def)
  then show "\<exists>j < length (ps[i := Some p]). ps[i := Some p] ! j = Some q"
  proof cases
    case 1 with assms(2) show ?thesis by (intro exI [of _ i]) simp
  next
    case 2 with assms(3) show ?thesis by (intro exI [of _ j]) (auto simp: nth_upd)
  qed
qed (use assms in \<open>auto simp: loaders_ok_def nth_upd split: if_splits\<close>)

lemma loaders_finish:
  assumes "loaders_ok ps D" "i < length ps" "ps ! i = Some p"
  shows "loaders_ok (ps[i := None]) (D - {p})"
  unfolding loaders_ok_def
proof (intro conjI ballI allI impI)
  fix q assume "q \<in> D - {p}"
  then obtain j where "j < length ps" "ps ! j = Some q" "q \<noteq> p"
    using assms(1) by (auto simp: loaders_ok_def)
  with assms(3) show "\<exists>j < length (ps[i := None]). ps[i := None] ! j = Some q"
    by (intro exI [of _ j]) (auto simp: nth_upd)
qed (use assms in \<open>auto simp: loaders_ok_def nth_upd split: if_splits\<close>)

lemma conclude_simps [simp]:
  "cs_cache (conclude i p s) = cs_cache s" "cs_calls (conclude i p s) = cs_calls s"
  "births (conclude i p s) = births s" "epochs (conclude i p s) = epochs s"
  "revs (conclude i p s) = revs s" "cs_now (conclude i p s) = cs_now s"
  "length (cs_threads (conclude i p s)) = length (cs_threads s)"
  by (simp_all add: conclude_def Let_def)

lemma set_pc_simps [simp]:
  "cs_cache (set_pc i pc s) = cs_cache s" "cs_calls (set_pc i pc s) = cs_calls s"
  "births (set_pc i pc s) = births s" "epochs (set_pc i pc s) = epochs s"
  "revs (set_pc i pc s) = revs s" "cs_now (set_pc i pc s) = cs_now s"
  "length (cs_threads (set_pc i pc s)) = length (cs_threads s)"
  by (simp_all add: set_pc_def)

lemma words_ok_step:
  assumes "words_ok s" "cache_step s e t"
  shows "words_ok t"
  using assms(2,1)
proof (cases rule: cache_step.cases)
  case (step_SlowJoin i p c cl)
  with assms(1) show ?thesis by (auto simp: words_ok_def dest!: lookup_slow_Join)
next
  case (step_SlowBegin i k p c cl)
  with assms(1) show ?thesis
    by (auto simp: words_ok_def nth_append less_Suc_eq dest!: lookup_slow_Begin)
next
  case (step_Finish i p ep rv res c cl)
  note eq = lookup_finish_eq [OF step_Finish(5)]
  from assms(1) show ?thesis by (auto simp: step_Finish(2) words_ok_def eq nth_upd)
next
  case (step_InvalidateAll)
  with assms(1) show ?thesis by (auto simp: words_ok_def cache_invalidateAll_def le_Suc_eq)
next
  case (step_Invalidate k)
  with assms(1) show ?thesis
    by (auto simp: words_ok_def le_Suc_eq) (auto simp: cache_invalidate_def)
qed (auto simp: words_ok_def lookup_slow_Hit)

lemma lookups_ok_step:
  assumes "words_ok s" "lookups_ok s" "threads_ok s" "cache_step s e t"
  shows "lookups_ok t"
  using assms(4,2)
proof (cases rule: cache_step.cases)
  case (step_SlowJoin i p c cl)
  with assms(2) show ?thesis by (auto simp: lookups_ok_def dest!: lookup_slow_Join)
next
  case (step_SlowBegin i k p c cl)
  with assms(1,2) show ?thesis
    by (auto simp: words_ok_def lookups_ok_def nth_append dest!: lookup_slow_Begin split: if_splits)
next
  case (step_Finish i p ep rv res c cl)
  note eq = lookup_finish_eq [OF step_Finish(5)]
  from assms(3) step_Finish(3,4) have "fst (births s ! p) = th_key (cs_threads s ! i)"
    by (auto simp: threads_ok_def thread_ok_def)
  with assms(2) show ?thesis
    by (auto simp: step_Finish(2) lookups_ok_def eq nth_upd split: if_splits)
next
  case (step_InvalidateAll)
  with assms(2) show ?thesis by (auto simp: lookups_ok_def cache_invalidateAll_def)
next
  case (step_Invalidate k)
  with assms(2) show ?thesis by (auto simp: lookups_ok_def cache_invalidate_def)
qed (auto simp: lookups_ok_def lookup_slow_Hit)

text \<open>
  Threads are inspected one at a time: after a step a thread is the one that moved, a new
  one, or the same as before.
\<close>

lemma moved_pc:
  assumes "i < length (cs_threads s)"
  shows "cs_threads (set_pc i pc s) ! j =
     (if j = i then (cs_threads s ! i)\<lparr>th_pc := pc\<rparr> else cs_threads s ! j)"
  using assms by (simp add: set_pc_def nth_upd)

lemma moved_conclude:
  assumes "i < length (cs_threads s)"
  shows "cs_threads (conclude i p s) ! j =
     (if j \<noteq> i then cs_threads s ! j
      else if rl_stale (cs_calls s ! p)
      then (cs_threads s ! i)\<lparr>th_pc := AtClock, th_retries := Suc (th_retries (cs_threads s ! i))\<rparr>
      else (cs_threads s ! i)\<lparr>th_pc := Returned (rl_result (cs_calls s ! p))\<rparr>)"
  using assms by (simp add: conclude_def Let_def nth_upd)

lemmas moved = moved_pc moved_conclude

lemma threads_okD: "threads_ok s \<Longrightarrow> i < length (cs_threads s) \<Longrightarrow> thread_ok s (cs_threads s ! i)"
  by (simp add: threads_ok_def)

lemma thread_ok_cong:
  "cs_calls t = cs_calls s \<Longrightarrow> births t = births s \<Longrightarrow> thread_ok t th = thread_ok s th"
  by (auto simp: thread_ok_def split: lookup_pc.splits)

lemma thread_ok_snoc:
  assumes "thread_ok s th" "length (births s) = length (cs_calls s)"
    "cs_calls t = cs_calls s @ [x]" "births t = births s @ [b]"
  shows "thread_ok t th"
  using assms by (auto simp: thread_ok_def nth_append split: lookup_pc.splits)

text \<open>A step that moves one thread.\<close>

lemma threads_ok_move:
  assumes "threads_ok s" "i < length (cs_threads s)"
    "cs_threads t = (cs_threads s)[i := th]"
    "\<And>j. j < length (cs_threads s) \<Longrightarrow> j \<noteq> i \<Longrightarrow> thread_ok s (cs_threads s ! j) \<Longrightarrow>
       thread_ok t (cs_threads s ! j)"
    "thread_ok t th"
  shows "threads_ok t"
  using assms by (auto simp: threads_ok_def nth_list_update)

lemma threads_ok_step:
  assumes "words_ok s" "lookups_ok s" "threads_ok s" "one_loader s" "cache_step s e t"
  shows "threads_ok t"
  using assms(5,3)
proof (cases rule: cache_step.cases)
  case (step_SlowJoin i p c cl)
  note eq = lookup_slow_Join [OF step_SlowJoin(5)]
  from eq have "p < length (cs_calls s)" "fst (births s ! p) = th_key (cs_threads s ! i)"
    using assms(2) unfolding lookups_ok_def by blast+
  with eq show ?thesis
    by (intro threads_ok_move [OF assms(3) step_SlowJoin(3)])
      (auto simp: step_SlowJoin(2) set_pc_def thread_ok_def cong: lookup_pc.case_cong)
next
  case (step_SlowBegin i k p c cl)
  note eq = lookup_slow_Begin [OF step_SlowBegin(6)]
  have len: "length (births s) = length (cs_calls s)"
    using assms(1) by (simp add: words_ok_def)
  show ?thesis
  proof (rule threads_ok_move [OF assms(3) step_SlowBegin(3)])
    show "thread_ok t (cs_threads s ! j)" if "thread_ok s (cs_threads s ! j)" for j
      using thread_ok_snoc [OF that len] eq by (simp add: step_SlowBegin(2))
  qed (use eq len in \<open>auto simp: step_SlowBegin(2,5) set_pc_def thread_ok_def nth_append\<close>)
next
  case (step_Finish i p ep rv res c cl)
  note eq = lookup_finish_eq [OF step_Finish(5)]
  have other: "q \<noteq> p"
    if "j < length (cs_threads s)" "j \<noteq> i" "th_pc (cs_threads s ! j) = Loading q ep' rv'" for j q ep' rv'
    using assms(4) step_Finish(3,4) that
    unfolding one_loader_def loaders_ok_def by (auto simp: loads_def)
  show ?thesis
    unfolding threads_ok_def
  proof (intro allI impI)
    fix j assume "j < length (cs_threads t)"
    then have j: "j < length (cs_threads s)" by (simp add: step_Finish(2))
    with assms(3) have "thread_ok s (cs_threads s ! j)" by (simp add: threads_ok_def)
    then show "thread_ok t (cs_threads t ! j)"
      using step_Finish(3) other [OF j]
      by (auto simp: step_Finish(2) thread_ok_def moved eq nth_upd split: lookup_pc.splits)
  qed
qed (auto simp: threads_ok_def thread_ok_def lookup_slow_Hit moved nth_append less_Suc_eq
      split: lookup_pc.splits)

lemma loads_upd [simp]:
  "loads (th\<lparr>th_pc := pc\<rparr>) = (case pc of Loading p _ _ \<Rightarrow> Some p | _ \<Rightarrow> None)"
  "loads (th\<lparr>th_retries := n\<rparr>) = loads th"
  by (simp_all add: loads_def)

lemma map_loads_pc:
  "map loads (cs_threads (set_pc i pc s)) =
     (map loads (cs_threads s))[i := (case pc of Loading p _ _ \<Rightarrow> Some p | _ \<Rightarrow> None)]"
  by (simp add: set_pc_def map_update)

lemma map_loads_conclude:
  "map loads (cs_threads (conclude i p s)) = (map loads (cs_threads s))[i := None]"
  by (simp add: conclude_def Let_def map_update loads_def)

text \<open>A thread that does not load before or after a step leaves the loaders as they are.\<close>

lemma same_loaders:
  "i < length (cs_threads s) \<Longrightarrow> loads (cs_threads s ! i) = None \<Longrightarrow>
   (map loads (cs_threads s))[i := None] = map loads (cs_threads s)"
  by (metis length_map list_update_id nth_map)

lemma one_loader_same:
  "one_loader s \<Longrightarrow> map loads (cs_threads t) = map loads (cs_threads s) \<Longrightarrow>
   cs_calls t = cs_calls s \<Longrightarrow> one_loader t"
  by (simp add: one_loader_def)

lemma one_loader_step:
  assumes "threads_ok s" "one_loader s" "cache_step s e t"
  shows "one_loader t"
  using assms(3,2)
proof (cases rule: cache_step.cases)
  case (step_Enter k)
  with assms(2) show ?thesis
    by (fastforce simp: one_loader_def loaders_ok_def loads_def nth_append less_Suc_eq)
next
  case (step_SlowJoin i p c cl)
  with assms(2) show ?thesis
    by (intro one_loader_same [OF assms(2)])
      (auto simp: map_loads_pc same_loaders loads_def dest!: lookup_slow_Join)
next
  case (step_SlowBegin i k p c cl)
  note eq = lookup_slow_Begin [OF step_SlowBegin(6)]
  have "loads (cs_threads s ! j) \<noteq> Some p" if "j < length (cs_threads s)" for j
    using threads_okD [OF assms(1) that] eq
    by (auto simp: loads_def thread_ok_def split: lookup_pc.splits)
  moreover have "open_calls cl = insert p (open_calls (cs_calls s))"
    using eq by (auto simp: open_calls_def nth_append)
  ultimately show ?thesis
    using loaders_begin [of "map loads (cs_threads s)" "open_calls (cs_calls s)" i p]
      assms(2) step_SlowBegin(3,4)
    by (simp add: one_loader_def step_SlowBegin(2) map_loads_pc) (simp add: loads_def)
next
  case (step_Finish i p ep rv res c cl)
  note eq = lookup_finish_eq [OF step_Finish(5)]
  have "p < length (cs_calls s)"
    using threads_okD [OF assms(1) step_Finish(3)] step_Finish(4) by (simp add: thread_ok_def)
  then have "open_calls cl = open_calls (cs_calls s) - {p}"
    by (auto simp: open_calls_def eq nth_upd)
  then show ?thesis
    using loaders_finish [of "map loads (cs_threads s)" "open_calls (cs_calls s)" i p]
      assms(2) step_Finish(3,4)
    by (simp add: one_loader_def step_Finish(2) map_loads_conclude) (simp add: loads_def)
qed (auto intro!: one_loader_same [OF assms(2)] simp: map_loads_pc map_loads_conclude same_loaders
      loads_def lookup_slow_Hit)

section \<open>Counting invalidations\<close>

text \<open>The bound under which the 64-bit counters have not wrapped around.\<close>

definition unwrapped :: "cache_system \<Rightarrow> bool" where
  "unwrapped s \<longleftrightarrow> epochs s < 2 ^ 64 \<and> (\<forall>k. revs s k < 2 ^ 64)"

lemma unwrapped_step:
  assumes "cache_step s e t" "unwrapped t"
  shows "unwrapped s"
  using assms
proof (cases rule: cache_step.cases)
  case (step_Invalidate k)
  with assms(2) have "epochs s < 2 ^ 64" "Suc (revs s k) < 2 ^ 64" "\<And>k'. k' \<noteq> k \<Longrightarrow> revs s k' < 2 ^ 64"
    by (auto simp: unwrapped_def split: if_splits)
  then show ?thesis unfolding unwrapped_def by (metis Suc_lessD)
qed (auto simp: unwrapped_def)

lemma birth_le:
  assumes "words_ok s" "p < length (cs_calls s)"
  shows "birth_count s p \<le> inval_count s (fst (births s ! p))"
  using assms by (cases "births s ! p") (auto simp: words_ok_def birth_count_def inval_count_def add_mono)

text \<open>A call whose words differ from the current ones has missed an invalidation; the converse
  holds as long as the counters have not wrapped around.\<close>

lemma words_differ:
  assumes "words_ok s" "p < length (cs_calls s)" "fst (births s ! p) = k"
    "rl_epoch (cs_calls s ! p) \<noteq> epoch (cs_cache s) \<or>
     rl_revision (cs_calls s ! p) \<noteq> revision_of (cs_cache s) k"
  shows "birth_count s p < inval_count s k"
proof (cases "births s ! p")
  case (fields k' e r)
  with assms have "e \<le> epochs s" "r \<le> revs s k" "e \<noteq> epochs s \<or> r \<noteq> revs s k"
    by (auto simp: words_ok_def)
  with fields show ?thesis by (auto simp: birth_count_def inval_count_def)
qed

lemma words_agree:
  assumes "words_ok s" "unwrapped s" "p < length (cs_calls s)" "fst (births s ! p) = k"
    "rl_epoch (cs_calls s ! p) = epoch (cs_cache s)"
    "rl_revision (cs_calls s ! p) = revision_of (cs_cache s) k"
  shows "birth_count s p = inval_count s k"
proof (cases "births s ! p")
  case (fields k' e r)
  with assms have "e \<le> epochs s" "r \<le> revs s k"
    "(of_nat e :: 64 word) = of_nat (epochs s)" "(of_nat r :: 64 word) = of_nat (revs s k)"
    by (auto simp: words_ok_def)
  moreover have "epochs s < 2 ^ 64" "revs s k < 2 ^ 64" using assms(2) by (auto simp: unwrapped_def)
  moreover have "a = b" if "(of_nat a :: 64 word) = of_nat b" "a \<le> b" "b < 2 ^ 64" for a b :: nat
    using that by (simp add: word_of_nat_eq_iff take_bit_nat_eq_self)
  ultimately have "e = epochs s" "r = revs s k" by blast+
  with fields show ?thesis by (simp add: birth_count_def inval_count_def)
qed

text \<open>The two counters of a call do not change, and those of a key only grow.\<close>

lemma birth_count_simps [simp]:
  "birth_count (conclude i p s) = birth_count s" "birth_count (set_pc i pc s) = birth_count s"
  "birth_count (s\<lparr>cs_cache := c\<rparr>) = birth_count s" "birth_count (s\<lparr>cs_calls := cl\<rparr>) = birth_count s"
  "birth_count (s\<lparr>cs_threads := ths\<rparr>) = birth_count s" "birth_count (s\<lparr>cs_now := t\<rparr>) = birth_count s"
  "birth_count (s\<lparr>epochs := m\<rparr>) = birth_count s" "birth_count (s\<lparr>revs := rs\<rparr>) = birth_count s"
  by (simp_all add: birth_count_def fun_eq_iff)

lemma inval_count_simps [simp]:
  "inval_count (conclude i p s) = inval_count s" "inval_count (set_pc i pc s) = inval_count s"
  "inval_count (s\<lparr>cs_cache := c\<rparr>) = inval_count s" "inval_count (s\<lparr>cs_calls := cl\<rparr>) = inval_count s"
  "inval_count (s\<lparr>cs_threads := ths\<rparr>) = inval_count s" "inval_count (s\<lparr>cs_now := t\<rparr>) = inval_count s"
  "inval_count (s\<lparr>births := bs\<rparr>) = inval_count s"
  by (simp_all add: inval_count_def fun_eq_iff)

lemma birth_count_grow:
  "births t = births s @ [b] \<Longrightarrow> p < length (births s) \<Longrightarrow> birth_count t p = birth_count s p"
  "births t = births s @ [(k, e, r)] \<Longrightarrow> birth_count t (length (births s)) = e + r"
  by (simp_all add: birth_count_def nth_append)

definition stale_ok :: "cache_system \<Rightarrow> bool" where
  "stale_ok s \<longleftrightarrow> (\<forall>p < length (cs_calls s). rl_stale (cs_calls s ! p) \<longrightarrow>
     birth_count s p < inval_count s (fst (births s ! p)))"

lemma stale_ok_step:
  assumes "words_ok s" "threads_ok s" "stale_ok s" "cache_step s e t"
  shows "stale_ok t"
  using assms(4,3)
proof (cases rule: cache_step.cases)
  case (step_SlowJoin i p c cl)
  with assms(3) show ?thesis
    by (auto simp: stale_ok_def dest!: lookup_slow_Join)
next
  case (step_SlowBegin i k p c cl)
  with assms(1,3) show ?thesis
    by (auto simp: stale_ok_def words_ok_def birth_count_def inval_count_def nth_append
        dest!: lookup_slow_Begin)
next
  case (step_Finish i p ep rv res c cl)
  note eq = lookup_finish_eq [OF step_Finish(5)]
  have p: "p < length (cs_calls s)" "fst (births s ! p) = th_key (cs_threads s ! i)"
      "ep = rl_epoch (cs_calls s ! p)" "rv = rl_revision (cs_calls s ! p)"
    using threads_okD [OF assms(2) step_Finish(3)] step_Finish(4) by (simp_all add: thread_ok_def)
  from assms(3) p words_differ [OF assms(1) p(1,2)] show ?thesis
    by (auto simp: stale_ok_def step_Finish(2) eq nth_upd)
next
  case (step_Invalidate k)
  with assms(3) show ?thesis
    by (auto simp: stale_ok_def inval_count_def less_Suc_eq)
next
  case step_InvalidateAll
  with assms(3) show ?thesis
    by (auto simp: stale_ok_def inval_count_def less_Suc_eq)
qed (auto simp: stale_ok_def lookup_slow_Hit)

section \<open>Single flight\<close>

text \<open>A call that runs and has missed no invalidation is the one that later lookups join.\<close>

definition flight_ok :: "cache_system \<Rightarrow> lookup_thread \<Rightarrow> bool" where
  "flight_ok s th \<longleftrightarrow>
     (case th_pc th of
        Loading p ep rv \<Rightarrow> birth_count s p = inval_count s (th_key th) \<longrightarrow>
          go_get (lookups (cs_cache s)) (th_key th) = Some p
      | _ \<Rightarrow> True)"

definition flights_ok :: "cache_system \<Rightarrow> bool" where
  "flights_ok s \<longleftrightarrow> (\<forall>i < length (cs_threads s). flight_ok s (cs_threads s ! i))"

lemma flights_ok_move:
  assumes "flights_ok s" "i < length (cs_threads s)"
    "cs_threads t = (cs_threads s)[i := th]"
    "\<And>j. j < length (cs_threads s) \<Longrightarrow> j \<noteq> i \<Longrightarrow> flight_ok s (cs_threads s ! j) \<Longrightarrow>
       flight_ok t (cs_threads s ! j)"
    "flight_ok t th"
  shows "flights_ok t"
  using assms by (auto simp: flights_ok_def nth_list_update)

lemma loader_call:
  assumes "threads_ok s" "i < length (cs_threads s)" "th_pc (cs_threads s ! i) = Loading p ep rv"
  shows "p < length (cs_calls s)" "fst (births s ! p) = th_key (cs_threads s ! i)"
    "ep = rl_epoch (cs_calls s ! p)" "rv = rl_revision (cs_calls s ! p)"
    "\<not> rl_done (cs_calls s ! p)"
  using threads_okD [OF assms(1,2)] assms(3) by (simp_all add: thread_ok_def)

lemma flights_ok_step:
  assumes "words_ok s" "threads_ok s" "one_loader s" "flights_ok s" "cache_step s e t"
  shows "flights_ok t"
  using assms(5,4)
proof (cases rule: cache_step.cases)
  case (step_SlowJoin i p c cl)
  note eq = lookup_slow_Join [OF step_SlowJoin(5)]
  show ?thesis
    by (rule flights_ok_move [OF assms(4) step_SlowJoin(3)])
      (use eq in \<open>auto simp: step_SlowJoin(2) set_pc_def flight_ok_def cong: lookup_pc.case_cong\<close>)
next
  case (step_SlowBegin i k p c cl)
  note eq = lookup_slow_Begin [OF step_SlowBegin(6)]
  have len: "length (births s) = length (cs_calls s)" using assms(1) by (simp add: words_ok_def)
  show ?thesis
  proof (rule flights_ok_move [OF assms(4) step_SlowBegin(3)])
    fix j assume j: "j < length (cs_threads s)" "flight_ok s (cs_threads s ! j)"
    show "flight_ok t (cs_threads s ! j)"
    proof (cases "th_pc (cs_threads s ! j)")
      case (Loading q ep rv)
      note call = loader_call [OF assms(2) j(1) Loading]
      from words_differ [OF assms(1) call(1,2)] have
        "birth_count s q < inval_count s (th_key (cs_threads s ! j))"
        if "th_key (cs_threads s ! j) = k" "go_get (lookups (cs_cache s)) k = Some q"
        using eq that by auto
      moreover have "birth_count t q = birth_count s q"
        using call(1) len by (intro birth_count_grow) (simp_all add: step_SlowBegin(2))
      ultimately show ?thesis
        using j(2) Loading eq by (auto simp: flight_ok_def step_SlowBegin(2))
    qed (simp_all add: flight_ok_def)
  qed (use eq in \<open>auto simp: step_SlowBegin(2,5) set_pc_def flight_ok_def\<close>)
next
  case (step_Finish i p ep rv res c cl)
  note eq = lookup_finish_eq [OF step_Finish(5)]
  obtain th where th: "cs_threads t = (cs_threads s)[i := th]" "loads th = None"
    by (auto simp: step_Finish(2) conclude_def Let_def loads_def)
  show ?thesis
  proof (rule flights_ok_move [OF assms(4) step_Finish(3) th(1)])
    fix j assume j: "j < length (cs_threads s)" "j \<noteq> i" "flight_ok s (cs_threads s ! j)"
    have "q \<noteq> p" if "th_pc (cs_threads s ! j) = Loading q ep' rv'" for q ep' rv'
      using assms(3) step_Finish(3,4) j that
      unfolding one_loader_def loaders_ok_def by (auto simp: loads_def)
    with j(3) eq show "flight_ok t (cs_threads s ! j)"
      by (auto simp: flight_ok_def step_Finish(2) split: lookup_pc.splits)
  qed (use th(2) in \<open>auto simp: flight_ok_def loads_def split: lookup_pc.splits\<close>)
next
  case (step_Invalidate k)
  show ?thesis
    unfolding flights_ok_def
  proof (intro allI impI)
    fix j assume "j < length (cs_threads t)"
    then have j: "j < length (cs_threads s)" by (simp add: step_Invalidate)
    show "flight_ok t (cs_threads t ! j)"
    proof (cases "th_pc (cs_threads s ! j)")
      case (Loading q ep rv)
      note call = loader_call [OF assms(2) j Loading]
      from birth_le [OF assms(1) call(1)] call(2) assms(4) j Loading show ?thesis
        by (auto simp: flights_ok_def flight_ok_def step_Invalidate cache_invalidate_def
            inval_count_def)
    qed (simp_all add: flight_ok_def step_Invalidate)
  qed
next
  case step_InvalidateAll
  show ?thesis
    unfolding flights_ok_def
  proof (intro allI impI)
    fix j assume "j < length (cs_threads t)"
    then have j: "j < length (cs_threads s)" by (simp add: step_InvalidateAll)
    show "flight_ok t (cs_threads t ! j)"
    proof (cases "th_pc (cs_threads s ! j)")
      case (Loading q ep rv)
      note call = loader_call [OF assms(2) j Loading]
      from birth_le [OF assms(1) call(1)] call(2) Loading show ?thesis
        by (auto simp: flight_ok_def step_InvalidateAll inval_count_def)
    qed (simp_all add: flight_ok_def step_InvalidateAll)
  qed
qed (auto simp: flights_ok_def flight_ok_def lookup_slow_Hit moved nth_append less_Suc_eq
      split: lookup_pc.splits)

section \<open>Freshness\<close>

text \<open>Call \<open>p\<close> has been completed for key \<open>k\<close> with result \<open>r\<close> and was not stale.\<close>

definition good_call :: "cache_system \<Rightarrow> ServiceKey \<Rightarrow> ServiceLocation result \<Rightarrow> nat \<Rightarrow> bool" where
  "good_call s k r p \<longleftrightarrow> p < length (cs_calls s) \<and> fst (births s ! p) = k \<and>
     rl_done (cs_calls s ! p) \<and> \<not> rl_stale (cs_calls s ! p) \<and> rl_result (cs_calls s ! p) = r"

text \<open>A cached location was loaded after the last invalidation of its key.\<close>

definition entries_ok :: "cache_system \<Rightarrow> bool" where
  "entries_ok s \<longleftrightarrow>
     (\<forall>k e. go_get (entries (cs_cache s)) k = Some e \<longrightarrow>
        (\<exists>p. good_call s k (Inr (re_location e)) p \<and> birth_count s p = inval_count s k))"

text \<open>
  A goroutine works with calls that began after it entered \<^verbatim>\<open>lookup\<close>, and every repetition
  of its loop has seen one more invalidation.
\<close>

definition progress_ok :: "cache_system \<Rightarrow> lookup_thread \<Rightarrow> bool" where
  "progress_ok s th \<longleftrightarrow>
     (let n = th_start th + th_retries th in
      case th_pc th of
        Waiting p \<Rightarrow> n \<le> birth_count s p
      | Loading p _ _ \<Rightarrow> n \<le> birth_count s p
      | Returned r \<Rightarrow> n \<le> inval_count s (th_key th) \<and>
          (\<exists>p. good_call s (th_key th) r p \<and> n \<le> birth_count s p)
      | _ \<Rightarrow> n \<le> inval_count s (th_key th))"

definition all_progress :: "cache_system \<Rightarrow> bool" where
  "all_progress s \<longleftrightarrow> (\<forall>i < length (cs_threads s). progress_ok s (cs_threads s ! i))"

lemma inval_count_mono: "cache_step s e t \<Longrightarrow> inval_count s k \<le> inval_count t k"
  by (cases rule: cache_step.cases) (auto simp: inval_count_def)

lemma birth_count_step:
  assumes "cache_step s e t" "words_ok s" "p < length (cs_calls s)"
  shows "birth_count t p = birth_count s p" "fst (births t ! p) = fst (births s ! p)"
    "p < length (cs_calls t)"
proof -
  have len: "length (births s) = length (cs_calls s)" using assms(2) by (simp add: words_ok_def)
  have "birth_count t p = birth_count s p \<and> fst (births t ! p) = fst (births s ! p) \<and>
      p < length (cs_calls t)"
    using assms(1,3) len
  proof (cases rule: cache_step.cases)
    case (step_SlowBegin i k q c cl)
    with lookup_slow_Begin [OF step_SlowBegin(6)] assms(3) len show ?thesis
      by (auto simp: birth_count_def nth_append)
  next
    case (step_Finish i q ep rv res c cl)
    with assms(3) show ?thesis by (simp add: lookup_finish_eq(1) [OF step_Finish(5)])
  qed (auto simp: lookup_slow_Hit dest!: lookup_slow_Join)
  then show "birth_count t p = birth_count s p" "fst (births t ! p) = fst (births s ! p)"
    "p < length (cs_calls t)" by simp_all
qed

lemma good_call_step:
  assumes "cache_step s e t" "words_ok s" "threads_ok s" "good_call s k r p"
  shows "good_call t k r p"
proof -
  have p: "p < length (cs_calls s)" "rl_done (cs_calls s ! p)"
    using assms(4) by (simp_all add: good_call_def)
  have "cs_calls t ! p = cs_calls s ! p"
    using assms(1)
  proof (cases rule: cache_step.cases)
    case (step_SlowBegin i k q c cl)
    with lookup_slow_Begin [OF step_SlowBegin(6)] p show ?thesis by (simp add: nth_append)
  next
    case (step_Finish i q ep rv res c cl)
    with loader_call(5) [OF assms(3) step_Finish(3,4)] p show ?thesis
      by (auto simp: lookup_finish_eq(1) [OF step_Finish(5)] nth_upd)
  qed (auto simp: lookup_slow_Hit dest!: lookup_slow_Join)
  with assms(4) birth_count_step [OF assms(1,2) p(1)] show ?thesis by (simp add: good_call_def)
qed

lemma progress_ok_step:
  assumes "cache_step s e t" "words_ok s" "threads_ok s" "thread_ok s th" "progress_ok s th"
  shows "progress_ok t th"
proof (cases "th_pc th")
  case (Returned r)
  with assms(5) obtain p where p: "good_call s (th_key th) r p" "th_start th + th_retries th \<le> birth_count s p"
    "th_start th + th_retries th \<le> inval_count s (th_key th)"
    by (auto simp: progress_ok_def Let_def)
  from p(1) have "p < length (cs_calls s)" by (simp add: good_call_def)
  with p good_call_step [OF assms(1-3) p(1)] birth_count_step [OF assms(1,2)]
    inval_count_mono [OF assms(1), of "th_key th"] Returned show ?thesis
    by (auto simp: progress_ok_def Let_def)
qed (use assms(4,5) birth_count_step [OF assms(1,2)] inval_count_mono [OF assms(1), of "th_key th"]
      in \<open>auto simp: progress_ok_def thread_ok_def Let_def\<close>)

text \<open>The invariant without the freshness part.\<close>

definition cache_wf :: "cache_system \<Rightarrow> bool" where
  "cache_wf s \<longleftrightarrow> words_ok s \<and> lookups_ok s \<and> threads_ok s \<and> one_loader s \<and> stale_ok s \<and> flights_ok s"

lemma cache_wf_step:
  assumes "cache_wf s" and st: "cache_step s e t"
  shows "cache_wf t"
proof -
  have s: "words_ok s" "lookups_ok s" "threads_ok s" "one_loader s" "stale_ok s" "flights_ok s"
    using assms(1) by (simp_all add: cache_wf_def)
  show ?thesis
    unfolding cache_wf_def
    using words_ok_step [OF s(1) st] lookups_ok_step [OF s(1-3) st] threads_ok_step [OF s(1-4) st]
      one_loader_step [OF s(3,4) st] stale_ok_step [OF s(1,3,5) st]
      flights_ok_step [OF s(1,3,4,6) st]
    by simp
qed

lemma cache_wf_init: "cache_init t en s \<Longrightarrow> cache_wf s"
  by (auto simp: cache_wf_def cache_init_def words_ok_def lookups_ok_def threads_ok_def
      one_loader_def loaders_ok_def open_calls_def stale_ok_def flights_ok_def
      newServiceRouteCache_def revision_of_def)

lemma entries_ok_sub:
  assumes "entries_ok s" "cache_step s e t" "words_ok s" "threads_ok s"
    "\<And>k x. go_get (entries (cs_cache t)) k = Some x \<Longrightarrow>
       go_get (entries (cs_cache s)) k = Some x \<and> inval_count t k = inval_count s k"
  shows "entries_ok t"
  unfolding entries_ok_def
proof (intro allI impI)
  fix k x assume "go_get (entries (cs_cache t)) k = Some x"
  with assms(5) have x: "go_get (entries (cs_cache s)) k = Some x" "inval_count t k = inval_count s k"
    by blast+
  then obtain p where p: "good_call s k (Inr (re_location x)) p" "birth_count s p = inval_count s k"
    using assms(1) unfolding entries_ok_def by blast
  from p(1) have "p < length (cs_calls s)" by (simp add: good_call_def)
  with p x(2) good_call_step [OF assms(2-4) p(1)] birth_count_step(1) [OF assms(2,3)]
  show "\<exists>p. good_call t k (Inr (re_location x)) p \<and> birth_count t p = inval_count t k"
    by (intro exI [of _ p]) simp
qed

text \<open>What the third section leaves of its call.\<close>

lemma finished_call:
  assumes "cache_wf s" "cache_step s (FinishSection i res) t"
    "i < length (cs_threads s)" "th_pc (cs_threads s ! i) = Loading p ep rv"
    "lookup_finish (th_key (cs_threads s ! i)) p ep rv res (cs_now s) (cs_cache s) (cs_calls s) = (c, cl)"
    "cs_calls t = cl" "births t = births s"
  shows "good_call t (th_key (cs_threads s ! i)) res p \<or> rl_stale (cs_calls t ! p)"
    and "rl_stale (cs_calls t ! p) \<longleftrightarrow> epoch (cs_cache s) \<noteq> ep \<or>
           revision_of (cs_cache s) (th_key (cs_threads s ! i)) \<noteq> rv"
    and "rl_result (cs_calls t ! p) = res"
  using assms(1,6,7) loader_call [OF _ assms(3,4)]
  by (auto simp: cache_wf_def good_call_def lookup_finish_eq(1) [OF assms(5)] nth_upd)

lemma entries_ok_step:
  assumes wf: "cache_wf s" and "unwrapped s" "entries_ok s" "cache_step s e t"
  shows "entries_ok t"
proof -
  have ok: "words_ok s" "threads_ok s" using wf by (simp_all add: cache_wf_def)
  note sub = entries_ok_sub [OF assms(3,4) ok]
  from assms(4) show ?thesis
  proof (cases rule: cache_step.cases)
    case (step_Finish i p ep rv res c cl)
    note eq = lookup_finish_eq [OF step_Finish(5)] and call = loader_call [OF ok(2) step_Finish(3,4)]
    have fin: "good_call t (th_key (cs_threads s ! i)) res p"
      "birth_count t p = inval_count t (th_key (cs_threads s ! i))"
      if "epoch (cs_cache s) = ep" "revision_of (cs_cache s) (th_key (cs_threads s ! i)) = rv"
      using finished_call [OF wf _ step_Finish(3-5), of t] assms(4) that call
        words_agree [OF ok(1) assms(2) call(1,2)]
      by (auto simp: step_Finish(1,2))
    show ?thesis
    proof (cases res)
      case (Inl x) then show ?thesis by (intro sub) (auto simp: step_Finish(2) eq(7))
    next
      case (Inr l)
      show ?thesis
        unfolding entries_ok_def
      proof (intro allI impI)
        fix k x assume x: "go_get (entries (cs_cache t)) k = Some x"
        show "\<exists>p. good_call t k (Inr (re_location x)) p \<and> birth_count t p = inval_count t k"
        proof (cases "go_get (entries (cs_cache s)) k = Some x")
          case True
          then obtain q where q: "good_call s k (Inr (re_location x)) q" "birth_count s q = inval_count s k"
            using assms(3) unfolding entries_ok_def by blast
          with good_call_step [OF assms(4) ok q(1)] show ?thesis
            by (intro exI [of _ q]) (simp add: step_Finish(2))
        next
          case False
          with x Inr fin show ?thesis
            by (intro exI [of _ p]) (auto simp: step_Finish(2) eq(7) split: if_splits)
        qed
      qed
    qed
  qed (intro sub; auto simp: lookup_slow_Hit cache_invalidate_def cache_invalidateAll_def
      inval_count_def dest!: lookup_slow_Join lookup_slow_Begin split: if_splits)+
qed

lemma all_progress_move:
  assumes "all_progress s" "cache_step s e t" "words_ok s" "threads_ok s" "i < length (cs_threads s)"
    "cs_threads t = (cs_threads s)[i := th]" "progress_ok t th"
  shows "all_progress t"
  using assms progress_ok_step [OF assms(2-4)] threads_okD [OF assms(4)]
  by (auto simp: all_progress_def nth_list_update)

lemma all_progress_same:
  assumes "all_progress s" "cache_step s e t" "words_ok s" "threads_ok s" "cs_threads t = cs_threads s"
  shows "all_progress t"
  using assms progress_ok_step [OF assms(2-4)] threads_okD [OF assms(4)]
  by (auto simp: all_progress_def)

text \<open>A hit returns a location that was loaded after the last invalidation.\<close>

lemma hit_progress:
  assumes "entries_ok s" "cache_step s e t" "words_ok s" "threads_ok s"
    "go_get (entries (cs_cache s)) (th_key th) = Some x"
    "th_start th + th_retries th \<le> inval_count s (th_key th)"
  shows "progress_ok t (th\<lparr>th_pc := Returned (Inr (re_location x))\<rparr>)"
proof -
  from assms(1,5) obtain p where p: "good_call s (th_key th) (Inr (re_location x)) p"
    "birth_count s p = inval_count s (th_key th)" unfolding entries_ok_def by blast
  from p(1) have "p < length (cs_calls s)" by (simp add: good_call_def)
  with p assms(6) good_call_step [OF assms(2-4) p(1)] birth_count_step(1) [OF assms(2,3)]
    inval_count_mono [OF assms(2), of "th_key th"] show ?thesis
    by (auto simp: progress_ok_def Let_def intro!: exI [of _ p])
qed

text \<open>Leaving the loop body with a completed call.\<close>

lemma conclude_progress:
  assumes "words_ok t" "stale_ok t" "cs_threads t = (cs_threads s)[i :=
      (if rl_stale (cs_calls t ! p)
       then (cs_threads s ! i)\<lparr>th_pc := AtClock, th_retries := Suc (th_retries (cs_threads s ! i))\<rparr>
       else (cs_threads s ! i)\<lparr>th_pc := Returned (rl_result (cs_calls t ! p))\<rparr>)]"
    "p < length (cs_calls t)" "fst (births t ! p) = th_key (cs_threads s ! i)" "rl_done (cs_calls t ! p)"
    "th_start (cs_threads s ! i) + th_retries (cs_threads s ! i) \<le> birth_count t p"
    "i < length (cs_threads s)"
  shows "progress_ok t (cs_threads t ! i)"
proof (cases "rl_stale (cs_calls t ! p)")
  case True
  with assms(2,4,5) have "birth_count t p < inval_count t (th_key (cs_threads s ! i))"
    by (auto simp: stale_ok_def)
  with assms True show ?thesis by (simp add: progress_ok_def Let_def)
next
  case False
  with assms birth_le [OF assms(1,4)] show ?thesis
    by (auto simp: progress_ok_def Let_def good_call_def intro!: exI [of _ p])
qed

lemma all_progress_step:
  assumes wf: "cache_wf s" and "unwrapped s" "entries_ok s" "all_progress s" "cache_step s e t"
  shows "all_progress t"
proof -
  have ok: "words_ok s" "threads_ok s" "lookups_ok s" using wf by (simp_all add: cache_wf_def)
  have ok': "words_ok t" "stale_ok t"
    using cache_wf_step [OF wf assms(5)] by (simp_all add: cache_wf_def)
  have prog: "progress_ok s (cs_threads s ! i)" if "i < length (cs_threads s)" for i
    using assms(4) that by (simp add: all_progress_def)
  note move = all_progress_move [OF assms(4,5) ok(1,2)]
  from assms(5) show ?thesis
  proof (cases rule: cache_step.cases)
    case (step_Enter k)
    then show ?thesis
      using progress_ok_step [OF assms(5) ok(1,2)] threads_okD [OF ok(2)] prog
      by (auto simp: all_progress_def nth_append less_Suc_eq) (auto simp: progress_ok_def)
  next
    case (step_ReadClock i)
    with prog [OF step_ReadClock(3)] show ?thesis
      by (intro move [OF step_ReadClock(3)]) (auto simp: set_pc_def progress_ok_def)
  next
    case (step_FastHit i now l)
    from step_FastHit(5) obtain x where x: "go_get (entries (cs_cache s)) (th_key (cs_threads s ! i)) = Some x"
      "l = re_location x" by (auto simp: lookup_fast_Some)
    with prog [OF step_FastHit(3)] step_FastHit(4) hit_progress [OF assms(3,5) ok(1,2) x(1)] show ?thesis
      by (intro move [OF step_FastHit(3)]) (auto simp: step_FastHit(2) set_pc_def progress_ok_def)
  next
    case (step_FastMiss i now)
    with prog [OF step_FastMiss(3)] show ?thesis
      by (intro move [OF step_FastMiss(3)]) (auto simp: set_pc_def progress_ok_def)
  next
    case (step_SlowHit i l c cl)
    from step_SlowHit(5) obtain x where x: "go_get (entries (cs_cache s)) (th_key (cs_threads s ! i)) = Some x"
      "l = re_location x" by (auto simp: lookup_slow_Hit)
    with prog [OF step_SlowHit(3)] step_SlowHit(4) hit_progress [OF assms(3,5) ok(1,2) x(1)] show ?thesis
      by (intro move [OF step_SlowHit(3)]) (auto simp: step_SlowHit(2) set_pc_def progress_ok_def)
  next
    case (step_SlowJoin i p c cl)
    note eq = lookup_slow_Join [OF step_SlowJoin(5)]
    from eq ok(3) have "p < length (cs_calls s)" "fst (births s ! p) = th_key (cs_threads s ! i)"
      unfolding lookups_ok_def by blast+
    with words_agree [OF ok(1) assms(2)] eq
    have "birth_count s p = inval_count s (th_key (cs_threads s ! i))" by blast
    with prog [OF step_SlowJoin(3)] step_SlowJoin(4) show ?thesis
      by (intro move [OF step_SlowJoin(3)]) (auto simp: step_SlowJoin(2) set_pc_def progress_ok_def)
  next
    case (step_SlowBegin i k p c cl)
    have "length (births s) = p"
      using lookup_slow_Begin [OF step_SlowBegin(6)] ok(1) by (simp add: words_ok_def)
    moreover have "births t = births s @ [(k, epochs s, revs s k)]" by (simp add: step_SlowBegin(2))
    ultimately have "birth_count t p = inval_count s k"
      using birth_count_grow(2) [of t s] by (simp add: inval_count_def)
    with prog [OF step_SlowBegin(3)] step_SlowBegin(4) show ?thesis
      by (intro move [OF step_SlowBegin(3)])
        (auto simp: step_SlowBegin(5) step_SlowBegin(2) [symmetric] progress_ok_def Let_def,
          auto simp: step_SlowBegin(2) set_pc_def)
  next
    case (step_Finish i p ep rv res c cl)
    note call = loader_call [OF ok(2) step_Finish(3,4)]
    have "progress_ok t (cs_threads t ! i)"
      using prog [OF step_Finish(3)] step_Finish(3,4) call
      by (intro conclude_progress [OF ok'(1,2), of s i p])
        (auto simp: step_Finish(2) conclude_def Let_def progress_ok_def
          lookup_finish_eq(1) [OF step_Finish(5)])
    then show ?thesis
      using step_Finish(3) by (intro move [OF step_Finish(3), of "cs_threads t ! i"])
        (simp_all add: step_Finish(2) conclude_def Let_def)
  next
    case (step_Wake i p)
    have "p < length (cs_calls s)" "fst (births s ! p) = th_key (cs_threads s ! i)"
      using threads_okD [OF ok(2) step_Wake(3)] step_Wake(4) by (simp_all add: thread_ok_def)
    then have "progress_ok t (cs_threads t ! i)"
      using prog [OF step_Wake(3)] step_Wake(3-5)
      by (intro conclude_progress [OF ok'(1,2), of s i p])
        (auto simp: step_Wake(2) conclude_def Let_def progress_ok_def)
    then show ?thesis
      using step_Wake(3) by (intro move [OF step_Wake(3), of "cs_threads t ! i"])
        (simp_all add: step_Wake(2) conclude_def Let_def)
  qed (use all_progress_same [OF assms(4,5) ok(1,2)] in simp_all)
qed

section \<open>Expiry\<close>

definition expiry_ok :: "int \<Rightarrow> bool \<Rightarrow> cache_system \<Rightarrow> bool" where
  "expiry_ok t en s \<longleftrightarrow> ttl (cs_cache s) = t \<and> enabled (cs_cache s) = en \<and> 0 < cs_now s \<and>
     (\<forall>k e. go_get (entries (cs_cache s)) k = Some e \<longrightarrow>
        en \<and> (if 0 < t then 0 < re_expiresAt e \<and> re_expiresAt e \<le> cs_now s + t
              else re_expiresAt e = 0))"

lemma expiry_ok_step:
  assumes "expiry_ok d en s" "cache_step s e t"
  shows "expiry_ok d en t"
  using assms(2,1)
proof (cases rule: cache_step.cases)
  case (step_Finish i p ep rv res c cl)
  note eq = lookup_finish_eq [OF step_Finish(5)]
  from assms(1) show ?thesis
    by (cases res) (auto simp: step_Finish(2) expiry_ok_def eq split: if_splits)
next
  case (step_SlowJoin i p c cl)
  from assms(1) lookup_slow_Join [OF step_SlowJoin(5)] show ?thesis
    by (auto simp: step_SlowJoin(2) expiry_ok_def split: if_splits)
next
  case (step_SlowBegin i k p c cl)
  from assms(1) lookup_slow_Begin [OF step_SlowBegin(6)] show ?thesis
    by (auto simp: step_SlowBegin(2) expiry_ok_def split: if_splits)
next
  case (step_Tick n)
  from assms(1) show ?thesis by (fastforce simp: step_Tick expiry_ok_def split: if_splits)
qed (auto simp: expiry_ok_def lookup_slow_Hit cache_invalidate_def cache_invalidateAll_def)

section \<open>The invariants of the cache\<close>

definition cache_fresh :: "cache_system \<Rightarrow> bool" where
  "cache_fresh s \<longleftrightarrow> cache_wf s \<and> (unwrapped s \<longrightarrow> entries_ok s \<and> all_progress s)"

interpretation cache_structure: inductive_invariant "cache_init t en" cache_step cache_wf for t en
  by unfold_locales (auto intro: cache_wf_init cache_wf_step)

interpretation cache_freshness: inductive_invariant "cache_init t en" cache_step cache_fresh for t en
proof unfold_locales
  show "cache_init t en s \<Longrightarrow> cache_fresh s" for s
    using cache_wf_init [of t en s]
    by (auto simp: cache_fresh_def cache_init_def entries_ok_def all_progress_def
        newServiceRouteCache_def)
  show "cache_fresh s \<Longrightarrow> cache_step s e u \<Longrightarrow> cache_fresh u" for s e u
    unfolding cache_fresh_def
    by (meson cache_wf_step entries_ok_step all_progress_step unwrapped_step)
qed

lemma expiry_ok_init: "cache_init t en s \<Longrightarrow> expiry_ok t en s"
  by (simp add: cache_init_def expiry_ok_def newServiceRouteCache_def)

interpretation cache_expiry: inductive_invariant "cache_init t en" cache_step "expiry_ok t en" for t en
  by unfold_locales (fact expiry_ok_init, fact expiry_ok_step)

section \<open>Properties\<close>

text \<open>A run of one goroutine, which the witnesses share.\<close>

definition run_key :: ServiceKey where
  "run_key = ServiceKey ''gate'' 1"

definition run_location :: ServiceLocation where
  "run_location = \<lparr>ServiceName = ''gate'', ServiceID = 1, NodeID = 2, NodeAddr = '':2''\<rparr>"

definition run_call :: "bool \<Rightarrow> ServiceLocation result \<Rightarrow> routeLookupCall" where
  "run_call d r = \<lparr>rl_done = d, rl_result = r, rl_epoch = 0, rl_revision = 0, rl_stale = False\<rparr>"

definition run_state :: "lookup_pc list \<Rightarrow> (ServiceKey, routeCacheEntry) gomap \<Rightarrow>
    (ServiceKey, nat) gomap \<Rightarrow> call_heap \<Rightarrow> cache_system" where
  "run_state pcs es ls calls =
     \<lparr>cs_cache = (newServiceRouteCache 60 True)\<lparr>entries := es, lookups := ls\<rparr>,
      cs_calls = calls,
      cs_threads = map (\<lambda>pc. \<lparr>th_key = run_key, th_pc = pc, th_start = 0, th_retries = 0\<rparr>) pcs,
      cs_now = 1, epochs = 0, revs = (\<lambda>k. 0),
      births = replicate (length calls) (run_key, 0, 0)\<rparr>"

lemma run_entered: "cache_reach 60 True (run_state [AtClock] [] [] [])"
proof -
  have "cache_reach 60 True (run_state [] [] [] [])"
    by (rule reach_init) (simp add: cache_init_def run_state_def newServiceRouteCache_def)
  from reach_step [OF this step_Enter [of _ run_key]] show ?thesis
    by (simp add: run_state_def inval_count_def newServiceRouteCache_def)
qed

lemma run_loading:
  "cache_reach 60 True (run_state [Loading 0 0 0] [] [(run_key, 0)] [run_call False (Inr zero_location)])"
proof -
  have "cache_reach 60 True (run_state [AtFast 1] [] [] [])"
    using reach_step [OF run_entered step_ReadClock [of 0]] by (simp add: run_state_def set_pc_def)
  from reach_step [OF this step_FastMiss [of 0 _ 1]]
  have "cache_reach 60 True (run_state [AtSlow] [] [] [])"
    by (simp add: run_state_def set_pc_def lookup_fast_def)
  from reach_step [OF this step_SlowBegin [of 0 _ run_key 0
      "cs_cache (run_state [] [] [(run_key, 0)] [])" "[run_call False (Inr zero_location)]"]]
  show ?thesis
    by (simp add: run_state_def set_pc_def lookup_slow_def lookup_miss_def Let_def run_call_def
        newServiceRouteCache_def revision_of_def go_put_def)
qed

lemma run_returned:
  "cache_reach 60 True (run_state [Returned (Inr run_location)]
     [(run_key, \<lparr>re_location = run_location, re_expiresAt = 61\<rparr>)] [] [run_call True (Inr run_location)])"
proof -
  from reach_step [OF run_loading step_Finish [of 0 _ 0 0 0 "Inr run_location"
      "cs_cache (run_state [] [(run_key, \<lparr>re_location = run_location, re_expiresAt = 61\<rparr>)] [] [])"
      "[run_call True (Inr run_location)]"]]
  show ?thesis
    by (simp add: run_state_def conclude_def lookup_finish_def Let_def run_call_def
        newServiceRouteCache_def revision_of_def go_put_def go_del_def go_get_def)
qed


lemma run_unwrapped: "unwrapped (run_state pcs es ls calls)"
  by (simp add: run_state_def unwrapped_def)

text \<open>
  C3. No stale route: whatever a lookup returns (a location or an error, from the cache, from a
  joined call or from its own) was obtained by a query of the main node that began after every
  invalidation of the key that preceded the lookup, and that was not overtaken by another
  invalidation before it completed. The counters may not have wrapped around.
\<close>

theorem lookup_fresh:
  assumes "cache_reach t en s" "unwrapped s" "i < length (cs_threads s)"
    "th_pc (cs_threads s ! i) = Returned r"
  shows "\<exists>p. good_call s (th_key (cs_threads s ! i)) r p \<and> th_start (cs_threads s ! i) \<le> birth_count s p"
proof -
  from cache_freshness.reach_inv [OF assms(1)] assms(2,3)
  have "progress_ok s (cs_threads s ! i)" by (simp add: cache_fresh_def all_progress_def)
  with assms(4) show ?thesis by (auto simp: progress_ok_def Let_def intro: add_leD1)
qed

theorem lookup_fresh_witness:
  "\<exists>p. good_call (run_state [Returned (Inr run_location)]
        [(run_key, \<lparr>re_location = run_location, re_expiresAt = 61\<rparr>)] [] [run_call True (Inr run_location)])
      run_key (Inr run_location) p"
  using lookup_fresh [OF run_returned run_unwrapped, of 0] by (auto simp: run_state_def)

text \<open>
  The cache never holds a location that was loaded before the last invalidation of its key:
  a query that is overtaken by \<^verbatim>\<open>invalidate\<close> or \<^verbatim>\<open>invalidateAll\<close> does not store its result.
\<close>

theorem cache_entry_fresh:
  assumes "cache_reach t en s" "unwrapped s" "go_get (entries (cs_cache s)) k = Some e"
  shows "\<exists>p. good_call s k (Inr (re_location e)) p \<and> birth_count s p = inval_count s k"
  using cache_freshness.reach_inv [OF assms(1)] assms(2,3)
  unfolding cache_fresh_def entries_ok_def by blast

theorem cache_entry_fresh_witness:
  "\<exists>p. good_call (run_state [Returned (Inr run_location)]
        [(run_key, \<lparr>re_location = run_location, re_expiresAt = 61\<rparr>)] [] [run_call True (Inr run_location)])
      run_key (Inr run_location) p"
  using cache_entry_fresh [OF run_returned run_unwrapped, of run_key "\<lparr>re_location = run_location, re_expiresAt = 61\<rparr>"]
  by (auto simp: run_state_def go_get_def)

text \<open>
  C32. Single flight: of the queries in progress for one key at most one has missed no
  invalidation, so concurrent lookups send the main node one query for each version of a
  route. This needs no bound on the counters.
\<close>

theorem single_flight:
  assumes "cache_reach t en s" "i < length (cs_threads s)" "j < length (cs_threads s)"
    "th_pc (cs_threads s ! i) = Loading p ep rv" "th_pc (cs_threads s ! j) = Loading q ep' rv'"
    "th_key (cs_threads s ! i) = k" "th_key (cs_threads s ! j) = k"
    "birth_count s p = inval_count s k" "birth_count s q = inval_count s k"
  shows "i = j"
proof -
  have wf: "one_loader s" "flights_ok s"
    using cache_structure.reach_inv [OF assms(1)] by (simp_all add: cache_wf_def)
  then have "flight_ok s (cs_threads s ! i)" "flight_ok s (cs_threads s ! j)"
    using assms(2,3) by (simp_all add: flights_ok_def)
  then have "p = q" using assms(4-9) by (simp add: flight_ok_def)
  with wf(1) assms(2-5) show ?thesis
    unfolding one_loader_def loaders_ok_def by (auto simp: loads_def)
qed

theorem single_flight_witness:
  "\<exists>i. i < 1 \<and> i = (0::nat) \<and> th_pc (cs_threads
     (run_state [Loading 0 0 0] [] [(run_key, 0)] [run_call False (Inr zero_location)]) ! i) = Loading 0 0 0"
  using single_flight [OF run_loading, of 0 0 0 0 0 0 0 0 run_key]
  by (auto simp: run_state_def birth_count_def inval_count_def)

text \<open>
  C33. A lookup makes progress: its loop has been repeated at most once for every invalidation
  of its key since it was entered, and a goroutine that is blocked on a call in flight is
  never orphaned: some goroutine is running the query and will close the channel.
\<close>

theorem lookup_progress:
  assumes "cache_reach t en s" "unwrapped s" "i < length (cs_threads s)"
  shows "th_retries (cs_threads s ! i) \<le> inval_count s (th_key (cs_threads s ! i)) - th_start (cs_threads s ! i) \<and>
     (\<forall>p. th_pc (cs_threads s ! i) = Waiting p \<longrightarrow>
        rl_done (cs_calls s ! p) \<or>
        (\<exists>j ep rv. j < length (cs_threads s) \<and> th_pc (cs_threads s ! j) = Loading p ep rv))"
proof -
  have inv: "cache_fresh s" "progress_ok s (cs_threads s ! i)" "thread_ok s (cs_threads s ! i)"
    using cache_freshness.reach_inv [OF assms(1)] assms(2,3)
    by (simp_all add: cache_fresh_def all_progress_def cache_wf_def threads_ok_def)
  have le: "birth_count s p \<le> inval_count s (th_key (cs_threads s ! i))"
    if "p < length (cs_calls s)" "fst (births s ! p) = th_key (cs_threads s ! i)" for p
    using birth_le [of s p] that inv(1) by (simp add: cache_fresh_def cache_wf_def)
  have "th_start (cs_threads s ! i) + th_retries (cs_threads s ! i) \<le>
      inval_count s (th_key (cs_threads s ! i))"
    using inv(2,3) le
    by (cases "th_pc (cs_threads s ! i)") (auto simp: progress_ok_def thread_ok_def Let_def intro: order_trans)
  moreover have "\<exists>j ep rv. j < length (cs_threads s) \<and> th_pc (cs_threads s ! j) = Loading p ep rv"
    if "th_pc (cs_threads s ! i) = Waiting p" "\<not> rl_done (cs_calls s ! p)" for p
  proof -
    from that inv(3) have "p \<in> open_calls (cs_calls s)" by (simp add: thread_ok_def open_calls_def)
    moreover have "one_loader s" using inv(1) by (simp add: cache_fresh_def cache_wf_def)
    ultimately obtain j where "j < length (cs_threads s)" "loads (cs_threads s ! j) = Some p"
      unfolding one_loader_def loaders_ok_def by auto
    then show ?thesis by (auto simp: loads_def split: lookup_pc.splits)
  qed
  ultimately show ?thesis by auto
qed

theorem lookup_progress_witness:
  "th_retries (cs_threads (run_state [Returned (Inr run_location)]
     [(run_key, \<lparr>re_location = run_location, re_expiresAt = 61\<rparr>)] [] [run_call True (Inr run_location)]) ! 0) = 0"
  using lookup_progress [OF run_returned run_unwrapped, of 0] by (simp add: run_state_def inval_count_def)

text \<open>
  C34. Expiry: a disabled cache stays empty; with a positive TTL no entry outlives the TTL, counted
  from now, and none carries the zero time that would make it permanent; with TTL zero entries
  never expire.
\<close>

theorem cache_expiry_bound:
  assumes "cache_reach t en s" "go_get (entries (cs_cache s)) k = Some e"
  shows "en \<and> (0 < t \<longrightarrow> \<not> unexpired (cs_now s + t) e) \<and> (t = 0 \<longrightarrow> unexpired now e)"
proof -
  from cache_expiry.reach_inv [OF assms(1)] assms(2)
  have "en \<and> (if 0 < t then 0 < re_expiresAt e \<and> re_expiresAt e \<le> cs_now s + t else re_expiresAt e = 0)"
    unfolding expiry_ok_def by blast
  then show ?thesis by (auto simp: unexpired_def IsZero_def split: if_splits)
qed

theorem cache_expiry_bound_witness:
  "\<not> unexpired 61 \<lparr>re_location = run_location, re_expiresAt = 61\<rparr>"
  using cache_expiry_bound [OF run_returned, of run_key "\<lparr>re_location = run_location, re_expiresAt = 61\<rparr>" 1]
  by (simp add: run_state_def go_get_def)

end
