(* ===== verification/Rpc_Client.thy ===== *)
theory Rpc_Client
  imports Node_Requests Route_Cache
begin

text \<open>
  The client half of \<^verbatim>\<open>rpc_client.go\<close>: what a connection to another node does with the messages
  pushed over it, and the requests made over it, with the lookups of \<^verbatim>\<open>node.go\<close> that use them.
  The connection itself (its state, heartbeats and recovery) is the subject of \<open>Main_Link\<close>.
\<close>

section \<open>Pushes\<close>

text \<open>
  A node as this side sees it: the node's local services and error handler, which it shares
  with the server side, and the route cache.
\<close>

record peer =
  p_node :: server_node
  p_cache :: serviceRouteCache

definition peer_report :: "gerror \<Rightarrow> peer \<Rightarrow> peer" where
  "peer_report err p = p\<lparr>p_node := report (Some err) (p_node p)\<rparr>"

text \<open>The loop that compares the pushed services with the subscribed name.\<close>

fun first_mismatch :: "string \<Rightarrow> ServiceKey list \<Rightarrow> ServiceKey option" where
  "first_mismatch serviceName [] = None"
| "first_mismatch serviceName (service # rest) =
     (if key_Name service \<noteq> serviceName then Some service else first_mismatch serviceName rest)"

definition push_route :: "go_env \<Rightarrow> int \<Rightarrow> string \<Rightarrow> peer \<Rightarrow> peer" where
  "push_route env nodeID payload p =
     (if nodeID \<noteq> n_mainNodeID (p_node p) \<or> IsMainNode (p_node p)
      then peer_report (Errorf ''route push from node %d is not allowed'' [ArgD nodeID]) p
      else
        (case decodeOperationPayload (un_RouteInvalidate (proto env)) payload of
           Inl err \<Rightarrow> peer_report (rpcInvalidMessage err) p
         | Inr notification \<Rightarrow>
             (case requiredRPCServiceKey env (ri_Target notification) ''route invalidate target'' of
                Inl err \<Rightarrow> peer_report (rpcInvalidMessage err) p
              | Inr key \<Rightarrow> p\<lparr>p_cache := cache_invalidate key (p_cache p)\<rparr>)))"

definition push_discovery :: "go_env \<Rightarrow> int \<Rightarrow> string \<Rightarrow> peer \<Rightarrow> peer" where
  "push_discovery env nodeID payload p =
     (if nodeID \<noteq> n_mainNodeID (p_node p) \<or> IsMainNode (p_node p)
      then peer_report (Errorf ''service discovery push from node %d is not allowed'' [ArgD nodeID]) p
      else
        (case decodeOperationPayload (un_ServiceDiscovery (proto env)) payload of
           Inl err \<Rightarrow> peer_report (rpcInvalidMessage err) p
         | Inr notification \<Rightarrow>
             (case requiredRPCServiceKey env (sd_Subscriber notification) ''discovery subscriber'' of
                Inl err \<Rightarrow> peer_report (rpcInvalidMessage err) p
              | Inr subscriber \<Rightarrow>
                  (case normalizeSubscribedServiceName (sd_ServiceName notification) of
                     Inl err \<Rightarrow> peer_report (rpcInvalidMessage err) p
                   | Inr serviceName \<Rightarrow>
                       if serviceName \<noteq> sd_ServiceName notification
                       then peer_report (rpcInvalidMessage (Errorf ''service name is not normalized'' [])) p
                       else
                         (case requiredRPCServiceKeys env 0 (sd_Services notification) ''discovery services'' of
                            Inl err \<Rightarrow> peer_report (rpcInvalidMessage err) p
                          | Inr svcs \<Rightarrow>
                              (case first_mismatch serviceName svcs of
                                 Some service \<Rightarrow> peer_report (rpcInvalidMessage (Errorf
                                   ''discovery service %s does not match subscribed name %q''
                                   [ArgS (key_String service), ArgQ serviceName])) p
                               | None \<Rightarrow>
                                   (case dispatchLocalServiceDiscovery subscriber serviceName
                                           (sd_EventType notification) svcs (p_node p) of
                                      (err, n) \<Rightarrow> p\<lparr>p_node := report err n\<rparr>)))))))"

text \<open>\<^verbatim>\<open>handleRPCDirect\<close> of a client of node \<open>nodeID\<close>.\<close>

definition client_handleRPCDirect :: "go_env \<Rightarrow> int \<Rightarrow> string \<Rightarrow> peer \<Rightarrow> peer" where
  "client_handleRPCDirect env nodeID rpk p =
     (case decodeEnvelope env rpk of
        Inl err \<Rightarrow> peer_report err p
      | Inr (op, payload) \<Rightarrow>
          if op = opRouteInvalidate then push_route env nodeID payload p
          else if op = opServiceDiscovery then push_discovery env nodeID payload p
          else peer_report (Errorf ''unsupported pushed rpc operation %d'' [ArgD op]) p)"

section \<open>Requests\<close>

text \<open>
  \<open>ready\<close> is whether the connection is up and has a session. \<open>net\<close> is \<^verbatim>\<open>RequestSync\<close> of the
  transport: it carries a packet to the other node and returns the answer, or an error.
\<close>

definition client_send :: "go_env \<Rightarrow> bool \<Rightarrow> int \<Rightarrow> pb_arg \<Rightarrow> string result" where
  "client_send env ready op message =
     (if \<not> ready then Inl (Sentinel ErrRPCDisconnected)
      else encodeEnvelope env op message)"

text \<open>\<^verbatim>\<open>requestAsync\<close> up to the transport: the packet it hands over.\<close>

definition requestAsync :: "go_env \<Rightarrow> bool \<Rightarrow> int \<Rightarrow> pb_arg \<Rightarrow> string result" where
  "requestAsync env ready op request =
     (if \<not> ready then Inl (Sentinel ErrRPCDisconnected)
      else encodeEnvelope env op request)"

text \<open>The answer of a request, in \<^verbatim>\<open>requestSync\<close> and in the callback of \<^verbatim>\<open>requestAsync\<close>.\<close>

definition request_result :: "go_env \<Rightarrow> (string \<Rightarrow> 'm result) \<Rightarrow> string result \<Rightarrow> 'm result" where
  "request_result env unmarshal rpk =
     (case rpk of
        Inl err \<Rightarrow> Inl err
      | Inr rpk \<Rightarrow>
          (case decodeResult env rpk of
             Inl err \<Rightarrow> Inl err
           | Inr payload \<Rightarrow> decodeResultPayload unmarshal payload))"

definition requestSync ::
    "go_env \<Rightarrow> bool \<Rightarrow> (string \<Rightarrow> string result) \<Rightarrow> int \<Rightarrow> pb_arg \<Rightarrow> (string \<Rightarrow> 'm result) \<Rightarrow> 'm result" where
  "requestSync env ready net op request unmarshal =
     (case client_send env ready op request of
        Inl err \<Rightarrow> Inl err
      | Inr wpk \<Rightarrow> request_result env unmarshal (net wpk))"

text \<open>\<^verbatim>\<open>lookupServiceFromMain\<close>, over a client that \<^verbatim>\<open>mainClient\<close> has returned.\<close>

definition lookupServiceFromMain ::
    "go_env \<Rightarrow> (bool \<times> (string \<Rightarrow> string result)) result \<Rightarrow> ServiceKey \<Rightarrow> ServiceLocation result" where
  "lookupServiceFromMain env client key =
     (case client of
        Inl err \<Rightarrow> Inl err
      | Inr (ready, net) \<Rightarrow>
          (case requestSync env ready net opLookup
                  (Msg (PbLookupRequest \<lparr>lq_Target = Some (serviceKeyToProto key)\<rparr>))
                  (un_LookupResponse (proto env)) of
             Inl err \<Rightarrow> Inl err
           | Inr response \<Rightarrow>
               (case lr_Location response of
                  None \<Rightarrow> Inl (wrapf ErrServiceNotFound ''%s'' [ArgS (key_String key)])
                | Some l \<Rightarrow>
                    (case requiredRPCServiceLocation env (Some l) ''lookup response location'' of
                       Inl err \<Rightarrow> Inl (rpcInvalidMessage err)
                     | Inr location \<Rightarrow> Inr location))))"

section \<open>A push arrives as it was sent\<close>

definition valid_key :: "go_env \<Rightarrow> ServiceKey \<Rightarrow> bool" where
  "valid_key env k \<longleftrightarrow> key_Name k \<noteq> '''' \<and> 0 < key_ID k \<and> go_int (intBits env) (key_ID k)"

definition valid_push :: "go_env \<Rightarrow> push \<Rightarrow> bool" where
  "valid_push env p \<longleftrightarrow>
     (case p of
        RoutePush k \<Rightarrow> valid_key env k
      | DiscoveryPush k nm ev ks \<Rightarrow> valid_key env k \<and> normalizeSubscribedServiceName nm = Inr nm \<and>
          (\<forall>k' \<in> set ks. valid_key env k' \<and> key_Name k' = nm))"

text \<open>What a push is for: it drops a route, or notifies a local subscriber.\<close>

definition apply_push :: "push \<Rightarrow> peer \<Rightarrow> peer" where
  "apply_push m p =
     (case m of
        RoutePush k \<Rightarrow> p\<lparr>p_cache := cache_invalidate k (p_cache p)\<rparr>
      | DiscoveryPush k nm ev ks \<Rightarrow>
          (case dispatchLocalServiceDiscovery k nm ev ks (p_node p) of
             (err, n) \<Rightarrow> p\<lparr>p_node := report err n\<rparr>))"

lemma requiredKeys_roundtrip:
  assumes "intBits env \<le> 64" "\<forall>k \<in> set ks. valid_key env k"
  shows "requiredRPCServiceKeys env i (map (\<lambda>k. Some (serviceKeyToProto k)) ks) name = Inr ks"
  using assms(2)
  by (induction ks arbitrary: i) (simp_all add: requiredKey_roundtrip [OF assms(1)] valid_key_def)

lemma first_mismatch_None: "\<forall>k \<in> set ks. key_Name k = nm \<Longrightarrow> first_mismatch nm ks = None"
  by (induction ks) simp_all

lemma encoded_decodes:
  assumes "packet_laws (packet env) enc" "proto_laws (proto env)" "int16_range op"
    "encodeEnvelope env op (Msg m) = Inr w"
  shows "\<exists>b. decodeEnvelope env w = Inr (op, b) \<and> unmarshals (proto env) m b"
proof -
  from assms(4) obtain b where b: "proto_Marshal (proto env) m = Inr b"
    by (auto simp: encodeEnvelope_def Let_def split: sum.splits if_splits)
  with envelope_decodes [OF assms(1-3) b] assms(2,4) show ?thesis by (auto simp: proto_laws_def)
qed

lemma push_op_range: "int16_range (push_op p)"
  by (cases p) (simp_all add: push_op_def op_defs int16_range_def)

lemma push_arrives:
  assumes "packet_laws (packet env) enc" "proto_laws (proto env)" "intBits env \<le> 64"
    "encode_push env m = Inr w" "valid_push env m"
    "nodeID = n_mainNodeID (p_node p)" "\<not> IsMainNode (p_node p)"
  shows "client_handleRPCDirect env nodeID w p = apply_push m p"
proof -
  obtain b where b: "decodeEnvelope env w = Inr (push_op m, b)" "unmarshals (proto env) (push_message m) b"
    using encoded_decodes [OF assms(1,2) push_op_range assms(4) [unfolded encode_push_def]] by blast
  show ?thesis
  proof (cases m)
    case (RoutePush k)
    with b assms(3,5-7) show ?thesis
      by (simp add: client_handleRPCDirect_def push_op_def push_message_def push_route_def apply_push_def
          decodeOperationPayload_def valid_push_def valid_key_def requiredKey_roundtrip)
  next
    case (DiscoveryPush k nm ev ks)
    with assms(5) have v: "valid_key env k" "normalizeSubscribedServiceName nm = Inr nm"
      "\<forall>k' \<in> set ks. valid_key env k'" "\<forall>k' \<in> set ks. key_Name k' = nm"
      by (simp_all add: valid_push_def)
    have "opServiceDiscovery \<noteq> opRouteInvalidate" by (simp add: op_defs)
    with b assms(3,6,7) DiscoveryPush v requiredKeys_roundtrip [OF assms(3) v(3)] first_mismatch_None [OF v(4)]
    show ?thesis
      by (simp add: client_handleRPCDirect_def push_op_def push_message_def push_discovery_def apply_push_def
          decodeOperationPayload_def valid_key_def requiredKey_roundtrip)
  qed
qed

text \<open>
  A push arrives as it was sent: a node that receives, over its connection to the main node,
  the packet the main node built for an invalidation or a discovery message does exactly what
  the message is for. It drops the cached route of that service, or hands the event, with its
  services in order, to the loop of the local subscriber (or reports that there is none).
\<close>

theorem push_delivered:
  assumes "packet_laws (packet env) enc" "proto_laws (proto env)" "intBits env \<le> 64"
    "encode_push env m = Inr w" "valid_push env m"
    "nodeID = n_mainNodeID (p_node p)" "\<not> IsMainNode (p_node p)"
  shows "client_handleRPCDirect env nodeID w p = apply_push m p"
  by (rule push_arrives [OF assms])

definition push_table :: "(pb_message \<times> string) list" where
  "push_table = [(push_message (RoutePush (ServiceKey ''room'' 1)), ''r1''),
     (push_message (DiscoveryPush (ServiceKey ''gate'' 1) ''room'' eventOnline [ServiceKey ''room'' 1]), ''d1'')]"

definition peer_sample :: peer where
  "peer_sample = \<lparr>p_node = demo_main\<lparr>n_id := 2, n_localServices := [(ServiceKey ''gate'' 1,
       \<lparr>rt_handler = True, rt_started = True, rt_registered = True, rt_subscriptions = []\<rparr>)]\<rparr>,
     p_cache = newServiceRouteCache 0 True\<rparr>"

theorem push_delivered_witness:
  "p_node (client_handleRPCDirect (table_env push_table) 1 (be16 9 @ ''d1'') peer_sample) =
     out [PostService (ServiceKey ''gate'' 1)
       (DiscoveryTask (ServiceKey ''gate'' 1) ''room'' eventOnline [ServiceKey ''room'' 1])] (p_node peer_sample)"
proof -
  let ?m = "DiscoveryPush (ServiceKey ''gate'' 1) ''room'' eventOnline [ServiceKey ''room'' 1]"
  have "proto_laws (proto (table_env push_table))"
    by (simp add: push_table_def) (rule table_proto_laws, simp)
  moreover have "encode_push (table_env push_table) ?m = Inr (be16 9 @ ''d1'')"
    by (simp add: encode_push_def encodeEnvelope_def push_op_def op_defs table_proto_def push_table_def
        push_message_def be_packet_def)
  moreover have "valid_push (table_env push_table) ?m"
    by (simp add: valid_push_def valid_key_def go_int_def normalize_result usable_text_def) code_simp
  ultimately have "client_handleRPCDirect (table_env push_table) 1 (be16 9 @ ''d1'') peer_sample = apply_push ?m peer_sample"
    by (intro push_delivered [where enc = be16])
      (simp_all add: be_packet_laws peer_sample_def demo_main_def IsMainNode_def)
  then show ?thesis
    by (simp add: apply_push_def peer_sample_def dispatchLocalServiceDiscovery_def go_get_def event_defs
        report_def emit_out)
qed

section \<open>Lookups are exact\<close>

text \<open>The transport between a registered session of the main node and its client.\<close>

definition serve :: "go_env \<Rightarrow> session \<Rightarrow> int \<Rightarrow> server_node \<Rightarrow> string \<Rightarrow> string result" where
  "serve env s c n w =
     (case drop (length (n_out n)) (n_out (handleRPCRequest env None s c w n)) of
        [Respond _ _ w'] \<Rightarrow> Inr w'
      | _ \<Rightarrow> Inl (Foreign ''rpc request timeout''))"

lemma serve_out: "handleRPCRequest env None s c w n = out [Respond s' c' w'] n \<Longrightarrow> serve env s c n w = Inr w'"
  by (simp add: serve_def)

lemma response_decodes:
  assumes "packet_laws (packet env) enc" "proto_laws (proto env)" "proto_Marshal (proto env) m = Inr b"
  shows "\<exists>w. response_out env s c m = [Respond s c w] \<and> decodeResult env w = Inr b \<and> unmarshals (proto env) m b"
proof -
  let ?w = "WriteString (packet env) (WriteString (packet env) [] '''') '''' @ b"
  have "response_out env s c m = [Respond s c ?w]"
    using assms(2,3) by (simp add: response_out_def encodeResult_def Let_def proto_laws_def)
  moreover have "decodeResult env ?w = Inr b" using decodeResult_written [OF assms(1), of "''''" "''''" b] by simp
  ultimately show ?thesis using assms(2,3) by (auto simp: proto_laws_def)
qed

lemma error_decodes:
  assumes "packet_laws (packet env) enc" "length (error_text (quote env) e) \<le> maxRPCStringSize"
  shows "\<exists>w e'. error_out env s c (Some e) = [Respond s c w] \<and> decodeResult env w = Inl e' \<and>
     (\<forall>t. errors_Is e' t \<longleftrightarrow> find (errors_Is e) wire_sentinels = Some t)"
proof -
  let ?txt = "error_text (quote env) e"
  let ?w = "WriteString (packet env) (WriteString (packet env) [] (error_code e)) ?txt"
  have "error_out env s c (Some e) = [Respond s c ?w]"
    using assms(2) length_error_code(1) [of e]
    by (simp add: error_out_def encodeRPCError_def encodeResult_def Let_def)
  moreover have "decodeResult env ?w = (case find (errors_Is e) wire_sentinels of
         Some cause \<Rightarrow> Inl (wrapf cause ''remote rpc: %s'' [ArgS ?txt])
       | None \<Rightarrow> Inl (Errorf ''remote rpc: %s'' [ArgS ?txt]))"
    using decodeResult_written [OF assms(1) length_error_code(1) assms(2), where data = "[]"]
    by (simp add: length_error_code(2) code_cause_error_code)
  ultimately show ?thesis by (auto split: option.splits)
qed


lemma lookup_request:
  assumes "packet_laws (packet env) enc" "proto_laws (proto env)" "intBits env \<le> 64" "valid_key env k"
    "encodeEnvelope env opLookup (Msg (PbLookupRequest \<lparr>lq_Target = Some (serviceKeyToProto k)\<rparr>)) = Inr w"
    "registeredRemoteNode s n = Inr r" "IsMainNode n"
  shows "handleRPCRequest env None s c w n =
     (case registry_Lookup (n_registry n) k of
        None \<Rightarrow> out (error_out env s c (Some (wrapf ErrServiceNotFound ''%s'' [ArgS (key_String k)]))) n
      | Some l \<Rightarrow> out (response_out env s c (PbLookupResponse \<lparr>lr_Location = Some (serviceLocationToProto l)\<rparr>)) n)"
proof -
  have "int16_range opLookup" by (simp add: op_defs int16_range_def)
  from encoded_decodes [OF assms(1,2) this assms(5)] obtain b where
    "decodeEnvelope env w = Inr (opLookup, b)" "un_LookupRequest (proto env) b = Inr \<lparr>lq_Target = Some (serviceKeyToProto k)\<rparr>"
    by auto
  with assms show ?thesis
    by (simp add: handleRPCRequest_def handle_lookup_def decodeOperationPayload_def requiredKey_roundtrip
        valid_key_def respond_eqs op_defs Let_def cong: option.case_cong)
qed

text \<open>
  C18. A lookup over RPC returns what the main node's registry holds: asked by a registered node
  over a connection that delivers, the main node's handler and the client's decoding together
  return exactly the registered location, and for a service that is not registered an error of
  the class \<^verbatim>\<open>ErrServiceNotFound\<close> and of no other.
\<close>

theorem lookup_exact:
  assumes "packet_laws (packet env) enc" "proto_laws (proto env)" "intBits env \<le> 64"
    "is_ok (proto_Marshal (proto env) (PbLookupRequest \<lparr>lq_Target = Some (serviceKeyToProto k)\<rparr>))"
    "IsMainNode n" "registeredRemoteNode s n = Inr r" "valid_key env k"
    "\<And>l. registry_Lookup (n_registry n) k = Some l \<Longrightarrow>
       is_ok (proto_Marshal (proto env) (PbLookupResponse \<lparr>lr_Location = Some (serviceLocationToProto l)\<rparr>)) \<and>
       valid_location l \<and> go_int (intBits env) (ServiceID l) \<and> go_int (intBits env) (NodeID l)"
    "length (error_text (quote env) (wrapf ErrServiceNotFound ''%s'' [ArgS (key_String k)])) \<le> maxRPCStringSize"
  shows "case registry_Lookup (n_registry n) k of
       Some l \<Rightarrow> lookupServiceFromMain env (Inr (True, serve env s c n)) k = Inr l
     | None \<Rightarrow> \<exists>e. lookupServiceFromMain env (Inr (True, serve env s c n)) k = Inl e \<and>
         (\<forall>t. errors_Is e t \<longleftrightarrow> t = ErrServiceNotFound)"
proof -
  let ?q = "PbLookupRequest \<lparr>lq_Target = Some (serviceKeyToProto k)\<rparr>"
  obtain b where "proto_Marshal (proto env) ?q = Inr b" using assms(4) by (metis is_okE)
  with assms(2) have "\<exists>w. encodeEnvelope env opLookup (Msg ?q) = Inr w" by (simp add: encodeEnvelope_Msg)
  then obtain w where w: "encodeEnvelope env opLookup (Msg ?q) = Inr w" by blast
  note handled = lookup_request [OF assms(1-3,7) w assms(6,5), of c]
  show ?thesis
  proof (cases "registry_Lookup (n_registry n) k")
    case None
    let ?e = "wrapf ErrServiceNotFound ''%s'' [ArgS (key_String k)]"
    from error_decodes [OF assms(1,9), of s c] obtain w' e' where
      e: "error_out env s c (Some ?e) = [Respond s c w']" "decodeResult env w' = Inl e'"
        "\<forall>t. errors_Is e' t \<longleftrightarrow> find (errors_Is ?e) wire_sentinels = Some t" by blast
    have "serve env s c n w = Inr w'" by (rule serve_out [of env s c w n s c]) (simp only: handled None e(1) option.case)
    with w e(2,3) None show ?thesis
      by (auto simp: lookupServiceFromMain_def requestSync_def client_send_def request_result_def wire_sentinels_def)
  next
    case (Some l)
    let ?m = "PbLookupResponse \<lparr>lr_Location = Some (serviceLocationToProto l)\<rparr>"
    obtain b' where "proto_Marshal (proto env) ?m = Inr b'" using assms(8) [OF Some] by (metis is_okE)
    from response_decodes [OF assms(1,2) this, of s c] obtain w' where
      e: "response_out env s c ?m = [Respond s c w']" "decodeResult env w' = Inr b'"
        "un_LookupResponse (proto env) b' = Inr \<lparr>lr_Location = Some (serviceLocationToProto l)\<rparr>" by auto
    have "serve env s c n w = Inr w'" by (rule serve_out [of env s c w n s c]) (simp only: handled Some e(1) option.case)
    with w e(2,3) Some assms(3) assms(8) [OF Some] show ?thesis
      by (simp add: lookupServiceFromMain_def requestSync_def client_send_def request_result_def
          decodeResultPayload_def serviceLocation_roundtrip)
  qed
qed


definition lookup_table :: "(pb_message \<times> string) list" where
  "lookup_table = [(PbLookupRequest \<lparr>lq_Target = Some (serviceKeyToProto (demo_key 1))\<rparr>, ''q1''),
     (PbLookupResponse \<lparr>lr_Location = Some (serviceLocationToProto (demo_location 1))\<rparr>, ''a1'')]"

theorem lookup_exact_witness:
  "lookupServiceFromMain (table_env lookup_table) (Inr (True, serve (table_env lookup_table) 7 5 demo_state))
     (demo_key 1) = Inr (demo_location 1)"
proof -
  let ?r = "\<lparr>rm_id = 2, rm_addr = '':2'', rm_session = 7, rm_timer = True, rm_active = True\<rparr>"
  have l: "registry_Lookup (n_registry demo_state) (demo_key 1) = Some (demo_location 1)"
    by (simp add: registry_Lookup_def demo_state_def go_get_def)
  have laws: "proto_laws (proto (table_env lookup_table))"
    by (simp add: lookup_table_def) (rule table_proto_laws, simp)
  have "registeredRemoteNode 7 demo_state = Inr ?r"
    by (simp add: registeredRemoteNode_def remoteNodeFromSession_def demo_state_def go_get_def linked_def)
  moreover have "IsMainNode demo_state" by (simp add: IsMainNode_def demo_state_def demo_main_def)
  moreover have "length (error_text (quote (table_env lookup_table))
      (wrapf ErrServiceNotFound ''%s'' [ArgS (key_String (demo_key 1))])) \<le> 100" by code_simp
  ultimately show ?thesis
    using lookup_exact [OF _ laws, where enc = be16 and n = demo_state and s = 7 and r = ?r and k = "demo_key 1" and c = 5] l
    by (simp add: be_packet_laws valid_key_def demo_key_def go_int_def lookup_table_def table_proto_def
        maxRPCStringSize_def valid_location_def demo_location_def)
qed

end
