(* ===== verification/Push_Validity.thy ===== *)
theory Push_Validity
  imports Rpc_Client
begin

text \<open>
  What the main node pushes is well-formed: the checks of the handlers of \<^verbatim>\<open>node.go\<close> on the requests
  they accept carry over, through the closures of the control loop, the registry and the
  subscriptions, to every key and name in a message that is sent later.
\<close>

section \<open>Well-formed tasks\<close>

definition normal_name :: "string \<Rightarrow> bool" where
  "normal_name nm \<longleftrightarrow> normalizeSubscribedServiceName nm = Inr nm"

definition wf_task :: "go_env \<Rightarrow> control_task \<Rightarrow> bool" where
  "wf_task env task \<longleftrightarrow>
     (case task of
        RegisterTask s c p i l \<Rightarrow> valid_key env (location_Key l)
      | SubscribeTask s c p i k nm \<Rightarrow> normal_name nm
      | LocalRegisterTask k \<Rightarrow> valid_key env k
      | LocalSubscribeTask k nm \<Rightarrow> normal_name nm
      | _ \<Rightarrow> True)"

text \<open>The local services of the main node have valid keys and subscribe to normalised names.\<close>

fun wf_event :: "go_env \<Rightarrow> server_event \<Rightarrow> bool" where
  "wf_event env (LocalCall task) \<longleftrightarrow> wf_task env task"
| "wf_event env _ \<longleftrightarrow> True"

definition push_step :: "go_env \<Rightarrow> server_node \<Rightarrow> server_event \<Rightarrow> server_node \<Rightarrow> bool" where
  "push_step env n e m \<longleftrightarrow> server_step env n e m \<and> wf_event env e"

abbreviation push_reach :: "go_env \<Rightarrow> server_node \<Rightarrow> bool" where
  "push_reach env \<equiv> reach server_init (push_step env)"

lemma requiredKey_valid: "requiredRPCServiceKey env m name = Inr k \<Longrightarrow> valid_key env k"
  by (auto simp: requiredRPCServiceKey_def serviceKeyFromProto_def rpcInt_def valid_key_def go_int_def Let_def
      split: sum.splits if_splits option.splits)

lemma requiredLocation_valid: "requiredRPCServiceLocation env m name = Inr l \<Longrightarrow> valid_key env (location_Key l)"
  by (auto simp: requiredRPCServiceLocation_def serviceLocationFromProto_def rpcInt_def valid_key_def go_int_def location_Key_def Let_def
      split: sum.splits if_splits option.splits)

section \<open>The handlers post well-formed tasks\<close>

definition posts_wf :: "go_env \<Rightarrow> server_node \<Rightarrow> server_node \<Rightarrow> bool" where
  "posts_wf env n m \<longleftrightarrow> (\<forall>t\<in>set (n_posting m). t \<in> set (n_posting n) \<or> wf_task env t)"

lemma posts_wf_simps [simp]:
  "posts_wf env n (out xs m) \<longleftrightarrow> posts_wf env n m" "posts_wf env n n"
  by (simp_all add: posts_wf_def)

lemma posts_wf_post: "wf_task env t \<Longrightarrow> posts_wf env n (post_control t n)"
  by (simp add: posts_wf_def post_control_def)

lemma posts_wf_sends: "sends n m \<Longrightarrow> posts_wf env n m"
  by (auto simp: sends_def)

lemma posts_wf_receive:
  assumes "\<And>n. sends n (body n)"
  shows "posts_wf env n (with_receive_request pick body n)"
proof -
  obtain request pool where a: "acquireDeliverReceiveRequest pick (n_receivePool n) = (request, pool)" by fastforce
  obtain xs where "body (n\<lparr>n_receivePool := pool\<rparr>) = out xs (n\<lparr>n_receivePool := pool\<rparr>)"
    using assms unfolding sends_def by blast
  with a show ?thesis by (simp add: with_receive_request_def out_update posts_wf_def)
qed

lemma posts_wf_deliver: "posts_wf env n (handle_deliver env pick s c payload n)"
  unfolding handle_deliver_def
  by (rule posts_wf_receive)
    (auto simp: Let_def dispatch_defs dispatched_responds respondRPCError_eq split: sum.split simp del: not_None_eq)

lemma posts_wf_direct: "posts_wf env n (handleRPCDirect env pick s rpk n)"
  using direct_sends
  by (auto simp: handleRPCDirect_def respond_eqs(3) [of "Some _"] split: sum.split intro!: posts_wf_receive)

lemma posts_wf_register_node: "posts_wf env n (handleRegisterNode env s c payload n)"
  by (rule handleRegisterNode_cases [of env s c payload n]) (auto simp: posts_wf_def post_control_def wf_task_def)

lemma posts_wf_request: "posts_wf env n (handleRPCRequest env pick s c rpk n)"
proof -
  have "posts_wf env n (handle_register env s c r payload n)" for r payload
    by (auto simp: handle_register_def Let_def respond_eqs wf_task_def split: sum.split
        intro!: posts_wf_post dest: requiredLocation_valid)
  moreover have "posts_wf env n (handle_unregister env s c r payload n)" for r payload
    by (auto simp: handle_unregister_def Let_def respond_eqs wf_task_def split: sum.split intro!: posts_wf_post)
  moreover have "posts_wf env n (handle_subscribe env s c r payload n)" for r payload
    by (auto simp: handle_subscribe_def Let_def respond_eqs wf_task_def normal_name_def split: sum.split intro!: posts_wf_post)
  moreover have "posts_wf env n (handle_heartbeat env s c payload n)" for payload
    by (auto simp: handle_heartbeat_def respond_eqs refreshRemoteHeartbeat_def armRemoteNodeTimeout_def wf_task_def
        split: sum.split intro!: posts_wf_post)
  moreover have "posts_wf env n (handle_lookup env s c payload n)" for payload
    by (auto simp: handle_lookup_def Let_def respond_eqs split: sum.split option.split)
  ultimately show ?thesis
    by (auto simp: handleRPCRequest_def respond_eqs posts_wf_register_node posts_wf_deliver split: sum.split)
qed

section \<open>Pending tasks\<close>

lemma wf_pending_step:
  assumes "table_ok n" "push_step env n e m" "t \<in> pending m"
  shows "t \<in> pending n \<or> wf_task env t"
proof (cases "t \<in> pending n")
  case False
  from assms(2) have step: "server_step env n e m" "wf_event env e" by (simp_all add: push_step_def)
  from pending_new [OF assms(1) step(1) assms(3) False]
  consider "wf_task env t" | s c rpk pick where "e = Request s c rpk pick" | s rpk pick where "e = Direct s rpk pick"
    using step(2) by (auto simp: wf_task_def)
  then show ?thesis
  proof cases
    case (2 s c rpk pick)
    then have m: "m = handleRPCRequest env pick s c rpk n" using step(1) by (auto elim: server_step.cases)
    from handleRPCRequest_change [of s n env pick c rpk] have "n_control m = n_control n" "n_running m = n_running n"
      unfolding m by (auto simp: post_control_def elim!: handler_change.cases)
    with posts_wf_request [of env n pick s c rpk] assms(3) show ?thesis
      unfolding m by (auto simp: posts_wf_def pending_def)
  next
    case (3 s rpk pick)
    then have m: "m = handleRPCDirect env pick s rpk n" using step(1) by (auto elim: server_step.cases)
    from handleRPCDirect_change [of s n env pick rpk] have "n_control m = n_control n" "n_running m = n_running n"
      unfolding m by (auto simp: post_control_def elim!: handler_change.cases)
    with posts_wf_direct [of env n pick s rpk] assms(3) show ?thesis
      unfolding m by (auto simp: posts_wf_def pending_def)
  qed simp
qed simp

section \<open>What is sent\<close>

text \<open>A discovery event is a snapshot, or tells of one service.\<close>

definition event_wf :: "int \<Rightarrow> ServiceKey list \<Rightarrow> bool" where
  "event_wf ev ks \<longleftrightarrow> ev = eventSnapshot \<or> ((ev = eventOnline \<or> ev = eventOffline) \<and> length ks = 1)"

fun push_wf :: "go_env \<Rightarrow> push \<Rightarrow> bool" where
  "push_wf env (RoutePush k) \<longleftrightarrow> valid_push env (RoutePush k)"
| "push_wf env (DiscoveryPush k nm ev ks) \<longleftrightarrow> valid_push env (DiscoveryPush k nm ev ks) \<and> event_wf ev ks"

definition sent_wf :: "go_env \<Rightarrow> effect list \<Rightarrow> bool" where
  "sent_wf env xs \<longleftrightarrow> (\<forall>s p w. SendDirect s p w \<in> set xs \<longrightarrow> push_wf env p \<and> encode_push env p = Inr w)"

lemma sent_wf_simps [simp]: "sent_wf env []" "sent_wf env (xs @ ys) \<longleftrightarrow> sent_wf env xs \<and> sent_wf env ys"
  by (auto simp: sent_wf_def)

lemma sent_wf_quiet: "quiet xs \<Longrightarrow> sent_wf env xs"
  by (auto simp: sent_wf_def quiet_def list_all_iff)

lemma sent_wf_concat: "(\<And>x. x \<in> set xs \<Longrightarrow> sent_wf env (f x)) \<Longrightarrow> sent_wf env (concat (map f xs))"
  by (induction xs) simp_all

lemma sent_wf_broadcast:
  assumes "\<And>k s. (k, s) \<in> set ps \<Longrightarrow> valid_key env k"
  shows "sent_wf env (broadcast_out env ps)"
  using assms
proof (induction ps)
  case (Cons p ps)
  obtain k s where p: "p = (k, s)" by (rule prod.exhaust)
  have "valid_key env k" using Cons.prems [of k s] p by simp
  moreover have "sent_wf env (broadcast_out env ps)" using Cons.IH Cons.prems by auto
  ultimately show ?case by (auto simp: p sent_wf_def valid_push_def split: sum.splits)
qed simp

lemma sent_wf_route: "(\<And>k. k \<in> set ks \<Longrightarrow> valid_key env k) \<Longrightarrow> sent_wf env (route_out env n ks)"
  by (auto simp: route_out_def intro!: sent_wf_broadcast)

lemma sent_wf_discovery:
  assumes "valid_key env k" "normal_name nm" "\<And>k'. k' \<in> set ks \<Longrightarrow> valid_key env k' \<and> key_Name k' = nm" "event_wf ev ks"
  shows "sent_wf env (discovery_out env n k nm ev ks)"
proof -
  have "push_wf env (DiscoveryPush k nm ev ks)" using assms by (auto simp: valid_push_def normal_name_def)
  then show ?thesis
    by (cases "encode_push env (DiscoveryPush k nm ev ks)")
      (auto simp: discovery_out_def local_discovery_out_def sent_wf_def split: option.splits if_splits)
qed

text \<open>The registry holds valid keys, and the subscribed names are normalised.\<close>

definition keys_wf :: "go_env \<Rightarrow> server_node \<Rightarrow> bool" where
  "keys_wf env n \<longleftrightarrow> (\<forall>k. registry_Lookup (n_registry n) k \<noteq> None \<longrightarrow> valid_key env k) \<and>
     (\<forall>k nm. (k, nm) \<in> index_rel (n_subscriptions n) \<longrightarrow> normal_name nm)"

lemma sent_wf_announce:
  assumes "registry_ok n" "keys_wf env n" "valid_key env k" "ev = eventOnline \<or> ev = eventOffline"
  shows "sent_wf env (announce_out env n ev k)"
  unfolding announce_out_def
proof (rule sent_wf_concat)
  fix sub
  assume "sub \<in> set (index_subscribers (n_subscriptions n) (key_Name k))"
  then have sub: "(sub, key_Name k) \<in> index_rel (n_subscriptions n)"
    using ix.set_subscribers [OF registry_okD(2) [OF assms(1)]] by auto
  then have "registry_Lookup (n_registry n) sub \<noteq> None" by (rule registry_okD(3) [OF assms(1)])
  with sub assms(2-4) show "sent_wf env (discovery_out env n sub (key_Name k) ev [k])"
    by (intro sent_wf_discovery) (auto simp: keys_wf_def event_wf_def)
qed

lemma keys_wf_change:
  assumes "registry_ok n" "keys_wf env n" "wf_task env task" "registry_change env task n m xs"
  shows "keys_wf env m \<and> sent_wf env xs"
proof -
  note ok = registry_ok_change [OF assms(1,4)] and reg = registry_okD [OF assms(1)]
  have removed: "keys_wf env (unregister_state ks r n)"
    if "\<And>k. registry_Lookup r k \<noteq> None \<Longrightarrow> registry_Lookup (n_registry n) k \<noteq> None" for ks r
    using assms(2) that by (auto simp: keys_wf_def unregister_state_def drop_subscribers_def ix.rel_remove_all [OF reg(2)])
  have unregistered: "sent_wf env (unregistered_out env m ks)"
    if "keys_wf env m" "\<And>k. k \<in> set ks \<Longrightarrow> valid_key env k" for ks
    using that by (auto simp: unregistered_out_def intro!: sent_wf_route sent_wf_concat sent_wf_announce [OF ok])
  from assms(4) show ?thesis
  proof (cases rule: registry_change.cases)
    case (change_register l r)
    have k: "valid_key env (location_Key l)"
      using assms(3) change_register(3) by (auto simp: wf_task_def location_Key_def local_location_def)
    have "keys_wf env m"
      using assms(2) k mem.Lookup_Register [OF change_register(2)] by (auto simp: keys_wf_def change_register(4) split: if_splits)
    with k show ?thesis
      by (auto simp: change_register(1) registered_out_def intro: sent_wf_route sent_wf_announce [OF ok])
  next
    case (change_unregister k i r)
    have "is_ok (registry_Unregister k i (n_registry n))" using change_unregister(2) by simp
    then have "registry_Lookup (n_registry n) k \<noteq> None" by (auto simp: mem.Unregister_ok)
    then have "valid_key env k" using assms(2) by (simp add: keys_wf_def)
    moreover have "keys_wf env m" unfolding change_unregister(4)
      by (rule removed) (auto simp: mem.Lookup_Unregister [OF change_unregister(2)] split: if_splits)
    ultimately show ?thesis using unregistered [of "[k]"] by (simp add: change_unregister(1))
  next
    case (change_node_gone i)
    have "valid_key env k" if "k \<in> set (serviceKeysForNode i n)" for k
      using that assms(2) by (auto simp: set_serviceKeysForNode [OF reg(1)] keys_wf_def)
    moreover have "keys_wf env m" unfolding change_node_gone(3)
      by (rule removed) (auto simp: mem.Lookup_UnregisterNode [OF reg(1)] split: option.splits if_splits)
    ultimately show ?thesis using unregistered [of "serviceKeysForNode i n"] by (simp add: change_node_gone(1))
  next
    case (change_subscribe k nm)
    have nm: "normal_name nm" using assms(3) change_subscribe(3) by (auto simp: wf_task_def)
    have wf: "keys_wf env m"
      using assms(2) nm reg(2) by (auto simp: keys_wf_def change_subscribe(4) subscribe_state_def ix.rel_subscribe)
    have inv: "registry_inv (n_registry m)" using registry_okD(1) [OF ok] .
    have "valid_key env k" using change_subscribe(2) assms(2) by (simp add: keys_wf_def)
    moreover have "valid_key env k' \<and> key_Name k' = nm" if "k' \<in> set (serviceSnapshot nm m)" for k'
      using that wf by (auto simp: set_serviceSnapshot [OF inv] keys_wf_def)
    ultimately show ?thesis using wf nm by (auto simp: change_subscribe(1) event_wf_def intro: sent_wf_discovery)
  qed (use assms(2) in simp)
qed

section \<open>Every push is well-formed\<close>

definition push_inv :: "go_env \<Rightarrow> server_node \<Rightarrow> bool" where
  "push_inv env n \<longleftrightarrow> server_inv n \<and> (\<forall>t\<in>pending n. wf_task env t) \<and> keys_wf env n \<and> sent_wf env (n_out n)"

lemma push_inv_step:
  assumes "push_inv env n" "push_step env n e m"
  shows "push_inv env m"
proof -
  from assms(2) have step: "server_step env n e m" by (simp add: push_step_def)
  from assms(1) have inv: "server_inv n" "table_ok n" "registry_ok n" "\<forall>t\<in>pending n. wf_task env t" "keys_wf env n" "sent_wf env (n_out n)"
    by (simp_all add: push_inv_def server_inv_def)
  have "keys_wf env m \<and> sent_wf env (n_out m)"
    using quiet_step [OF inv(2) step]
  proof (elim disjE exE conjE)
    fix ys assume "n_registry m = n_registry n" "n_subscriptions m = n_subscriptions n" "quiet ys" "n_out m = n_out n @ ys"
    with inv(5,6) show ?thesis by (simp add: keys_wf_def sent_wf_quiet)
  next
    fix task k xs ys
    assume a: "n_running n = Some task" "registry_change env task n k xs" "quiet ys" "m = out (xs @ ys) (k\<lparr>n_running := None\<rparr>)"
    then have "wf_task env task" using inv(4) by (simp add: pending_def)
    from keys_wf_change [OF inv(3,5) this a(2)] a(3) inv(6) registry_change_frame(10) [OF a(2)]
    show ?thesis by (simp add: a(4) keys_wf_def sent_wf_quiet)
  qed
  moreover have "\<forall>t\<in>pending m. wf_task env t" using wf_pending_step [OF inv(2) assms(2)] inv(4) by blast
  ultimately show ?thesis using server_inv_step [OF inv(1) step] by (simp add: push_inv_def)
qed

lemma push_inv_init: "server_init n \<Longrightarrow> push_inv env n"
  using server_inv_init [of n]
  by (auto simp: push_inv_def server_init_def pending_def keys_wf_def mem.Lookup_empty ix.rel_empty)

interpretation pushed: inductive_invariant server_init "push_step env" "push_inv env" for env
  by unfold_locales (fact push_inv_init, fact push_inv_step)

lemma push_reach_server: "push_reach env n \<Longrightarrow> server_reach env n"
  by (induction rule: reach.induct) (auto simp: push_step_def intro: reach.intros)

end
