(* ===== verification/Push_Codec.thy ===== *)
theory Push_Codec
  imports Push_Validity
begin

text \<open>
  A marshaller for the two messages the main node pushes. It satisfies the laws of the protobuf
  runtime and encodes every push, so that the hypotheses of the end-to-end results can hold together.
\<close>

section \<open>Prefix codes\<close>

definition put_nat :: "nat \<Rightarrow> string" where
  "put_nat n = replicate n (CHR ''1'') @ ''0''"

fun take_nat :: "string \<Rightarrow> nat \<times> string" where
  "take_nat [] = (0, [])"
| "take_nat (c # cs) = (if c = CHR ''1'' then (case take_nat cs of (n, rest) \<Rightarrow> (Suc n, rest)) else (0, cs))"

lemma take_put_nat [simp]: "take_nat (put_nat n @ rest) = (n, rest)"
  by (induction n) (simp_all add: put_nat_def)

definition put_int :: "int \<Rightarrow> string" where
  "put_int i = put_nat (nat i) @ put_nat (nat (- i))"

definition take_int :: "string \<Rightarrow> int \<times> string" where
  "take_int b = (case take_nat b of (m, b) \<Rightarrow> (case take_nat b of (n, b) \<Rightarrow> (int m - int n, b)))"

lemma take_put_int [simp]: "take_int (put_int i @ rest) = (i, rest)"
  by (simp add: take_int_def put_int_def)

definition put_string :: "string \<Rightarrow> string" where
  "put_string s = put_nat (length s) @ s"

definition take_string :: "string \<Rightarrow> string \<times> string" where
  "take_string b = (case take_nat b of (n, b) \<Rightarrow> (take n b, drop n b))"

lemma take_put_string [simp]: "take_string (put_string s @ rest) = (s, rest)"
  by (simp add: take_string_def put_string_def)

definition put_key :: "pb_ServiceKey \<Rightarrow> string" where
  "put_key k = put_string (pk_Name k) @ put_int (pk_Id k)"

definition take_key :: "string \<Rightarrow> pb_ServiceKey \<times> string" where
  "take_key b = (case take_string b of (nm, b) \<Rightarrow> (case take_int b of (i, b) \<Rightarrow> (\<lparr>pk_Name = nm, pk_Id = i\<rparr>, b)))"

lemma take_put_key [simp]: "take_key (put_key k @ rest) = (k, rest)"
  by (simp add: take_key_def put_key_def)

fun take_keys :: "nat \<Rightarrow> string \<Rightarrow> pb_ServiceKey list" where
  "take_keys 0 b = []"
| "take_keys (Suc n) b = (case take_key b of (k, b) \<Rightarrow> k # take_keys n b)"

lemma take_put_keys [simp]: "take_keys (length ks) (concat (map put_key ks)) = ks"
  by (induction ks) simp_all

section \<open>The marshaller\<close>

fun put_push :: "pb_message \<Rightarrow> string result" where
  "put_push (PbRouteInvalidate m) = (case ri_Target m of None \<Rightarrow> Inl no_parse | Some k \<Rightarrow> Inr (put_key k))"
| "put_push (PbServiceDiscovery m) =
     (case (sd_Subscriber m, those (sd_Services m)) of
        (Some k, Some ks) \<Rightarrow> Inr (put_key k @ put_string (sd_ServiceName m) @ put_int (sd_EventType m) @
          put_nat (length ks) @ concat (map put_key ks))
      | _ \<Rightarrow> Inl no_parse)"
| "put_push _ = Inl no_parse"

definition take_route :: "string \<Rightarrow> RouteInvalidate result" where
  "take_route b = Inr \<lparr>ri_Target = Some (fst (take_key b))\<rparr>"

definition take_discovery :: "string \<Rightarrow> ServiceDiscovery result" where
  "take_discovery b =
     (case take_key b of (k, b) \<Rightarrow> (case take_string b of (nm, b) \<Rightarrow> (case take_int b of (ev, b) \<Rightarrow>
       (case take_nat b of (n, b) \<Rightarrow>
         Inr \<lparr>sd_Subscriber = Some k, sd_ServiceName = nm, sd_EventType = ev, sd_Services = map Some (take_keys n b)\<rparr>))))"

definition push_proto :: proto_api where
  "push_proto = demo_proto
     \<lparr>proto_Marshal := put_push, proto_Size := (\<lambda>m. case put_push m of Inl _ \<Rightarrow> 0 | Inr b \<Rightarrow> int (length b)),
      un_RouteInvalidate := take_route, un_ServiceDiscovery := take_discovery\<rparr>"

definition push_env :: go_env where
  "push_env = demo_env\<lparr>proto := push_proto\<rparr>"

lemma those_Some: "those xs = Some ys \<Longrightarrow> xs = map Some ys"
  by (induction xs arbitrary: ys) (auto split: option.splits)

lemma those_map_Some: "those (map (\<lambda>x. Some (f x)) xs) = Some (map f xs)"
  by (induction xs) simp_all

lemma push_proto_laws: "proto_laws push_proto"
proof -
  have "unmarshals push_proto m b" if "put_push m = Inr b" for m b
  proof (cases m)
    case (PbRouteInvalidate r)
    with that take_put_key [of _ "[]"] show ?thesis
      by (auto simp: push_proto_def take_route_def split: option.splits)
  next
    case (PbServiceDiscovery d)
    with that show ?thesis
      by (auto simp: push_proto_def take_discovery_def dest!: those_Some split: option.splits)
  qed (use that in auto)
  then show ?thesis by (simp add: proto_laws_def push_proto_def)
qed

lemma push_env_encodes: "pushes_encode push_env"
  unfolding pushes_encode_def
proof
  fix p
  show "is_ok (encode_push push_env p)"
    by (cases p) (simp_all add: encode_push_def encodeEnvelope_def push_env_def push_proto_def push_message_def
        those_map_Some comp_def Let_def)
qed

section \<open>Runs\<close>

lemma push_exec_step: "server_exec env e n = Some m \<Longrightarrow> wf_event env e \<Longrightarrow> push_step env n e m"
  by (simp add: push_step_def server_exec_step)

lemma push_run_reach:
  "push_reach env n \<Longrightarrow> list_all (wf_event env) es \<Longrightarrow> server_run env es n = Some m \<Longrightarrow> push_reach env m"
  by (induction es arbitrary: n) (auto split: option.splits intro: reach_step push_exec_step)

end
