(* ===== verification/Main_Link.thy ===== *)
theory Main_Link
  imports Node_Server
begin

text \<open>
  The connections of a node: \<^verbatim>\<open>RPCClient\<close> of \<^verbatim>\<open>rpc_client.go\<close> with its heartbeat, the table of
  clients and \<^verbatim>\<open>getRPCClient\<close> of \<^verbatim>\<open>node.go\<close>, and the recovery of the connection to the main
  node in \<^verbatim>\<open>main_recovery.go\<close>. As in \<open>Node_Server\<close> every definition is the code between two
  points at which other goroutines may run, and \<open>link_step\<close> lets callers, the recovery loop, the
  heartbeats of the control loop, broken connections and the lifecycle interleave.
\<close>

section \<open>State\<close>

datatype node_state = nodeStateInitial | nodeStateStarting | nodeStateRunning | nodeStateStopping | nodeStateStopped

text \<open>
  Where the heartbeat of a client is: nowhere, in the closure of \<^verbatim>\<open>startHeartbeat\<close>, in an armed
  timer, in a request, or in the closure that handles the result.
\<close>

datatype heartbeat = HbNone | HbPosted | HbArmed | HbInFlight | HbResult "gerror option"

text \<open>A client; \<open>rc_closed\<close> is whether \<^verbatim>\<open>closeOnce\<close> has run.\<close>

record RPCClient =
  rc_nodeID :: int
  rc_addr :: string
  rc_connected :: bool
  rc_closed :: bool
  rc_heartbeat :: heartbeat
  rc_heartbeatPending :: bool

text \<open>
  A call of \<^verbatim>\<open>getRPCClient\<close>: before \<^verbatim>\<open>cachedRPCClient\<close>, before the check of the state, waiting for
  \<^verbatim>\<open>clientCreateMu\<close>, holding it, or returned.
\<close>

datatype call_pc =
    CallCached int string
  | CallState int string
  | CallLock int string
  | CallHeld int
  | CallReturn int "nat option"

text \<open>The recovery loop, with the delay of \<^verbatim>\<open>recoverMainNode\<close> in milliseconds.\<close>

datatype recovery_pc = RecIdle | RecDelay int | RecCheck int | RecLock int | RecHeld | RecDone

text \<open>Who holds \<^verbatim>\<open>clientCreateMu\<close>, and how far the creation of the client is.\<close>

datatype holder = Caller nat | Recovery int

datatype create_pc =
    CheckTable int string
  | CloseStale int string nat
  | Connect int string
  | RegisterNode nat
  | Recheck nat
  | Restore nat
  | Publish nat
  | StartHeartbeat nat
  | Abort nat
  | Finish "nat option"

datatype mutex = Free | Held holder create_pc | Closing "nat list"

text \<open>
  Clients are addressed by their index. \<open>l_marking\<close> are the calls of \<^verbatim>\<open>markDisconnected\<close> after the
  swap: the client, whether it has been removed from the table, and whether \<^verbatim>\<open>Close\<close> goes on to
  close the transport. \<open>l_epochs\<close> counts the calls of \<^verbatim>\<open>routeCache.invalidateAll\<close>. \<open>l_linked\<close> and
  \<open>l_lost\<close> are history: a client of the main node has been published, and one has been lost
  before the node was running.
\<close>

record link =
  l_id :: int
  l_mainNodeID :: int
  l_mainAddr :: string
  l_state :: node_state
  l_clients :: "RPCClient list"
  l_table :: "(int, nat) gomap"
  l_mutex :: mutex
  l_calls :: "call_pc list"
  l_marking :: "(nat \<times> bool \<times> bool) list"
  l_recovery :: recovery_pc
  l_trigger :: bool
  l_stop :: bool
  l_epochs :: nat
  l_linked :: bool
  l_lost :: bool

definition upd_client :: "nat \<Rightarrow> (RPCClient \<Rightarrow> RPCClient) \<Rightarrow> link \<Rightarrow> link" where
  "upd_client p f l = l\<lparr>l_clients := (l_clients l)[p := f (l_clients l ! p)]\<rparr>"

definition connected :: "link \<Rightarrow> nat \<Rightarrow> bool" where
  "connected l p \<longleftrightarrow> p < length (l_clients l) \<and> rc_connected (l_clients l ! p)"

definition client_id :: "link \<Rightarrow> nat \<Rightarrow> int" where
  "client_id l p = rc_nodeID (l_clients l ! p)"

section \<open>Clients\<close>

definition stop_timer :: "RPCClient \<Rightarrow> RPCClient" where
  "stop_timer c = (if rc_heartbeat c = HbArmed then c\<lparr>rc_heartbeat := HbNone\<rparr> else c)"

definition closeTransport :: "nat \<Rightarrow> link \<Rightarrow> link" where
  "closeTransport p l = upd_client p (\<lambda>c. (stop_timer c)\<lparr>rc_connected := False, rc_closed := True\<rparr>) l"

definition removeRPCClient :: "int \<Rightarrow> nat \<Rightarrow> link \<Rightarrow> link" where
  "removeRPCClient nodeID p l =
     (if go_get (l_table l) nodeID = Some p then l\<lparr>l_table := go_del nodeID (l_table l)\<rparr> else l)"

definition invalidateAll :: "link \<Rightarrow> link" where
  "invalidateAll l = l\<lparr>l_epochs := Suc (l_epochs l)\<rparr>"

text \<open>\<^verbatim>\<open>startMainRecovery\<close>: the trigger has room for one notification.\<close>

definition startMainRecovery :: "link \<Rightarrow> link" where
  "startMainRecovery l =
     (if l_id l = l_mainNodeID l \<or> l_state l \<noteq> nodeStateRunning \<or> l_stop l then l
      else l\<lparr>l_trigger := True\<rparr>)"

text \<open>\<^verbatim>\<open>markDisconnected\<close> in three parts: the swap, the removal, and the notification.\<close>

definition mark_swap :: "nat \<Rightarrow> bool \<Rightarrow> link \<Rightarrow> link" where
  "mark_swap p close l =
     (if \<not> connected l p then (if close then closeTransport p l else l)
      else (upd_client p (\<lambda>c. c\<lparr>rc_connected := False\<rparr>) l)\<lparr>l_marking := l_marking l @ [(p, False, close)]\<rparr>)"

definition mark_remove :: "nat \<Rightarrow> link \<Rightarrow> link" where
  "mark_remove p l = removeRPCClient (client_id l p) p (upd_client p stop_timer l)"

definition mark_recover :: "nat \<Rightarrow> bool \<Rightarrow> link \<Rightarrow> link" where
  "mark_recover p close l =
     (let l1 = (if client_id l p = l_mainNodeID l
                then (startMainRecovery (invalidateAll l))
                  \<lparr>l_lost := l_lost l \<or> l_state l = nodeStateStarting\<rparr>
                else l)
      in if close then closeTransport p l1 else l1)"

section \<open>Heartbeats\<close>

text \<open>The closure of \<^verbatim>\<open>startHeartbeat\<close>.\<close>

definition startHeartbeat_task :: "nat \<Rightarrow> link \<Rightarrow> link" where
  "startHeartbeat_task p l =
     upd_client p (\<lambda>c. c\<lparr>rc_heartbeat := (if rc_connected c then HbArmed else HbNone)\<rparr>) l"

text \<open>
  \<^verbatim>\<open>handleHeartbeatResult\<close> up to the call of \<^verbatim>\<open>Close\<close> or \<^verbatim>\<open>scheduleHeartbeat\<close>, which are its
  last action.
\<close>

definition handleHeartbeatResult :: "nat \<Rightarrow> gerror option \<Rightarrow> link \<Rightarrow> link" where
  "handleHeartbeatResult p err l =
     (let c = l_clients l ! p in
      if \<not> rc_heartbeatPending c then upd_client p (\<lambda>c. c\<lparr>rc_heartbeat := HbNone\<rparr>) l
      else
        let l1 = upd_client p (\<lambda>c. c\<lparr>rc_heartbeatPending := False, rc_heartbeat := HbNone\<rparr>) l
        in if \<not> rc_connected c then l1
           else if err \<noteq> None then mark_swap p True l1
           else upd_client p (\<lambda>c. c\<lparr>rc_heartbeat := HbArmed\<rparr>) l1)"

text \<open>\<^verbatim>\<open>sendHeartbeat\<close>; \<open>err\<close> is the immediate result of \<^verbatim>\<open>requestAsync\<close>.\<close>

definition sendHeartbeat :: "nat \<Rightarrow> gerror option \<Rightarrow> link \<Rightarrow> link" where
  "sendHeartbeat p err l =
     (let c = l_clients l ! p in
      if \<not> rc_connected c \<or> rc_heartbeatPending c then upd_client p (\<lambda>c. c\<lparr>rc_heartbeat := HbNone\<rparr>) l
      else
        let l1 = upd_client p (\<lambda>c. c\<lparr>rc_heartbeatPending := True, rc_heartbeat := HbInFlight\<rparr>) l
        in if err \<noteq> None then handleHeartbeatResult p err l1 else l1)"

text \<open>The callback of the request.\<close>

definition heartbeat_callback :: "nat \<Rightarrow> gerror option \<Rightarrow> link \<Rightarrow> link" where
  "heartbeat_callback p err l =
     upd_client p (\<lambda>c. c\<lparr>rc_heartbeat := (if rc_connected c then HbResult err else HbNone)\<rparr>) l"

section \<open>Getting a client\<close>

definition usable :: "link \<Rightarrow> int \<Rightarrow> string \<Rightarrow> nat option" where
  "usable l nodeID addr =
     (case go_get (l_table l) nodeID of
        None \<Rightarrow> None
      | Some p \<Rightarrow> if connected l p \<and> rc_addr (l_clients l ! p) = addr then Some p else None)"

definition cachedRPCClient :: "int \<Rightarrow> string \<Rightarrow> link \<Rightarrow> call_pc" where
  "cachedRPCClient nodeID addr l =
     (case usable l nodeID addr of
        Some p \<Rightarrow> CallReturn nodeID (Some p)
      | None \<Rightarrow> CallState nodeID addr)"

definition state_check :: "int \<Rightarrow> string \<Rightarrow> link \<Rightarrow> call_pc" where
  "state_check nodeID addr l =
     (if nodeID = l_mainNodeID l \<and> l_id l \<noteq> l_mainNodeID l \<and> l_state l = nodeStateRunning
      then CallReturn nodeID None
      else CallLock nodeID addr)"

text \<open>
  With the mutex held: the section under \<^verbatim>\<open>clientsMu\<close> that reuses a client or takes the stale
  one out of the table.
\<close>

definition check_table :: "int \<Rightarrow> string \<Rightarrow> link \<Rightarrow> create_pc \<times> link" where
  "check_table nodeID addr l =
     (case usable l nodeID addr of
        Some p \<Rightarrow> (Finish (Some p), l)
      | None \<Rightarrow>
          (case go_get (l_table l) nodeID of
             Some stale \<Rightarrow> (CloseStale nodeID addr stale, l\<lparr>l_table := go_del nodeID (l_table l)\<rparr>)
           | None \<Rightarrow> (Connect nodeID addr, l)))"

text \<open>\<^verbatim>\<open>newRPCClient\<close> after a successful \<^verbatim>\<open>ConnectSync\<close>.\<close>

definition newRPCClient :: "int \<Rightarrow> string \<Rightarrow> link \<Rightarrow> nat \<times> link" where
  "newRPCClient nodeID addr l =
     (let l1 = (if nodeID = l_mainNodeID l then invalidateAll l else l)
      in (length (l_clients l), l1\<lparr>l_clients := l_clients l @
            [\<lparr>rc_nodeID = nodeID, rc_addr = addr, rc_connected = True, rc_closed = False,
              rc_heartbeat = HbNone, rc_heartbeatPending = False\<rparr>]\<rparr>))"

text \<open>The publication of the new client under \<^verbatim>\<open>clientsMu\<close>.\<close>

definition publish :: "nat \<Rightarrow> link \<Rightarrow> create_pc \<times> link" where
  "publish p l =
     (if \<not> connected l p then (Abort p, l)
      else (StartHeartbeat p, l\<lparr>l_table := go_put (client_id l p) p (l_table l),
        l_linked := l_linked l \<or> client_id l p = l_mainNodeID l\<rparr>))"

definition start_heartbeat :: "nat \<Rightarrow> link \<Rightarrow> link" where
  "start_heartbeat p l = upd_client p (\<lambda>c. c\<lparr>rc_heartbeat := HbPosted\<rparr>) l"

section \<open>The recovery loop\<close>

definition mainRecoveryInitialDelay :: int where
  "mainRecoveryInitialDelay = 100"

definition mainRecoveryMaxDelay :: int where
  "mainRecoveryMaxDelay = 3000"

definition next_delay :: "int \<Rightarrow> int" where
  "next_delay delay =
     (if delay = 0 then mainRecoveryInitialDelay
      else if delay * 2 > mainRecoveryMaxDelay then mainRecoveryMaxDelay else delay * 2)"

definition recover_check :: "int \<Rightarrow> link \<Rightarrow> recovery_pc" where
  "recover_check delay l =
     (if l_state l \<noteq> nodeStateRunning \<or> l_stop l then RecIdle else RecLock delay)"

text \<open>The end of \<^verbatim>\<open>getRPCClient\<close> or of a round of \<^verbatim>\<open>recoverMainNode\<close>: the mutex is released.\<close>

definition finish :: "holder \<Rightarrow> nat option \<Rightarrow> link \<Rightarrow> link" where
  "finish h r l =
     (case h of
        Caller j \<Rightarrow> l\<lparr>l_mutex := Free, l_calls := (l_calls l)[j := CallReturn
          (case l_calls l ! j of CallHeld i \<Rightarrow> i | _ \<Rightarrow> 0) r]\<rparr>
      | Recovery delay \<Rightarrow> l\<lparr>l_mutex := Free,
          l_recovery := (if r \<noteq> None then RecIdle else RecDelay (next_delay delay))\<rparr>)"

section \<open>Steps\<close>

datatype link_event =
    Call int string | Advance nat | Lock nat | Create bool
  | TriggerTaken | RecoveryStops | DelayOver | DelayCut | RecoverCheck | RecoverLock
  | Broken nat | MarkRemove nat | MarkRecover nat
  | HbPost nat | HbFire nat "gerror option" | HbDone nat "gerror option" | HbHandle nat
  | Start | StartDone | Stop | StopRecovery | CloseNetwork | CloseNext | CloseDone

text \<open>
  One step of the creation of a client by the holder of the mutex; \<open>ok\<close> is the outcome of the
  network operation, if the step has one.
\<close>

definition create_step :: "bool \<Rightarrow> holder \<Rightarrow> create_pc \<Rightarrow> link \<Rightarrow> link" where
  "create_step ok h pc l =
     (let at = (\<lambda>(pc', l'). l'\<lparr>l_mutex := Held h pc'\<rparr>) in
      case pc of
        CheckTable i a \<Rightarrow> at (check_table i a l)
      | CloseStale i a q \<Rightarrow> at (Connect i a, closeTransport q l)
      | Connect i a \<Rightarrow>
          if \<not> ok then at (Finish None, l)
          else (case newRPCClient i a l of (p, l') \<Rightarrow> at (RegisterNode p, l'))
      | RegisterNode p \<Rightarrow>
          if \<not> ok then at (Abort p, l)
          else at ((case h of Caller _ \<Rightarrow> Publish p | Recovery _ \<Rightarrow> Recheck p), l)
      | Recheck p \<Rightarrow>
          at ((if l_state l \<noteq> nodeStateRunning \<or> l_stop l then Abort p else Restore p), l)
      | Restore p \<Rightarrow> at ((if ok then Publish p else Abort p), l)
      | Publish p \<Rightarrow> at (publish p l)
      | StartHeartbeat p \<Rightarrow> at (Finish (Some p), start_heartbeat p l)
      | Abort p \<Rightarrow> at (Finish None, closeTransport p l)
      | Finish r \<Rightarrow> finish h r l)"

text \<open>
  A call of \<^verbatim>\<open>getRPCClient\<close> may begin at any time after the start: the check that the node is
  operational, where there is one, lies before. A call for the main node is given its configured
  address. \<open>CloseNext\<close> is one round of the loop of \<^verbatim>\<open>closeNetwork\<close>; the rest of its \<^verbatim>\<open>Close\<close> is
  interleaved like every other disconnection.
\<close>

inductive link_step :: "link \<Rightarrow> link_event \<Rightarrow> link \<Rightarrow> bool" where
  link_Call: "l_state l \<noteq> nodeStateInitial \<Longrightarrow> i \<noteq> l_id l \<Longrightarrow>
     (i = l_mainNodeID l \<Longrightarrow> a = l_mainAddr l) \<Longrightarrow>
     link_step l (Call i a) (l\<lparr>l_calls := l_calls l @ [CallCached i a]\<rparr>)"
| link_Cached: "j < length (l_calls l) \<Longrightarrow> l_calls l ! j = CallCached i a \<Longrightarrow>
     link_step l (Advance j) (l\<lparr>l_calls := (l_calls l)[j := cachedRPCClient i a l]\<rparr>)"
| link_State: "j < length (l_calls l) \<Longrightarrow> l_calls l ! j = CallState i a \<Longrightarrow>
     link_step l (Advance j) (l\<lparr>l_calls := (l_calls l)[j := state_check i a l]\<rparr>)"
| link_Lock: "j < length (l_calls l) \<Longrightarrow> l_calls l ! j = CallLock i a \<Longrightarrow> l_mutex l = Free \<Longrightarrow>
     link_step l (Lock j) (l\<lparr>l_calls := (l_calls l)[j := CallHeld i], l_mutex := Held (Caller j) (CheckTable i a)\<rparr>)"
| link_Create: "l_mutex l = Held h pc \<Longrightarrow> link_step l (Create ok) (create_step ok h pc l)"
| link_Trigger: "l_recovery l = RecIdle \<Longrightarrow> l_trigger l \<Longrightarrow>
     link_step l TriggerTaken (l\<lparr>l_trigger := False, l_recovery := RecDelay 0\<rparr>)"
| link_RecoveryStops: "l_recovery l = RecIdle \<Longrightarrow> l_stop l \<Longrightarrow> link_step l RecoveryStops (l\<lparr>l_recovery := RecDone\<rparr>)"
| link_DelayOver: "l_recovery l = RecDelay d \<Longrightarrow> link_step l DelayOver (l\<lparr>l_recovery := RecCheck d\<rparr>)"
| link_DelayCut: "l_recovery l = RecDelay d \<Longrightarrow> 0 < d \<Longrightarrow> l_stop l \<Longrightarrow> link_step l DelayCut (l\<lparr>l_recovery := RecIdle\<rparr>)"
| link_RecoverCheck: "l_recovery l = RecCheck d \<Longrightarrow>
     link_step l RecoverCheck (l\<lparr>l_recovery := recover_check d l\<rparr>)"
| link_RecoverLock: "l_recovery l = RecLock d \<Longrightarrow> l_mutex l = Free \<Longrightarrow>
     link_step l RecoverLock (l\<lparr>l_recovery := RecHeld,
       l_mutex := Held (Recovery d) (CheckTable (l_mainNodeID l) (l_mainAddr l))\<rparr>)"
| link_Broken: "p < length (l_clients l) \<Longrightarrow> link_step l (Broken p) (mark_swap p False l)"
| link_MarkRemove: "k < length (l_marking l) \<Longrightarrow> l_marking l ! k = (p, False, c) \<Longrightarrow>
     link_step l (MarkRemove k) ((mark_remove p l)\<lparr>l_marking := (l_marking l)[k := (p, True, c)]\<rparr>)"
| link_MarkRecover: "k < length (l_marking l) \<Longrightarrow> l_marking l ! k = (p, True, c) \<Longrightarrow>
     link_step l (MarkRecover k) ((mark_recover p c l)\<lparr>l_marking := drop_nth k (l_marking l)\<rparr>)"
| link_HbPost: "p < length (l_clients l) \<Longrightarrow> rc_heartbeat (l_clients l ! p) = HbPosted \<Longrightarrow>
     link_step l (HbPost p) (startHeartbeat_task p l)"
| link_HbFire: "p < length (l_clients l) \<Longrightarrow> rc_heartbeat (l_clients l ! p) = HbArmed \<Longrightarrow>
     link_step l (HbFire p err) (sendHeartbeat p err l)"
| link_HbDone: "p < length (l_clients l) \<Longrightarrow> rc_heartbeat (l_clients l ! p) = HbInFlight \<Longrightarrow>
     link_step l (HbDone p err) (heartbeat_callback p err l)"
| link_HbHandle: "p < length (l_clients l) \<Longrightarrow> rc_heartbeat (l_clients l ! p) = HbResult err \<Longrightarrow>
     link_step l (HbHandle p) (handleHeartbeatResult p err l)"
| link_Start: "l_state l = nodeStateInitial \<Longrightarrow> link_step l Start (l\<lparr>l_state := nodeStateStarting,
     l_recovery := (if l_id l = l_mainNodeID l then RecDone else RecIdle)\<rparr>)"
| link_StartDone: "l_state l = nodeStateStarting \<Longrightarrow> \<not> l_stop l \<Longrightarrow>
     l_id l = l_mainNodeID l \<or> (\<exists>p. CallReturn (l_mainNodeID l) (Some p) \<in> set (l_calls l)) \<Longrightarrow>
     link_step l StartDone (l\<lparr>l_state := nodeStateRunning\<rparr>)"
| link_Stop: "l_state l = nodeStateRunning \<Longrightarrow> link_step l Stop (l\<lparr>l_state := nodeStateStopping\<rparr>)"
| link_StopRecovery: "l_state l \<in> {nodeStateStarting, nodeStateStopping} \<Longrightarrow>
     link_step l StopRecovery (l\<lparr>l_stop := True\<rparr>)"
| link_CloseNetwork: "l_stop l \<Longrightarrow> l_recovery l = RecDone \<Longrightarrow> l_mutex l = Free \<Longrightarrow>
     l_state l \<in> {nodeStateStarting, nodeStateStopping} \<Longrightarrow>
     link_step l CloseNetwork (l\<lparr>l_table := [], l_mutex := Closing (map snd (l_table l))\<rparr>)"
| link_CloseNext: "l_mutex l = Closing (p # ps) \<Longrightarrow>
     link_step l CloseNext ((mark_swap p True l)\<lparr>l_mutex := Closing ps\<rparr>)"
| link_CloseDone: "l_mutex l = Closing [] \<Longrightarrow>
     link_step l CloseDone (l\<lparr>l_mutex := Free, l_state := nodeStateStopped\<rparr>)"

inductive_cases link_stepE: "link_step l e m"

definition link_init :: "link \<Rightarrow> bool" where
  "link_init l \<longleftrightarrow> l_state l = nodeStateInitial \<and> l_clients l = [] \<and> l_table l = [] \<and> l_mutex l = Free \<and>
     l_calls l = [] \<and> l_marking l = [] \<and> l_recovery l = RecDone \<and> \<not> l_trigger l \<and> \<not> l_stop l \<and>
     l_epochs l = 0 \<and> \<not> l_linked l \<and> \<not> l_lost l"

abbreviation link_reach :: "link \<Rightarrow> bool" where
  "link_reach \<equiv> reach link_init link_step"
end
