(* ===== verification/Service_Call.thy ===== *)
theory Service_Call
  imports Main_Link "HOL-Library.Multiset"
begin

text \<open>
  Calls between services of one node: \<^verbatim>\<open>callServiceAsync\<close> and \<^verbatim>\<open>callServiceSync\<close> of \<^verbatim>\<open>node.go\<close>
  on their local path, the closures that \<^verbatim>\<open>dispatchLocalDirect\<close>, \<^verbatim>\<open>dispatchLocalRequestAsync\<close> and
  \<^verbatim>\<open>dispatchLocalRequestSync\<close> post to the loop of a service, and \<^verbatim>\<open>MessageContext\<close> and the default
  handlers of \<^verbatim>\<open>BaseService\<close> in \<^verbatim>\<open>service.go\<close>. The timer, the service loop, the goroutines that
  answer later and the caller interleave in \<open>call_step\<close>.
\<close>

section \<open>State\<close>

text \<open>
  The variables of one call: \<open>ca_completed\<close> is the atomic flag, \<open>ca_winner\<close> the result of whoever
  has set it and has not delivered it yet, \<open>ca_results\<close> the invocations of the callback or, for a
  synchronous call, the channel of responses, and \<open>ca_returned\<close> what the synchronous call returned.
\<close>

type_synonym response = "string \<times> gerror option"

record local_call =
  ca_target :: ServiceKey
  ca_sync :: bool
  ca_timer :: bool
  ca_completed :: bool
  ca_winner :: "response option"
  ca_results :: "response list"
  ca_returned :: "response option"

text \<open>
  \<open>c_wheel\<close> is whether the time wheel of the calls exists and \<open>c_callStop\<close> whether it and
  \<^verbatim>\<open>serviceCallStop\<close> are closed; \<open>c_timeout\<close> is the timeout as \<^verbatim>\<open>%s\<close> prints it. \<open>c_queue\<close> holds the
  closures posted to service loops, \<open>c_live\<close> the asynchronous requests a handler has been given,
  with their flag \<^verbatim>\<open>responded\<close>. \<open>c_posted\<close> and \<open>c_invoked\<close> are history: the responders handed to
  services and the responders invoked.
\<close>

record call_node =
  c_node :: server_node
  c_state :: node_state
  c_wheel :: bool
  c_callStop :: bool
  c_timeout :: string
  c_calls :: "local_call list"
  c_queue :: "service_task list"
  c_live :: "(service_task \<times> bool) list"
  c_posted :: "localResponder list"
  c_invoked :: "localResponder list"

definition operational :: "call_node \<Rightarrow> bool" where
  "operational s \<longleftrightarrow> c_state s = nodeStateStarting \<or> c_state s = nodeStateRunning"

definition c_report :: "gerror option \<Rightarrow> call_node \<Rightarrow> call_node" where
  "c_report err s = s\<lparr>c_node := report err (c_node s)\<rparr>"

definition upd_call :: "nat \<Rightarrow> (local_call \<Rightarrow> local_call) \<Rightarrow> call_node \<Rightarrow> call_node" where
  "upd_call k f s = s\<lparr>c_calls := (c_calls s)[k := f (c_calls s ! k)]\<rparr>"

fun task_responder :: "service_task \<Rightarrow> localResponder option" where
  "task_responder (SyncTask source target messageID payload r) = Some r"
| "task_responder (AsyncTask source target messageID payload r) = Some r"
| "task_responder _ = None"

fun task_target :: "service_task \<Rightarrow> ServiceKey" where
  "task_target (DirectTask source target messageID payload) = target"
| "task_target (SyncTask source target messageID payload r) = target"
| "task_target (AsyncTask source target messageID payload r) = target"
| "task_target (DiscoveryTask subscriber name event svcs) = subscriber"

text \<open>\<^verbatim>\<open>service.Loop().Post\<close>.\<close>

definition post_service :: "service_task \<Rightarrow> call_node \<Rightarrow> call_node" where
  "post_service task s = s\<lparr>c_queue := c_queue s @ [task],
     c_posted := c_posted s @ (case task_responder task of None \<Rightarrow> [] | Some r \<Rightarrow> [r])\<rparr>"

section \<open>Calls\<close>

definition newServiceCallTimer :: "call_node \<Rightarrow> gerror option" where
  "newServiceCallTimer s = (if \<not> operational s \<or> \<not> c_wheel s then Some (Sentinel ErrNodeStopped) else None)"

definition timeout_error :: "ServiceKey \<Rightarrow> call_node \<Rightarrow> gerror" where
  "timeout_error target s = Errorf ''call service %s: timeout after %s'' [ArgS (key_String target), ArgS (c_timeout s)]"

definition new_call :: "ServiceKey \<Rightarrow> bool \<Rightarrow> local_call" where
  "new_call target sync = \<lparr>ca_target = target, ca_sync = sync, ca_timer = True, ca_completed = False,
     ca_winner = None, ca_results = [], ca_returned = None\<rparr>"

text \<open>\<^verbatim>\<open>completed.CompareAndSwap(false, true)\<close> with \<^verbatim>\<open>timer.Stop()\<close>, and nothing to deliver.\<close>

definition cancel_call :: "nat \<Rightarrow> call_node \<Rightarrow> call_node" where
  "cancel_call k s = (if ca_completed (c_calls s ! k) then s
     else upd_call k (\<lambda>c. c\<lparr>ca_completed := True, ca_timer := False\<rparr>) s)"

text \<open>
  The local path of both calls: the timer is armed, then the request dispatched; when that fails
  the call is cancelled.
\<close>

definition call_local ::
    "bool \<Rightarrow> ServiceKey \<Rightarrow> ServiceKey \<Rightarrow> serviceMessageID \<Rightarrow> string \<Rightarrow> call_node \<Rightarrow> gerror option \<times> call_node" where
  "call_local sync source target messageID payload s =
     (case newServiceCallTimer s of
        Some err \<Rightarrow> (Some err, s)
      | None \<Rightarrow>
          let k = length (c_calls s);
              s1 = s\<lparr>c_calls := c_calls s @ [new_call target sync]\<rparr>;
              task = (if sync then SyncTask source target messageID payload (CallResponder k)
                      else AsyncTask source target messageID payload (CallResponder k));
              (err, n) = (if sync then dispatchLocalRequestSync source target messageID payload (CallResponder k) (c_node s)
                          else dispatchLocalRequestAsync source target messageID payload (CallResponder k) (c_node s))
          in if err \<noteq> None then (err, cancel_call k (s1\<lparr>c_node := n\<rparr>))
             else (None, post_service task (s1\<lparr>c_node := n\<rparr>)))"

text \<open>The beginning of both calls; \<open>callback\<close> is whether a callback is given.\<close>

definition call_checked ::
    "bool \<Rightarrow> bool \<Rightarrow> ServiceKey \<Rightarrow> ServiceKey \<Rightarrow> serviceMessageID \<Rightarrow> string \<Rightarrow>
     (call_node \<Rightarrow> gerror option \<times> call_node) \<Rightarrow> call_node \<Rightarrow> gerror option \<times> call_node" where
  "call_checked sync callback source target messageID payload remote s =
     (if \<not> operational s then (Some (Sentinel ErrNodeStopped), s)
      else case messageID_validate messageID of
        Some err \<Rightarrow> (Some err, s)
      | None \<Rightarrow>
          if \<not> sync \<and> \<not> callback then (Some (Errorf ''service call callback is nil'' []), s)
          else if go_get (n_localServices (c_node s)) target \<noteq> None
          then call_local sync source target messageID payload s
          else remote s)"

text \<open>The function of the timer, up to the delivery.\<close>

definition timer_fire :: "nat \<Rightarrow> call_node \<Rightarrow> call_node" where
  "timer_fire k s =
     (let c = c_calls s ! k in
      if ca_completed c then upd_call k (\<lambda>c. c\<lparr>ca_timer := False\<rparr>) s
      else upd_call k (\<lambda>c. c\<lparr>ca_timer := False, ca_completed := True,
        ca_winner := Some ('''', Some (timeout_error (ca_target c) s))\<rparr>) s)"

text \<open>The responder of a local call, up to the delivery.\<close>

definition call_responder :: "nat \<Rightarrow> response \<Rightarrow> call_node \<Rightarrow> gerror option \<times> call_node" where
  "call_responder k r s =
     (if ca_completed (c_calls s ! k) then (Some (Errorf ''response arrived after call completion'' []), s)
      else (None, upd_call k (\<lambda>c. c\<lparr>ca_completed := True, ca_timer := False, ca_winner := Some r\<rparr>) s))"

text \<open>The invocation of the callback, or the send to the channel.\<close>

definition deliver :: "nat \<Rightarrow> response \<Rightarrow> call_node \<Rightarrow> call_node" where
  "deliver k r s = upd_call k (\<lambda>c. c\<lparr>ca_winner := None, ca_results := ca_results c @ [r]\<rparr>) s"

text \<open>The two branches of the \<^verbatim>\<open>select\<close> of \<^verbatim>\<open>callServiceSync\<close>.\<close>

definition sync_receive :: "nat \<Rightarrow> response \<Rightarrow> call_node \<Rightarrow> call_node" where
  "sync_receive k r s = upd_call k (\<lambda>c. c\<lparr>ca_returned := Some r\<rparr>) s"

definition sync_stopped :: "nat \<Rightarrow> call_node \<Rightarrow> call_node" where
  "sync_stopped k s = upd_call k (\<lambda>c. c\<lparr>ca_returned := Some ('''', Some (Sentinel ErrNodeStopped))\<rparr>) (cancel_call k s)"

section \<open>The closures on the loop of a service\<close>

text \<open>How a handler ends: it returns, or it panics with a value and a stack as text.\<close>

datatype outcome = Returns string "gerror option" | Panics string string

definition panic_error :: "ServiceKey \<Rightarrow> string \<Rightarrow> string \<Rightarrow> gerror" where
  "panic_error target v stack = Errorf (''service %s panic: %v'' @ [CHR 0x0A] @ ''%s'') [ArgS (key_String target), ArgS v, ArgS stack]"

definition respond_failed :: "serviceMessageID \<Rightarrow> ServiceKey \<Rightarrow> gerror option \<Rightarrow> gerror option" where
  "respond_failed messageID target err =
     (case err of None \<Rightarrow> None
      | Some e \<Rightarrow> Some (Errorf ''respond to message %s from service %s: %w'' [messageID_String messageID, ArgS (key_String target), ArgW e]))"

text \<open>A responder: of a local call, or of a request that came over RPC.\<close>

definition invoke :: "go_env \<Rightarrow> localResponder \<Rightarrow> response \<Rightarrow> call_node \<Rightarrow> gerror option \<times> call_node" where
  "invoke env responder r s =
     (let s = s\<lparr>c_invoked := c_invoked s @ [responder]\<rparr> in
      case responder of
        CallResponder k \<Rightarrow> call_responder k r s
      | RpcResponder session contextID \<Rightarrow>
          (case r of
             (payload, Some err) \<Rightarrow> (None, s\<lparr>c_node := respondRPCError env session contextID (Some err) (c_node s)\<rparr>)
           | (payload, None) \<Rightarrow>
               (case respondRPC env session contextID (PbDeliverResponse \<lparr>dp_Payload = payload\<rparr>) (c_node s) of
                  (err, n) \<Rightarrow> (err, s\<lparr>c_node := n\<rparr>))))"

definition responded_twice :: "service_task \<Rightarrow> gerror option" where
  "responded_twice task =
     (case task of AsyncTask source target messageID payload r \<Rightarrow>
        Some (Errorf ''service %s responded more than once to message %s'' [ArgS (key_String target), messageID_String messageID])
      | _ \<Rightarrow> None)"

text \<open>\<^verbatim>\<open>respondOnce\<close> of the request \<open>i\<close>.\<close>

definition respondOnce :: "go_env \<Rightarrow> nat \<Rightarrow> response \<Rightarrow> call_node \<Rightarrow> call_node" where
  "respondOnce env i r s =
     (case c_live s ! i of
        (AsyncTask source target messageID payload responder, responded) \<Rightarrow>
          if responded then c_report (responded_twice (AsyncTask source target messageID payload responder)) s
          else
            (case invoke env responder r
                (s\<lparr>c_live := (c_live s)[i := (AsyncTask source target messageID payload responder, True)]\<rparr>) of
               (err, s1) \<Rightarrow> c_report (respond_failed messageID target err) s1)
      | _ \<Rightarrow> s)"

text \<open>
  A closure runs; \<open>res\<close> is how the handler ends, and \<open>made\<close> the responses an asynchronous handler
  makes before. It may keep its context and respond later.
\<close>

definition run_task :: "go_env \<Rightarrow> response list \<Rightarrow> outcome \<Rightarrow> service_task \<Rightarrow> call_node \<Rightarrow> call_node" where
  "run_task env made res task s =
     (case task of
        DirectTask source target messageID payload \<Rightarrow>
          (case res of
             Panics v stack \<Rightarrow> c_report (Some (panic_error target v stack)) s
           | Returns p (Some err) \<Rightarrow> c_report (Some (Errorf ''handle message %s in service %s: %w''
               [messageID_String messageID, ArgS (key_String target), ArgW err])) s
           | Returns p None \<Rightarrow> s)
      | SyncTask source target messageID payload responder \<Rightarrow>
          (case invoke env responder
             (case res of Panics v stack \<Rightarrow> ('''', Some (panic_error target v stack)) | Returns p err \<Rightarrow> (p, err)) s of
             (err, s1) \<Rightarrow> c_report (respond_failed messageID target err) s1)
      | AsyncTask source target messageID payload responder \<Rightarrow>
          (let i = length (c_live s);
               s1 = fold (respondOnce env i) made (s\<lparr>c_live := c_live s @ [(task, False)]\<rparr>) in
           case res of
             Panics v stack \<Rightarrow> respondOnce env i ('''', Some (panic_error target v stack)) s1
           | Returns p err \<Rightarrow> s1)
      | DiscoveryTask subscriber name event svcs \<Rightarrow>
          (case res of
             Panics v stack \<Rightarrow> c_report (Some (Errorf (''service %s discovery handler panic: %v'' @ [CHR 0x0A] @ ''%s'')
               [ArgS (key_String subscriber), ArgS v, ArgS stack])) s
           | Returns p err \<Rightarrow> s))"

section \<open>Steps\<close>

datatype call_event =
    CallLocal bool bool ServiceKey ServiceKey serviceMessageID string
  | Arrive service_task
  | RunTask nat "response list" outcome
  | RespondLater nat response
  | TimerFires nat | Deliver nat | Receive nat | StoppedWait nat
  | NodeStarts | NodeRuns | NodeStops | CallsClose | NodeStopped

inductive call_step :: "go_env \<Rightarrow> call_node \<Rightarrow> call_event \<Rightarrow> call_node \<Rightarrow> bool" for env where
  call_CallLocal: "go_get (n_localServices (c_node s)) target \<noteq> None \<Longrightarrow>
     call_checked sync callback source target messageID payload (\<lambda>s. (None, s)) s = (err, t) \<Longrightarrow>
     call_step env s (CallLocal sync callback source target messageID payload) t"
| call_Arrive: "(\<And>k. task_responder task \<noteq> Some (CallResponder k)) \<Longrightarrow>
     call_step env s (Arrive task) (post_service task s)"
| call_RunTask: "i < length (c_queue s) \<Longrightarrow>
     (\<And>j. j < i \<Longrightarrow> task_target (c_queue s ! j) \<noteq> task_target (c_queue s ! i)) \<Longrightarrow>
     call_step env s (RunTask i made res)
       (run_task env made res (c_queue s ! i) (s\<lparr>c_queue := drop_nth i (c_queue s)\<rparr>))"
| call_RespondLater: "i < length (c_live s) \<Longrightarrow> call_step env s (RespondLater i r) (respondOnce env i r s)"
| call_TimerFires: "k < length (c_calls s) \<Longrightarrow> ca_timer (c_calls s ! k) \<Longrightarrow> \<not> c_callStop s \<Longrightarrow>
     call_step env s (TimerFires k) (timer_fire k s)"
| call_Deliver: "k < length (c_calls s) \<Longrightarrow> ca_winner (c_calls s ! k) = Some r \<Longrightarrow>
     call_step env s (Deliver k) (deliver k r s)"
| call_Receive: "k < length (c_calls s) \<Longrightarrow> ca_sync (c_calls s ! k) \<Longrightarrow> ca_returned (c_calls s ! k) = None \<Longrightarrow>
     ca_results (c_calls s ! k) = r # rs \<Longrightarrow> call_step env s (Receive k) (sync_receive k r s)"
| call_StoppedWait: "k < length (c_calls s) \<Longrightarrow> ca_sync (c_calls s ! k) \<Longrightarrow> ca_returned (c_calls s ! k) = None \<Longrightarrow>
     c_callStop s \<Longrightarrow> call_step env s (StoppedWait k) (sync_stopped k s)"
| call_NodeStarts: "c_state s = nodeStateInitial \<Longrightarrow>
     call_step env s NodeStarts (s\<lparr>c_wheel := True, c_state := nodeStateStarting\<rparr>)"
| call_NodeRuns: "c_state s = nodeStateStarting \<Longrightarrow> \<not> c_callStop s \<Longrightarrow>
     call_step env s NodeRuns (s\<lparr>c_state := nodeStateRunning\<rparr>)"
| call_NodeStops: "c_state s = nodeStateRunning \<Longrightarrow> call_step env s NodeStops (s\<lparr>c_state := nodeStateStopping\<rparr>)"
| call_CallsClose: "c_state s \<in> {nodeStateStarting, nodeStateStopping} \<Longrightarrow>
     call_step env s CallsClose (s\<lparr>c_callStop := True\<rparr>)"
| call_NodeStopped: "c_state s \<in> {nodeStateStarting, nodeStateStopping} \<Longrightarrow> c_callStop s \<Longrightarrow>
     call_step env s NodeStopped (s\<lparr>c_state := nodeStateStopped\<rparr>)"

definition call_init :: "call_node \<Rightarrow> bool" where
  "call_init s \<longleftrightarrow> c_state s = nodeStateInitial \<and> \<not> c_wheel s \<and> \<not> c_callStop s \<and> c_calls s = [] \<and> c_queue s = [] \<and>
     c_live s = [] \<and> c_posted s = [] \<and> c_invoked s = []"

abbreviation call_reach :: "go_env \<Rightarrow> call_node \<Rightarrow> bool" where
  "call_reach env \<equiv> reach call_init (call_step env)"

section \<open>Message contexts and default handlers\<close>

text \<open>A context: \<open>mc_respond\<close> is the request it can respond to, if any.\<close>

record MessageContext =
  mc_source :: ServiceKey
  mc_target :: ServiceKey
  mc_respond :: "nat option"

definition context_Respond :: "go_env \<Rightarrow> MessageContext \<Rightarrow> response \<Rightarrow> call_node \<Rightarrow> gerror option \<times> call_node" where
  "context_Respond env ctx r s =
     (case mc_respond ctx of
        None \<Rightarrow> (Some (Errorf ''message context cannot respond'' []), s)
      | Some i \<Rightarrow> (None, respondOnce env i r s))"

text \<open>The error of a default handler of \<^verbatim>\<open>BaseService\<close>.\<close>

definition does_not_handle :: "string \<Rightarrow> ServiceKey \<Rightarrow> gerror" where
  "does_not_handle what self = Errorf (''service %s:%d does not handle '' @ what) [ArgS (key_Name self), ArgD (key_ID self)]"

fun base_handle :: "service_task \<Rightarrow> response list \<times> outcome" where
  "base_handle (DirectTask source target messageID payload) =
     ([], Returns '''' (Some (does_not_handle
       (if kind messageID = serviceMessageIDString then ''string messages'' else ''messages'') target)))"
| "base_handle (SyncTask source target messageID payload r) =
     ([], Returns '''' (Some (does_not_handle
       (if kind messageID = serviceMessageIDString then ''string requests'' else ''requests'') target)))"
| "base_handle (AsyncTask source target messageID payload r) =
     ([('''', Some (does_not_handle
       (if kind messageID = serviceMessageIDString then ''async string requests'' else ''async requests'') target))],
      Returns '''' None)"
| "base_handle (DiscoveryTask subscriber name event svcs) = ([], Returns '''' None)"

end
