(* ===== verification/Node_Properties.thy ===== *)
theory Node_Properties
  imports Node_Runs
begin

text \<open>
  The properties of the server side of the main node, for every interleaving of its sessions,
  timers and control loop.
\<close>

lemma server_reach_inv: "server_reach env n \<Longrightarrow> server_inv n"
  by (rule server.reach_inv)

section \<open>Discovery\<close>

text \<open>
  C1. What a subscriber is told is what the registry holds: when \<open>k\<close>, a service of another
  node, subscribes to \<open>nm\<close>, and has received the snapshot over the session of its node, then
  the discovery messages sent to it over that session, replayed in the order in which they
  were sent, give exactly the services of that name that are registered.
\<close>

theorem discovery_view:
  assumes "server_reach env n" "pushes_encode env" "(k, nm) \<in> index_rel (n_subscriptions n)"
    "notified_at n k s" "replay (discovery_events s k nm (n_out n)) = Some v"
  shows "v = registered_names n nm"
proof -
  have "view_ok n" using discovery.reach_inv [OF assms(1)] assms(2) by (simp add: view_inv_def)
  with assms(3-) show ?thesis unfolding view_ok_def by blast
qed

lemma demo_subscribed:
  "(demo_key 1, ''room'') \<in> index_rel (n_subscriptions demo_state)" "notified_at demo_state (demo_key 1) 7"
  by (simp_all add: demo_state_def demo_main_def index_rel_def inner_def notified_at_def go_get_def
      demo_location_def demo_key_def registry_Lookup_def)

lemma demo_replay:
  "replay (discovery_events 7 (demo_key 1) ''room'' (n_out demo_state)) = Some {demo_key 1, demo_key 2}"
  by (simp add: demo_state_def demo_main_def replay_def apply_event_def event_defs insert_commute)

theorem discovery_view_witness:
  "{demo_key 1, demo_key 2} = registered_names demo_state ''room''"
  by (rule discovery_view [OF demo_reach demo_pushes demo_subscribed demo_replay])

text \<open>
  C2. Every change of the registry is broadcast: a step that changes what a lookup of \<open>k\<close>
  returns sends the invalidation of \<open>k\<close> to every registered node.
\<close>

theorem route_broadcast:
  assumes "server_reach env n" "pushes_encode env" "IsMainNode n" "server_step env n e m"
    "registry_Lookup (n_registry m) k \<noteq> registry_Lookup (n_registry n) k"
    "go_get (n_remoteNodes m) i = Some s"
  shows "\<exists>sent w. n_out m = n_out n @ sent \<and> SendDirect s (RoutePush k) w \<in> set sent"
proof -
  have inv: "table_ok n" "registry_ok n" using server_reach_inv [OF assms(1)] by (simp_all add: server_inv_def)
  from quiet_step [OF inv(1) assms(4)] assms(5) obtain task n' xs ys where c:
    "registry_change env task n n' xs" "m = out (xs @ ys) (n'\<lparr>n_running := None\<rparr>)" by auto
  note frame = registry_change_frame [OF c(1)]
  have n': "IsMainNode n'" "table_ok n'" "go_get (n_remoteNodes n') i = Some s"
    using assms(3,6) inv(1) frame by (simp_all add: c(2) IsMainNode_def table_ok_def)
  have "registry_Lookup (n_registry n') k \<noteq> registry_Lookup (n_registry n) k" using assms(5) by (simp add: c(2))
  from change_broadcast [OF inv(2) c(1) this] obtain ks zs where ks: "k \<in> set ks" "xs = route_out env n' ks @ zs"
    by blast
  from route_reaches [OF assms(2) n'(1,2) ks(1) n'(3)] obtain w where
    "SendDirect s (RoutePush k) w \<in> set (route_out env n' ks)" by blast
  moreover have "n_out m = n_out n @ (xs @ ys)" using frame by (simp add: c(2))
  ultimately show ?thesis
    by (intro exI [of _ "xs @ ys"] exI [of _ w]) (simp add: ks(2))
qed

lemma demo_hub_registered:
  "registry_Lookup (n_registry demo_registering) demo_hub = None"
  "registry_Lookup (n_registry demo_registered) demo_hub \<noteq> None"
  "go_get (n_remoteNodes demo_registered) 2 = Some 7"
  by code_simp+

theorem route_broadcast_witness:
  "\<exists>sent w. n_out demo_registered = n_out demo_registering @ sent \<and>
     SendDirect 7 (RoutePush demo_hub) w \<in> set sent"
proof (rule route_broadcast [OF demo_registering_reach demo_pushes _ demo_registering_step _ demo_hub_registered(3)])
  show "IsMainNode demo_registering"
    by (simp add: IsMainNode_def demo_registering_def demo_state_def demo_main_def)
  show "registry_Lookup (n_registry demo_registered) demo_hub \<noteq>
      registry_Lookup (n_registry demo_registering) demo_hub"
    using demo_hub_registered(1,2) by simp
qed

section \<open>Ownership of registrations\<close>

text \<open>
  The closure that is allowed to remove the location \<open>l\<close> of a service: an unregistration by
  the node that owns it, or the removal of that node.
\<close>

definition removes :: "server_node \<Rightarrow> ServiceKey \<Rightarrow> ServiceLocation \<Rightarrow> control_task \<Rightarrow> bool" where
  "removes n k l task \<longleftrightarrow>
     (case task of
        UnregisterTask _ _ _ i k' \<Rightarrow> k' = k \<and> i = NodeID l
      | LocalUnregisterTask k' \<Rightarrow> k' = k \<and> n_id n = NodeID l
      | NodeGoneTask i \<Rightarrow> i = NodeID l
      | _ \<Rightarrow> False)"

text \<open>
  C25. A registration belongs to the node that made it: a step that changes the location of a
  service either registers it where it was not, and then at the location of the request, or
  removes it on behalf of its own node. No request replaces or removes the registration of
  another node.
\<close>

theorem registration_owner:
  assumes "server_reach env n" "server_step env n e m"
    "registry_Lookup (n_registry m) k \<noteq> registry_Lookup (n_registry n) k"
  shows "\<exists>task. n_running n = Some task \<and>
     (case registry_Lookup (n_registry n) k of
        Some l \<Rightarrow> registry_Lookup (n_registry m) k = None \<and> removes n k l task
      | None \<Rightarrow> \<exists>l. registry_Lookup (n_registry m) k = Some l \<and> location_Key l = k \<and>
          ((\<exists>s c. task = RegisterTask s c s (NodeID l) l) \<or>
           task = LocalRegisterTask k \<and> NodeID l = n_id n))"
proof -
  have inv: "table_ok n" "registry_ok n" "tasks_ok n"
    using server_reach_inv [OF assms(1)] by (simp_all add: server_inv_def)
  from registry_step [OF inv(1) assms(2)] assms(3) obtain task n' xs ys where c:
    "n_running n = Some task" "registry_change env task n n' xs" "m = out (xs @ ys) (n'\<lparr>n_running := None\<rparr>)"
    by auto
  have m: "n_registry m = n_registry n'" by (simp add: c(3))
  note reg = registry_okD(1) [OF inv(2)]
  have task: "task_ok n task" using inv(3) c(1) by (auto simp: tasks_ok_def pending_def)
  from c(2) show ?thesis
  proof (cases rule: registry_change.cases)
    case (change_register l r)
    note lookup = mem.Lookup_Register [OF change_register(2)]
    have k: "k = location_Key l" using assms(3) lookup by (auto simp: m change_register(4) split: if_splits)
    have "is_ok (registry_Register l (n_registry n))" using change_register(2) by simp
    then have "registry_Lookup (n_registry n) k = None" by (simp add: mem.Register_ok k)
    with c(1) change_register(3) task show ?thesis
      by (auto simp: m change_register(4) lookup k task_ok_def local_location_def location_Key_def)
  next
    case (change_unregister k' i r)
    note lookup = mem.Lookup_Unregister [OF change_unregister(2)]
    have "is_ok (registry_Unregister k' i (n_registry n))" using change_unregister(2) by simp
    then obtain l where "registry_Lookup (n_registry n) k' = Some l" "NodeID l = i"
      by (auto simp: mem.Unregister_ok)
    moreover have "k = k'" using assms(3) lookup
      by (auto simp: m change_unregister(4) unregister_state_def drop_subscribers_def split: if_splits)
    ultimately show ?thesis
      using c(1) change_unregister(3)
      by (auto simp: m change_unregister(4) unregister_state_def drop_subscribers_def lookup removes_def)
  next
    case (change_node_gone i)
    have lookup: "registry_Lookup (n_registry m) k = (case registry_Lookup (n_registry n) k of
        None \<Rightarrow> None | Some l \<Rightarrow> if NodeID l = i then None else Some l)"
      using mem.Lookup_UnregisterNode [OF reg, of i k]
      by (simp add: m change_node_gone(3) unregister_state_def drop_subscribers_def)
    with assms(3) c(1) change_node_gone(2) show ?thesis
      by (auto simp: removes_def split: option.splits if_splits)
  qed (use assms(3) in \<open>auto simp: m subscribe_state_def\<close>)
qed


theorem registration_owner_witness:
  "\<exists>task. n_running demo_registering = Some task \<and> task = LocalRegisterTask demo_hub \<and>
     (\<exists>l. registry_Lookup (n_registry demo_registered) demo_hub = Some l \<and> NodeID l = 1)"
proof -
  have "registry_Lookup (n_registry demo_registered) demo_hub \<noteq>
      registry_Lookup (n_registry demo_registering) demo_hub"
    using demo_hub_registered(1,2) by simp
  from registration_owner [OF demo_registering_reach demo_registering_step this] show ?thesis
    by (auto simp: demo_hub_registered(1) demo_registering_fields)
qed

section \<open>Nodes and their sessions\<close>

text \<open>
  C4. No orphans: a service that the main node has registered for another node belongs to a
  node that is connected, over a session that bears its id and its configured address, and is
  either active or about to be removed; or the removal of that node's services is already
  under way on the control loop.
\<close>

theorem no_orphan_services:
  assumes "server_reach env n" "IsMainNode n" "registry_Lookup (n_registry n) k = Some l"
    "NodeID l \<noteq> n_id n"
  shows "(\<exists>c. Config_Node (Some (n_config n)) (NodeID l) = Some c \<and> NodeAddr l = nc_ListenAddr c) \<and>
     (NodeGoneTask (NodeID l) \<in> pending n \<or>
      (\<exists>s r. go_get (n_remoteNodes n) (NodeID l) = Some s \<and> go_get (n_sessions n) s = Some r \<and>
         rm_id r = NodeID l \<and> rm_addr r = NodeAddr l \<and>
         (rm_active r \<or> s \<in> fst ` set (n_removing n))))"
proof -
  have inv: "table_ok n" "address_ok n" "orphan_ok n"
    using server_reach_inv [OF assms(1)] assms(2) by (simp_all add: server_inv_def)
  have addr: "\<exists>c. Config_Node (Some (n_config n)) (NodeID l) = Some c \<and> NodeAddr l = nc_ListenAddr c"
    using inv(2) assms(3,4) unfolding address_ok_def by blast
  have "alive n (NodeID l)" using inv(3) assms(3,4) unfolding orphan_ok_def by blast
  then consider "NodeGoneTask (NodeID l) \<in> pending n" | s where "go_get (n_remoteNodes n) (NodeID l) = Some s"
    unfolding alive_def by blast
  then show ?thesis
  proof cases
    case 2
    from table_invD(1) 2 inv(1) obtain r where r: "go_get (n_sessions n) s = Some r" "rm_id r = NodeID l" "NodeID l \<noteq> 0"
      unfolding table_ok_def by blast
    from table_invD(2) r(1) inv(1)
    have "session_inv (n_id n) (n_config n) (n_remoteNodes n) (fst ` set (n_removing n)) s r"
      unfolding table_ok_def by blast
    with 2 r addr show ?thesis by (fastforce simp: session_inv_def configured_def)
  qed (use addr in simp)
qed

theorem no_orphan_services_witness:
  "\<exists>s r. go_get (n_remoteNodes demo_state) 2 = Some s \<and> go_get (n_sessions demo_state) s = Some r \<and>
     rm_id r = 2 \<and> rm_addr r = '':2'' \<and> rm_active r"
  using no_orphan_services [OF demo_reach, of "demo_key 1" "demo_location 1"]
  by (simp add: demo_state_def demo_main_def IsMainNode_def pending_def registry_Lookup_def go_get_def
      demo_location_def)

text \<open>
  C6. One live session per node: of the sessions that have registered as the same node at most
  one is active, it is the one in the table of remote nodes, and its id is that of another
  configured node, with the configured address.
\<close>

theorem one_session_per_node:
  assumes "server_reach env n"
    "go_get (n_sessions n) s = Some r" "rm_active r" "rm_id r = i" "i \<noteq> 0"
    "go_get (n_sessions n) s' = Some r'" "rm_active r'" "rm_id r' = i"
  shows "s = s' \<and> go_get (n_remoteNodes n) i = Some s \<and> i \<noteq> n_id n \<and>
     (\<exists>c. Config_Node (Some (n_config n)) i = Some c \<and> rm_addr r = nc_ListenAddr c)"
proof -
  have tab: "table_inv (n_id n) (n_config n) (n_remoteNodes n) (n_sessions n) (fst ` set (n_removing n))"
    using server_reach_inv [OF assms(1)] by (simp add: server_inv_def table_ok_def)
  from table_invD(2) [OF tab assms(2)] table_invD(2) [OF tab assms(6)] assms show ?thesis
    by (simp add: session_inv_def configured_def)
qed

theorem one_session_per_node_witness: "go_get (n_remoteNodes demo_state) 2 = Some 7"
  using one_session_per_node [OF demo_reach, of 7
      "\<lparr>rm_id = 2, rm_addr = '':2'', rm_session = 7, rm_timer = True, rm_active = True\<rparr>" 2 7
      "\<lparr>rm_id = 2, rm_addr = '':2'', rm_session = 7, rm_timer = True, rm_active = True\<rparr>"]
  by (simp add: demo_state_def go_get_def)



text \<open>
  C26. The subscription index holds registered services only: a subscriber that has been
  unregistered, or whose node is gone, is not notified any more.
\<close>

theorem subscribers_registered:
  assumes "server_reach env n" "(k, nm) \<in> index_rel (n_subscriptions n)"
  shows "registry_Lookup (n_registry n) k \<noteq> None \<and> k \<in> set (index_subscribers (n_subscriptions n) nm)"
proof -
  have "registry_ok n" using server_reach_inv [OF assms(1)] by (simp add: server_inv_def)
  note reg = registry_okD [OF this]
  from reg(3) [OF assms(2)] ix.set_subscribers [OF reg(2)] assms(2) show ?thesis by simp
qed

theorem subscribers_registered_witness: "demo_key 1 \<in> set (index_subscribers (n_subscriptions demo_state) ''room'')"
  using subscribers_registered [OF demo_reach demo_subscribed(1)] by simp


section \<open>A race between reconnection and removal\<close>


end
