(* ===== verification/Discovery_Handler.thy ===== *)
theory Discovery_Handler
  imports Push_Codec Service_Call Node_Properties
begin

text \<open>
  Discovery from end to end: the messages of the main node are received over the connection of the
  subscriber (\<^verbatim>\<open>handleRPCDirect\<close> of \<^verbatim>\<open>rpc_client.go\<close>), become closures on the loop of its service
  (\<^verbatim>\<open>dispatchLocalServiceDiscovery\<close> of \<^verbatim>\<open>service_subscription.go\<close>), and these call the methods of its
  \<^verbatim>\<open>ServiceSubscriptionHandler\<close>.
\<close>

section \<open>The closure of a discovery event\<close>

datatype handler_call =
    HandleServiceSnapshot string "ServiceKey list"
  | HandleServiceOnline ServiceKey
  | HandleServiceOffline ServiceKey

text \<open>The method the closure calls, if any; \<^verbatim>\<open>services[0]\<close> panics on an empty slice.\<close>

definition discovery_call :: "string \<Rightarrow> int \<Rightarrow> ServiceKey list \<Rightarrow> string + handler_call option" where
  "discovery_call serviceName eventType svcs =
     (let first = (\<lambda>f. case svcs of
          [] \<Rightarrow> Inl ''runtime error: index out of range [0] with length 0''
        | service # _ \<Rightarrow> Inr (Some (f service)))
      in if eventType = eventSnapshot then Inr (Some (HandleServiceSnapshot serviceName svcs))
         else if eventType = eventOnline then first HandleServiceOnline
         else if eventType = eventOffline then first HandleServiceOffline
         else Inr None)"

text \<open>
  The closure on the loop of the subscriber; \<open>handle\<close> is the service with its state \<open>h\<close>. A panic is
  recovered and reported by \<open>run_task\<close>; \<open>stack\<close> is the stack of a panic of the index.
\<close>

definition run_discovery ::
    "go_env \<Rightarrow> string \<Rightarrow> (handler_call \<Rightarrow> 'h \<Rightarrow> outcome \<times> 'h) \<Rightarrow> ServiceKey \<Rightarrow> string \<times> int \<times> ServiceKey list \<Rightarrow> 'h \<times> call_node \<Rightarrow> 'h \<times> call_node" where
  "run_discovery env stack handle subscriber event st =
     (case (event, st) of ((serviceName, eventType, svcs), (h, s)) \<Rightarrow>
        let task = DiscoveryTask subscriber serviceName eventType svcs in
        case discovery_call serviceName eventType svcs of
          Inl v \<Rightarrow> (h, run_task env [] (Panics v stack) task s)
        | Inr None \<Rightarrow> (h, run_task env [] (Returns '''' None) task s)
        | Inr (Some call) \<Rightarrow> (case handle call h of (res, h) \<Rightarrow> (h, run_task env [] res task s)))"

text \<open>The discovery closures posted to the loop of \<open>k\<close>, in order.\<close>

primrec posted_events :: "ServiceKey \<Rightarrow> effect list \<Rightarrow> (string \<times> int \<times> ServiceKey list) list" where
  "posted_events k [] = []"
| "posted_events k (x # xs) =
     (case x of PostService k' (DiscoveryTask k'' nm ev ks) \<Rightarrow> (if k' = k then [(nm, ev, ks)] else []) | _ \<Rightarrow> []) @ posted_events k xs"

lemma posted_events_append [simp]: "posted_events k (xs @ ys) = posted_events k xs @ posted_events k ys"
  by (induction xs) simp_all

section \<open>The way of the events\<close>

text \<open>The packets sent over a session, and the discovery messages for \<open>k\<close> among them.\<close>

primrec packets :: "session \<Rightarrow> effect list \<Rightarrow> string list" where
  "packets s [] = []"
| "packets s (x # xs) = (case x of SendDirect s' p w \<Rightarrow> (if s' = s then [w] else []) | _ \<Rightarrow> []) @ packets s xs"

primrec sent_events :: "session \<Rightarrow> ServiceKey \<Rightarrow> effect list \<Rightarrow> (string \<times> int \<times> ServiceKey list) list" where
  "sent_events s k [] = []"
| "sent_events s k (x # xs) =
     (case x of SendDirect s' (DiscoveryPush k' nm ev ks) w \<Rightarrow> (if s' = s \<and> k' = k then [(nm, ev, ks)] else []) | _ \<Rightarrow> []) @ sent_events s k xs"

lemma discovery_events_sent: "discovery_events s k nm xs = map snd (filter (\<lambda>e. fst e = nm) (sent_events s k xs))"
  by (induction xs) (auto split: effect.splits push.splits)

text \<open>A subscriber on a node that receives from the main node.\<close>

definition receives :: "int \<Rightarrow> ServiceKey \<Rightarrow> peer \<Rightarrow> bool" where
  "receives nodeID k p \<longleftrightarrow> nodeID = n_mainNodeID (p_node p) \<and> \<not> IsMainNode (p_node p) \<and>
     (\<exists>rt. go_get (n_localServices (p_node p)) k = Some rt \<and> rt_handler rt)"

lemma apply_push_receives: "receives nodeID k p \<Longrightarrow> receives nodeID k (apply_push m p)"
  by (auto simp: receives_def apply_push_def dispatchLocalServiceDiscovery_eq split: push.splits prod.splits)

lemma apply_push_posts:
  assumes "receives nodeID k p" "push_wf env m"
  shows "posted_events k (n_out (p_node (apply_push m p))) = posted_events k (n_out (p_node p)) @ sent_events s k [SendDirect s m w]"
proof (cases m)
  case (DiscoveryPush k' nm ev ks)
  obtain err n' where d: "dispatchLocalServiceDiscovery k' nm ev ks (p_node p) = (err, n')" by (rule prod.exhaust)
  have "posted_events k (local_discovery_out (p_node p) k' nm ev ks) = (if k' = k then [(nm, ev, ks)] else [])"
  proof (cases "k' = k")
    case True
    with assms DiscoveryPush have "dispatchLocalServiceDiscovery k' nm ev ks (p_node p) = (None, emit (PostService k' (DiscoveryTask k' nm ev ks)) (p_node p))"
      by (auto simp: receives_def dispatchLocalServiceDiscovery_def event_wf_def event_defs)
    with True show ?thesis by (simp add: local_discovery_out_def)
  qed (simp add: local_discovery_out_def split: option.split)
  with d show ?thesis by (simp add: DiscoveryPush apply_push_def dispatchLocalServiceDiscovery_eq)
qed (simp add: apply_push_def)

lemma packets_arrive:
  assumes "packet_laws (packet env) enc" "proto_laws (proto env)" "intBits env \<le> 64" "sent_wf env xs" "receives nodeID k p"
  shows "posted_events k (n_out (p_node (fold (client_handleRPCDirect env nodeID) (packets s xs) p))) =
    posted_events k (n_out (p_node p)) @ sent_events s k xs"
  using assms(4,5)
proof (induction xs arbitrary: p)
  case (Cons x xs)
  show ?case
  proof (cases "\<exists>m w. x = SendDirect s m w")
    case True
    then obtain m w where x: "x = SendDirect s m w" by blast
    from Cons.prems(1) have m: "push_wf env m" "encode_push env m = Inr w" "sent_wf env xs" by (auto simp: sent_wf_def x)
    then have "valid_push env m" by (cases m) simp_all
    with push_arrives [OF assms(1-3) m(2)] Cons.prems(2) have "client_handleRPCDirect env nodeID w p = apply_push m p"
      by (simp add: receives_def)
    with Cons.IH [OF m(3) apply_push_receives [OF Cons.prems(2)]] apply_push_posts [OF Cons.prems(2) m(1), of s w]
    show ?thesis by (simp add: x)
  next
    case False
    with Cons.IH Cons.prems show ?thesis by (auto simp: sent_wf_def split: effect.splits push.splits)
  qed
qed simp

section \<open>The view of the service\<close>

text \<open>
  A service that keeps the set of the services of a name, and the sequence of calls that a service
  receives whatever its methods do (\<open>res\<close>).
\<close>

fun watch :: "string \<Rightarrow> handler_call \<Rightarrow> ServiceKey set option \<Rightarrow> ServiceKey set option" where
  "watch nm (HandleServiceSnapshot serviceName svcs) v = (if serviceName = nm then Some (set svcs) else v)"
| "watch nm (HandleServiceOnline service) v = (if key_Name service = nm then map_option (insert service) v else v)"
| "watch nm (HandleServiceOffline service) v = (if key_Name service = nm then map_option (\<lambda>v. v - {service}) v else v)"

definition recorder :: "(handler_call \<Rightarrow> handler_call list \<Rightarrow> outcome) \<Rightarrow> handler_call \<Rightarrow> handler_call list \<Rightarrow> outcome \<times> handler_call list" where
  "recorder res call h = (res call h, h @ [call])"

definition named_event :: "string \<times> int \<times> ServiceKey list \<Rightarrow> bool" where
  "named_event e \<longleftrightarrow> (case e of (nm, ev, ks) \<Rightarrow> event_wf ev ks \<and> (\<forall>k\<in>set ks. key_Name k = nm))"

lemma sent_events_named: "sent_wf env xs \<Longrightarrow> e \<in> set (sent_events s k xs) \<Longrightarrow> named_event e"
  by (induction xs) (auto simp: sent_wf_def named_event_def valid_push_def split: effect.splits push.splits if_splits)

lemma named_call:
  assumes "named_event e"
  obtains call where "\<And>res h s. run_discovery env stack (recorder res) k e (h, s) =
      (h @ [call], run_task env [] (res call h) (DiscoveryTask k (fst e) (fst (snd e)) (snd (snd e))) s)"
    "\<And>nm v. watch nm call v = (if fst e = nm then apply_event (snd e) v else v)"
proof -
  obtain nm ev ks where e: "e = (nm, ev, ks)" by (metis prod.exhaust)
  from assms e consider "ev = eventSnapshot" | x where "ev = eventOnline" "ks = [x]" "key_Name x = nm"
    | x where "ev = eventOffline" "ks = [x]" "key_Name x = nm"
    by (auto simp: named_event_def event_wf_def length_Suc_conv)
  then show ?thesis
  proof cases
    case 1
    show ?thesis
      by (rule that [of "HandleServiceSnapshot nm ks"])
        (simp_all add: e 1 run_discovery_def discovery_call_def recorder_def apply_event_def)
  next
    case (2 x)
    show ?thesis
      by (rule that [of "HandleServiceOnline x"])
        (simp_all add: e 2 run_discovery_def discovery_call_def recorder_def apply_event_def event_defs Let_def)
  next
    case (3 x)
    show ?thesis
      by (rule that [of "HandleServiceOffline x"])
        (simp_all add: e 3 run_discovery_def discovery_call_def recorder_def apply_event_def event_defs Let_def)
  qed
qed

lemma watched_replay:
  assumes "\<And>e. e \<in> set es \<Longrightarrow> named_event e"
  shows "fold (watch nm) (fst (fold (run_discovery env stack (recorder res) k) es (h, s))) v =
    fold apply_event (map snd (filter (\<lambda>e. fst e = nm) es)) (fold (watch nm) h v)"
  using assms
proof (induction es arbitrary: h s)
  case (Cons e es)
  from Cons.prems have "named_event e" by simp
  then obtain call where c: "\<And>res h s. run_discovery env stack (recorder res) k e (h, s) =
      (h @ [call], run_task env [] (res call h) (DiscoveryTask k (fst e) (fst (snd e)) (snd (snd e))) s)"
    "\<And>nm v. watch nm call v = (if fst e = nm then apply_event (snd e) v else v)"
    by (rule named_call [where env = env and stack = stack and k = k]) blast
  from Cons.IH [of "h @ [call]"] Cons.prems show ?case by (simp add: c)
qed simp

text \<open>
  C5. Discovery works from end to end. Take a subscriber on another node: all packets the main node has
  sent over the session of that node are handled by the client in order, and the closures this
  posts run on the loop of the subscriber, whatever its methods do and whether they panic. If the
  calls the subscriber has then received include a snapshot of a subscribed name, the set that a service
  keeps from the snapshots, the online and the offline calls for that name is exactly the set of the
  services of that name registered at the main node.
\<close>

theorem discovery_end_to_end:
  assumes "push_reach env n" "pushes_encode env" "packet_laws (packet env) enc" "proto_laws (proto env)" "intBits env \<le> 64"
    "(k, nm) \<in> index_rel (n_subscriptions n)" "notified_at n k s"
    "receives nodeID k p" "n_out (p_node p) = []"
    "q = fold (client_handleRPCDirect env nodeID) (packets s (n_out n)) p"
    "fold (run_discovery env stack (recorder res) k) (posted_events k (n_out (p_node q))) ([], c) = (calls, c')"
    "fold (watch nm) calls None = Some v"
  shows "v = registered_names n nm"
proof -
  have reach: "server_reach env n" by (rule push_reach_server [OF assms(1)])
  have wf: "sent_wf env (n_out n)" using pushed.reach_inv [OF assms(1)] by (simp add: push_inv_def)
  have posted: "posted_events k (n_out (p_node q)) = sent_events s k (n_out n)"
    using packets_arrive [OF assms(3-5) wf assms(8), of s] assms(9,10) by simp
  have "fold (watch nm) calls None = replay (discovery_events s k nm (n_out n))"
    using watched_replay [of "sent_events s k (n_out n)" nm env stack res k "[]" c None] sent_events_named [OF wf]
      assms(11)
    by (simp add: posted discovery_events_sent replay_def)
  then have view: "replay (discovery_events s k nm (n_out n)) = Some v" using assms(12) by simp
  have "view_ok n" using discovery.reach_inv [OF reach] assms(2) by (simp add: view_inv_def)
  with assms(6,7) view show ?thesis unfolding view_ok_def by blast
qed

definition demo_pushed :: server_node where
  "demo_pushed = the (server_run push_env demo_events demo_main)"

definition demo_subscriber :: peer where
  "demo_subscriber = \<lparr>p_node = demo_main\<lparr>n_id := 2, n_localServices := [(demo_key 1,
       \<lparr>rt_handler = True, rt_started = True, rt_registered = True, rt_subscriptions = [(''room'', ())]\<rparr>)]\<rparr>,
     p_cache = newServiceRouteCache 0 True\<rparr>"

definition demo_loop :: call_node where
  "demo_loop = \<lparr>c_node = p_node demo_subscriber, c_state = nodeStateRunning, c_wheel = True, c_callStop = False,
     c_timeout = ''3s'', c_calls = [], c_queue = [], c_live = [], c_posted = [], c_invoked = []\<rparr>"

lemma demo_pushed_reach: "push_reach push_env demo_pushed"
proof -
  have "server_run push_env demo_events demo_main \<noteq> None" by code_simp
  then have "server_run push_env demo_events demo_main = Some demo_pushed" by (auto simp: demo_pushed_def)
  moreover have "list_all (wf_event push_env) demo_events"
    by (simp add: demo_events_def demo_link_def demo_ask_def ask_def)
  ultimately show ?thesis using push_run_reach [OF reach_init, OF demo_init] by blast
qed

lemma demo_pushed_state:
  "n_subscriptions demo_pushed = \<lparr>byServiceName = [(''room'', [(demo_key 1, ())])], bySubscriber = [(demo_key 1, [(''room'', ())])]\<rparr>"
  "registry_Lookup (n_registry demo_pushed) (demo_key 1) = Some (demo_location 1)"
  "n_id demo_pushed = 1" "go_get (n_remoteNodes demo_pushed) 2 = Some 7"
  by code_simp+

text \<open>The methods of this subscriber all panic.\<close>

lemma demo_received:
  "fold (watch ''room'') (fst (fold (run_discovery push_env '''' (recorder (\<lambda>_ _. Panics ''no'' '''')) (demo_key 1))
     (posted_events (demo_key 1) (n_out (p_node (fold (client_handleRPCDirect push_env 1)
       (packets 7 (n_out demo_pushed)) demo_subscriber)))) ([], demo_loop))) None = Some {demo_key 1, demo_key 2}"
  by code_simp

theorem discovery_end_to_end_witness:
  "{demo_key 1, demo_key 2} = registered_names demo_pushed ''room''"
proof (rule discovery_end_to_end [where enc = be16 and k = "demo_key 1" and s = 7 and p = demo_subscriber and nodeID = 1
      and stack = "''''" and res = "\<lambda>_ _. Panics ''no'' ''''" and c = demo_loop, OF demo_pushed_reach push_env_encodes])
  show "packet_laws (packet push_env) be16" by (simp add: push_env_def demo_env_def be_packet_laws)
  show "proto_laws (proto push_env)" by (simp add: push_env_def push_proto_laws)
  show "intBits push_env \<le> 64" by (simp add: push_env_def demo_env_def)
  show "(demo_key 1, ''room'') \<in> index_rel (n_subscriptions demo_pushed)"
    by (simp add: demo_pushed_state(1) index_rel_def inner_def go_get_def)
  show "notified_at demo_pushed (demo_key 1) 7"
    using demo_pushed_state(2-4) by (auto simp: notified_at_def demo_location_def)
  show "receives 1 (demo_key 1) demo_subscriber"
    by (simp add: receives_def demo_subscriber_def demo_main_def IsMainNode_def go_get_def)
  show "n_out (p_node demo_subscriber) = []" by (simp add: demo_subscriber_def demo_main_def)
qed (rule refl, rule prod.collapse [symmetric], rule demo_received)

end
