(* ===== verification/Main_Link_Inv.thy ===== *)
theory Main_Link_Inv
  imports Main_Link
begin

text \<open>
  The invariants of the connections of a node: every open connection is in the table or in the
  hands of the one goroutine that creates or closes it.
\<close>

lemma upd_client_simps [simp]:
  "l_id (upd_client p f l) = l_id l" "l_mainNodeID (upd_client p f l) = l_mainNodeID l"
  "l_mainAddr (upd_client p f l) = l_mainAddr l" "l_state (upd_client p f l) = l_state l"
  "l_table (upd_client p f l) = l_table l" "l_mutex (upd_client p f l) = l_mutex l"
  "l_calls (upd_client p f l) = l_calls l" "l_marking (upd_client p f l) = l_marking l"
  "l_recovery (upd_client p f l) = l_recovery l" "l_trigger (upd_client p f l) = l_trigger l"
  "l_stop (upd_client p f l) = l_stop l" "l_epochs (upd_client p f l) = l_epochs l"
  "l_linked (upd_client p f l) = l_linked l" "l_lost (upd_client p f l) = l_lost l"
  "l_clients (upd_client p f l) = (l_clients l)[p := f (l_clients l ! p)]"
  by (simp_all add: upd_client_def)

lemma stop_timer_simps [simp]:
  "rc_nodeID (stop_timer c) = rc_nodeID c" "rc_addr (stop_timer c) = rc_addr c"
  "rc_connected (stop_timer c) = rc_connected c" "rc_heartbeatPending (stop_timer c) = rc_heartbeatPending c"
  by (simp_all add: stop_timer_def)

section \<open>Connections\<close>

definition conn :: "RPCClient list \<Rightarrow> nat \<Rightarrow> bool" where
  "conn cs p \<longleftrightarrow> p < length cs \<and> rc_connected (cs ! p)"

lemma connected_conn: "connected l p = conn (l_clients l) p"
  by (simp add: connected_def conn_def)

text \<open>Clients keep their identity, and a connection is never restored.\<close>

definition fades :: "RPCClient list \<Rightarrow> RPCClient list \<Rightarrow> bool" where
  "fades cs cs' \<longleftrightarrow> length cs' = length cs \<and>
     (\<forall>p < length cs. rc_nodeID (cs' ! p) = rc_nodeID (cs ! p) \<and> rc_addr (cs' ! p) = rc_addr (cs ! p) \<and>
        (rc_connected (cs' ! p) \<longrightarrow> rc_connected (cs ! p)))"

lemma fades_refl [simp, intro]: "fades cs cs"
  by (simp add: fades_def)

lemma fades_trans: "fades cs ds \<Longrightarrow> fades ds es \<Longrightarrow> fades cs es"
  by (simp add: fades_def)

lemma fades_upd:
  assumes "rc_nodeID c = rc_nodeID (cs ! p)" "rc_addr c = rc_addr (cs ! p)" "rc_connected c \<longrightarrow> rc_connected (cs ! p)"
  shows "fades cs (cs[p := c])"
  using assms by (auto simp: fades_def nth_upd)

lemma fades_conn: "fades cs cs' \<Longrightarrow> conn cs' p \<Longrightarrow> conn cs p"
  by (auto simp: fades_def conn_def)

lemma fades_closeTransport: "fades (l_clients l) (l_clients (closeTransport p l))"
  by (auto simp: closeTransport_def intro!: fades_upd)

lemma fades_mark_swap: "fades (l_clients l) (l_clients (mark_swap p c l))"
  by (auto simp: mark_swap_def fades_closeTransport intro!: fades_upd)

lemma fades_mark_recover: "fades (l_clients l) (l_clients (mark_recover p c l))"
  by (auto simp: mark_recover_def Let_def startMainRecovery_def invalidateAll_def closeTransport_def
      intro!: fades_upd)

lemma fades_handleResult: "fades (l_clients l) (l_clients (handleHeartbeatResult p err l))"
proof -
  have "fades (l_clients l) (l_clients (mark_swap p True (upd_client p (\<lambda>c. c\<lparr>rc_heartbeatPending := False, rc_heartbeat := HbNone\<rparr>) l)))"
    by (rule fades_trans [OF _ fades_mark_swap]) (auto intro!: fades_upd)
  then show ?thesis
    by (auto simp: handleHeartbeatResult_def Let_def nth_upd intro!: fades_upd)
qed

lemma fades_sendHeartbeat: "fades (l_clients l) (l_clients (sendHeartbeat p err l))"
proof -
  let ?l = "upd_client p (\<lambda>c. c\<lparr>rc_heartbeatPending := True, rc_heartbeat := HbInFlight\<rparr>) l"
  have "fades (l_clients l) (l_clients ?l)" by (auto intro!: fades_upd)
  with fades_trans [OF this fades_handleResult] show ?thesis
    by (auto simp: sendHeartbeat_def Let_def intro!: fades_upd)
qed

fun pc_client :: "create_pc \<Rightarrow> nat option" where
  "pc_client (CloseStale i a p) = Some p"
| "pc_client (RegisterNode p) = Some p"
| "pc_client (Recheck p) = Some p"
| "pc_client (Restore p) = Some p"
| "pc_client (Publish p) = Some p"
| "pc_client (Abort p) = Some p"
| "pc_client _ = None"

fun pc_node :: "RPCClient list \<Rightarrow> create_pc \<Rightarrow> int option" where
  "pc_node cs (CloseStale i a p) = Some i"
| "pc_node cs (Connect i a) = Some i"
| "pc_node cs (RegisterNode p) = Some (rc_nodeID (cs ! p))"
| "pc_node cs (Recheck p) = Some (rc_nodeID (cs ! p))"
| "pc_node cs (Restore p) = Some (rc_nodeID (cs ! p))"
| "pc_node cs (Publish p) = Some (rc_nodeID (cs ! p))"
| "pc_node cs (Abort p) = Some (rc_nodeID (cs ! p))"
| "pc_node cs _ = None"

text \<open>The clients that the holder of the mutex creates or closes.\<close>

definition in_hand :: "mutex \<Rightarrow> nat \<Rightarrow> bool" where
  "in_hand mx p \<longleftrightarrow>
     (case mx of Free \<Rightarrow> False | Held h pc \<Rightarrow> pc_client pc = Some p | Closing ps \<Rightarrow> p \<in> set ps)"

lemma in_hand_simps [simp]:
  "\<not> in_hand Free p" "in_hand (Held h pc) p \<longleftrightarrow> pc_client pc = Some p" "in_hand (Closing ps) p \<longleftrightarrow> p \<in> set ps"
  by (simp_all add: in_hand_def)

definition conn_ok :: "RPCClient list \<Rightarrow> (int, nat) gomap \<Rightarrow> mutex \<Rightarrow> bool" where
  "conn_ok cs tab mx \<longleftrightarrow> go_wf tab \<and>
     (\<forall>i p. go_get tab i = Some p \<longrightarrow> p < length cs \<and> rc_nodeID (cs ! p) = i) \<and>
     (\<forall>p. conn cs p \<longrightarrow> go_get tab (rc_nodeID (cs ! p)) = Some p \<or> in_hand mx p) \<and>
     (\<forall>p. in_hand mx p \<longrightarrow> p < length cs \<and> (\<forall>i. go_get tab i \<noteq> Some p)) \<and>
     (\<forall>h pc i. mx = Held h pc \<longrightarrow> pc_node cs pc = Some i \<longrightarrow> go_get tab i = None)"

lemma conn_okI:
  assumes "go_wf tab" "\<And>i p. go_get tab i = Some p \<Longrightarrow> p < length cs \<and> rc_nodeID (cs ! p) = i"
    "\<And>p. conn cs p \<Longrightarrow> go_get tab (rc_nodeID (cs ! p)) = Some p \<or> in_hand mx p"
    "\<And>p i. in_hand mx p \<Longrightarrow> p < length cs \<and> go_get tab i \<noteq> Some p"
    "\<And>h pc i. mx = Held h pc \<Longrightarrow> pc_node cs pc = Some i \<Longrightarrow> go_get tab i = None"
  shows "conn_ok cs tab mx"
  using assms unfolding conn_ok_def by blast

lemma conn_okD:
  assumes "conn_ok cs tab mx"
  shows "go_wf tab" "go_get tab i = Some p \<Longrightarrow> p < length cs" "go_get tab i = Some p \<Longrightarrow> rc_nodeID (cs ! p) = i"
    "conn cs p \<Longrightarrow> go_get tab (rc_nodeID (cs ! p)) = Some p \<or> in_hand mx p"
    "in_hand mx p \<Longrightarrow> p < length cs" "in_hand mx p \<Longrightarrow> go_get tab i \<noteq> Some p"
    "mx = Held h pc \<Longrightarrow> pc_node cs pc = Some i \<Longrightarrow> go_get tab i = None"
  using assms unfolding conn_ok_def by blast+

lemma conn_unique: "conn_ok cs tab mx \<Longrightarrow> go_get tab i = Some p \<Longrightarrow> go_get tab j = Some p \<Longrightarrow> j = i"
  using conn_okD(3) by metis

lemma conn_fade:
  assumes "conn_ok cs tab mx" "fades cs cs'"
  shows "conn_ok cs' tab mx"
proof (rule conn_okI)
  note d = conn_okD [OF assms(1)] and f = assms(2) [unfolded fades_def]
  show "go_wf tab" by (rule d(1))
  show "p < length cs' \<and> rc_nodeID (cs' ! p) = i" if "go_get tab i = Some p" for i p
    using d(2,3) [OF that] f by simp
  show "go_get tab (rc_nodeID (cs' ! p)) = Some p \<or> in_hand mx p" if "conn cs' p" for p
    using d(4) [OF fades_conn [OF assms(2) that]] that f by (simp add: conn_def)
  show "p < length cs' \<and> go_get tab i \<noteq> Some p" if "in_hand mx p" for p i
    using d(5,6) [OF that] f by simp
  show "go_get tab i = None" if "mx = Held h pc" "pc_node cs' pc = Some i" for h pc i
  proof -
    have "pc_node cs' pc = pc_node cs pc"
      using that(1) d(5) f by (cases pc) simp_all
    with that d(7) show ?thesis by simp
  qed
qed

lemma conn_remove:
  assumes "conn_ok cs tab mx" "\<And>p. go_get tab i = Some p \<Longrightarrow> \<not> conn cs p"
  shows "conn_ok cs (go_del i tab) mx"
  using assms unfolding conn_ok_def by (auto simp: conn_def)

text \<open>A step of the holder that leaves the clients and the table alone.\<close>

lemma conn_advance:
  assumes "conn_ok cs tab (Held h pc)" "\<And>p. pc_client pc = Some p \<Longrightarrow> pc_client pc' = Some p \<or> \<not> conn cs p"
    "\<And>p. pc_client pc' = Some p \<Longrightarrow> pc_client pc = Some p"
    "\<And>i. pc_node cs pc' = Some i \<Longrightarrow> pc_node cs pc = Some i"
  shows "conn_ok cs tab (Held h' pc')"
  using assms unfolding conn_ok_def by (auto simp: conn_def)

lemma conn_free:
  assumes "conn_ok cs tab mx" "\<And>p. in_hand mx p \<Longrightarrow> \<not> conn cs p"
  shows "conn_ok cs tab Free"
  using assms unfolding conn_ok_def by auto

lemma conn_lock: "conn_ok cs tab Free \<Longrightarrow> conn_ok cs tab (Held h (CheckTable i a))"
  unfolding conn_ok_def by auto

lemma conn_check:
  assumes "conn_ok (l_clients l) (l_table l) (Held h (CheckTable i a))" "check_table i a l = (pc, l')"
  shows "conn_ok (l_clients l') (l_table l') (Held h pc)"
proof -
  note d = conn_okD [OF assms(1)]
  consider (used) p where "pc = Finish (Some p)" "l' = l"
    | (none) "pc = Connect i a" "l' = l" "go_get (l_table l) i = None"
    | (stale) q where "pc = CloseStale i a q" "l' = l\<lparr>l_table := go_del i (l_table l)\<rparr>" "go_get (l_table l) i = Some q"
    using assms(2) by (auto simp: check_table_def split: option.splits)
  then show ?thesis
  proof cases
    case used
    have "conn_ok (l_clients l) (l_table l) (Held h (Finish (Some p)))" for p
      by (rule conn_advance [OF assms(1)]) simp_all
    with used show ?thesis by simp
  next
    case none
    with assms(1) show ?thesis unfolding conn_ok_def by auto
  next
    case (stale q)
    have "conn_ok (l_clients l) (go_del i (l_table l)) (Held h (CloseStale i a q))"
    proof (rule conn_okI)
      show "go_get (go_del i (l_table l)) (rc_nodeID (l_clients l ! p)) = Some p \<or>
          in_hand (Held h (CloseStale i a q)) p" if "conn (l_clients l) p" for p
        using d(4) [OF that] stale(3) by (cases "rc_nodeID (l_clients l ! p) = i") simp_all
      show "p < length (l_clients l) \<and> go_get (go_del i (l_table l)) j \<noteq> Some p"
        if "in_hand (Held h (CloseStale i a q)) p" for p j
      proof -
        have "p = q" using that by simp
        moreover have "go_get (go_del i (l_table l)) j \<noteq> Some q"
          using conn_unique [OF assms(1) stale(3)] by (simp add: gm.get_del) blast
        ultimately show ?thesis using d(2) [OF stale(3)] by simp
      qed
    qed (use d(1,2,3) in \<open>auto split: if_splits\<close>)
    then show ?thesis by (simp add: stale(1,2))
  qed
qed

lemma conn_new:
  assumes "conn_ok (l_clients l) (l_table l) (Held h (Connect i a))" "newRPCClient i a l = (p, l')"
  shows "conn_ok (l_clients l') (l_table l') (Held h (RegisterNode p))"
proof -
  note d = conn_okD [OF assms(1)]
  obtain c where c: "l_clients l' = l_clients l @ [c]" "rc_nodeID c = i" "l_table l' = l_table l" "p = length (l_clients l)"
    using assms(2) by (auto simp: newRPCClient_def Let_def invalidateAll_def split: if_splits)
  have none: "go_get (l_table l) i = None" using d(7) by simp
  show ?thesis
    unfolding c(1,3)
  proof (rule conn_okI)
    show "go_get (l_table l) (rc_nodeID ((l_clients l @ [c]) ! q)) = Some q \<or> in_hand (Held h (RegisterNode p)) q"
      if "conn (l_clients l @ [c]) q" for q
      using that d(4) [of q] c(4) by (auto simp: conn_def nth_append less_Suc_eq split: if_splits)
    show "q < length (l_clients l @ [c]) \<and> rc_nodeID ((l_clients l @ [c]) ! q) = j" if "go_get (l_table l) j = Some q" for j q
      using d(2,3) [OF that] by (simp add: nth_append)
  qed (use d(1,2) none c(2,4) in \<open>auto simp: nth_append\<close>)
qed

lemma conn_publish:
  assumes "conn_ok (l_clients l) (l_table l) (Held h (Publish p))" "publish p l = (pc, l')"
  shows "conn_ok (l_clients l') (l_table l') (Held h pc)"
proof (cases "connected l p")
  case False
  with assms(2) have "pc = Abort p" "l' = l" by (simp_all add: publish_def)
  with assms(1) show ?thesis by (auto intro!: conn_advance [OF assms(1)])
next
  case True
  note d = conn_okD [OF assms(1)]
  have l': "pc = StartHeartbeat p" "l_clients l' = l_clients l"
    "l_table l' = go_put (rc_nodeID (l_clients l ! p)) p (l_table l)"
    using True assms(2) by (auto simp: publish_def client_id_def)
  have none: "go_get (l_table l) (rc_nodeID (l_clients l ! p)) = None" using d(7) by simp
  show ?thesis
    unfolding l'
  proof (rule conn_okI)
    show "go_get (go_put (rc_nodeID (l_clients l ! p)) p (l_table l)) (rc_nodeID (l_clients l ! q)) = Some q \<or>
        in_hand (Held h (StartHeartbeat p)) q" if "conn (l_clients l) q" for q
      using d(4) [OF that] none by auto
    show "q < length (l_clients l) \<and> rc_nodeID (l_clients l ! q) = i"
      if "go_get (go_put (rc_nodeID (l_clients l ! p)) p (l_table l)) i = Some q" for i q
      using that True d(2,3) by (auto simp: connected_def split: if_splits)
  qed (use d(1) in simp_all)
qed

lemma pc_node_fade: "fades cs cs' \<Longrightarrow> (\<And>p. pc_client pc = Some p \<Longrightarrow> p < length cs) \<Longrightarrow> pc_node cs' pc = pc_node cs pc"
  by (cases pc) (simp_all add: fades_def)

lemma conn_closed:
  assumes "conn_ok (l_clients l) (l_table l) (Held h pc)" "pc_client pc = Some p" "pc_client pc' = None"
    "\<And>i. pc_node (l_clients l) pc' = Some i \<Longrightarrow> pc_node (l_clients l) pc = Some i"
  shows "conn_ok (l_clients (closeTransport p l)) (l_table (closeTransport p l)) (Held h pc')"
proof -
  let ?cs = "l_clients (closeTransport p l)"
  have p: "p < length (l_clients l)" using conn_okD(5) [OF assms(1)] assms(2) by simp
  have node: "pc_node ?cs pc = pc_node (l_clients l) pc" "pc_node ?cs pc' = pc_node (l_clients l) pc'"
    using p assms(2,3) by (intro pc_node_fade [OF fades_closeTransport]; simp)+
  have "conn_ok ?cs (l_table l) (Held h pc')"
  proof (rule conn_advance [OF conn_fade [OF assms(1) fades_closeTransport [of l p]]])
    show "pc_client pc' = Some q \<or> \<not> conn ?cs q" if "pc_client pc = Some q" for q
      using that assms(2) p by (simp add: conn_def closeTransport_def)
    show "pc_node ?cs pc = Some i" if "pc_node ?cs pc' = Some i" for i
      using that assms(4) node by simp
  qed (simp add: assms(3))
  then show ?thesis by (simp add: closeTransport_def)
qed

definition link_conn :: "link \<Rightarrow> bool" where
  "link_conn l \<longleftrightarrow> conn_ok (l_clients l) (l_table l) (l_mutex l)"

lemma link_conn_create:
  assumes "link_conn l" "l_mutex l = Held h pc"
  shows "link_conn (create_step ok h pc l)"
proof -
  have c: "conn_ok (l_clients l) (l_table l) (Held h pc)" using assms by (simp add: link_conn_def)
  note d = conn_okD [OF c]
  show ?thesis
  proof (cases pc)
    case (CheckTable i a)
    with conn_check [of l h i a] c show ?thesis
      by (cases "check_table i a l") (simp add: create_step_def Let_def link_conn_def)
  next
    case (CloseStale i a q)
    with conn_closed [OF c, of q "Connect i a"] show ?thesis by (simp add: create_step_def Let_def link_conn_def)
  next
    case (Connect i a)
    have "conn_ok (l_clients l) (l_table l) (Held h (Finish None))"
      by (rule conn_advance [OF c]) (simp_all add: Connect)
    with conn_new [of l h i a] c Connect show ?thesis
      by (cases "newRPCClient i a l") (simp add: create_step_def Let_def link_conn_def)
  next
    case (RegisterNode p)
    then show ?thesis
      by (auto simp: create_step_def Let_def link_conn_def split: holder.split intro!: conn_advance [OF c])
  next
    case (Recheck p)
    then show ?thesis by (auto simp: create_step_def Let_def link_conn_def intro!: conn_advance [OF c])
  next
    case (Restore p)
    then show ?thesis by (auto simp: create_step_def Let_def link_conn_def intro!: conn_advance [OF c])
  next
    case (Publish p)
    with conn_publish [of l h p] c show ?thesis
      by (cases "publish p l") (simp add: create_step_def Let_def link_conn_def)
  next
    case (StartHeartbeat p)
    have "conn_ok (l_clients (start_heartbeat p l)) (l_table l) (Held h pc)"
      by (rule conn_fade [OF c]) (auto simp: start_heartbeat_def intro!: fades_upd)
    from conn_advance [OF this, of "Finish (Some p)" h] StartHeartbeat show ?thesis
      by (simp add: create_step_def Let_def link_conn_def start_heartbeat_def)
  next
    case (Abort p)
    with conn_closed [OF c, of p "Finish None"] show ?thesis by (simp add: create_step_def Let_def link_conn_def)
  next
    case (Finish r)
    with conn_free [OF c] show ?thesis by (simp add: create_step_def Let_def link_conn_def finish_def split: holder.split)
  qed
qed


lemma link_conn_fade:
  "link_conn l \<Longrightarrow> fades (l_clients l) (l_clients m) \<Longrightarrow> l_table m = l_table l \<Longrightarrow> l_mutex m = l_mutex l \<Longrightarrow> link_conn m"
  unfolding link_conn_def by (simp add: conn_fade)

text \<open>A client whose disconnection is being handled is disconnected.\<close>

definition marking_ok :: "link \<Rightarrow> bool" where
  "marking_ok l \<longleftrightarrow> (\<forall>p r c. (p, r, c) \<in> set (l_marking l) \<longrightarrow> p < length (l_clients l) \<and> \<not> rc_connected (l_clients l ! p))"

lemma closeTransport_fields [simp]:
  "l_table (closeTransport p l) = l_table l" "l_mutex (closeTransport p l) = l_mutex l"
  "l_marking (closeTransport p l) = l_marking l"
  "l_id (closeTransport p l) = l_id l" "l_mainNodeID (closeTransport p l) = l_mainNodeID l"
  "l_mainAddr (closeTransport p l) = l_mainAddr l" "l_state (closeTransport p l) = l_state l"
  "l_calls (closeTransport p l) = l_calls l" "l_recovery (closeTransport p l) = l_recovery l"
  "l_trigger (closeTransport p l) = l_trigger l" "l_stop (closeTransport p l) = l_stop l"
  "l_linked (closeTransport p l) = l_linked l" "l_lost (closeTransport p l) = l_lost l"
  by (simp_all add: closeTransport_def)

lemma mark_swap_fields [simp]:
  "l_table (mark_swap p c l) = l_table l" "l_mutex (mark_swap p c l) = l_mutex l"
  "l_id (mark_swap p c l) = l_id l" "l_mainNodeID (mark_swap p c l) = l_mainNodeID l"
  "l_mainAddr (mark_swap p c l) = l_mainAddr l" "l_state (mark_swap p c l) = l_state l"
  "l_calls (mark_swap p c l) = l_calls l" "l_recovery (mark_swap p c l) = l_recovery l"
  "l_trigger (mark_swap p c l) = l_trigger l" "l_stop (mark_swap p c l) = l_stop l"
  "l_linked (mark_swap p c l) = l_linked l" "l_lost (mark_swap p c l) = l_lost l"
  by (simp_all add: mark_swap_def closeTransport_def)

lemma mark_swap_marking:
  "l_marking (mark_swap p c l) = (if connected l p then l_marking l @ [(p, False, c)] else l_marking l)"
  by (simp add: mark_swap_def closeTransport_def)

lemma handleResult_fields [simp]:
  "l_table (handleHeartbeatResult p e l) = l_table l" "l_mutex (handleHeartbeatResult p e l) = l_mutex l"
  "l_id (handleHeartbeatResult p e l) = l_id l" "l_mainNodeID (handleHeartbeatResult p e l) = l_mainNodeID l"
  "l_mainAddr (handleHeartbeatResult p e l) = l_mainAddr l" "l_state (handleHeartbeatResult p e l) = l_state l"
  "l_calls (handleHeartbeatResult p e l) = l_calls l" "l_recovery (handleHeartbeatResult p e l) = l_recovery l"
  "l_trigger (handleHeartbeatResult p e l) = l_trigger l" "l_stop (handleHeartbeatResult p e l) = l_stop l"
  "l_linked (handleHeartbeatResult p e l) = l_linked l" "l_lost (handleHeartbeatResult p e l) = l_lost l"
  by (simp_all add: handleHeartbeatResult_def Let_def)

lemma sendHeartbeat_fields [simp]:
  "l_table (sendHeartbeat p e l) = l_table l" "l_mutex (sendHeartbeat p e l) = l_mutex l"
  "l_id (sendHeartbeat p e l) = l_id l" "l_mainNodeID (sendHeartbeat p e l) = l_mainNodeID l"
  "l_mainAddr (sendHeartbeat p e l) = l_mainAddr l" "l_state (sendHeartbeat p e l) = l_state l"
  "l_calls (sendHeartbeat p e l) = l_calls l" "l_recovery (sendHeartbeat p e l) = l_recovery l"
  "l_trigger (sendHeartbeat p e l) = l_trigger l" "l_stop (sendHeartbeat p e l) = l_stop l"
  "l_linked (sendHeartbeat p e l) = l_linked l" "l_lost (sendHeartbeat p e l) = l_lost l"
  by (simp_all add: sendHeartbeat_def Let_def)

lemma startMainRecovery_fields [simp]:
  "l_clients (startMainRecovery l) = l_clients l" "l_table (startMainRecovery l) = l_table l"
  "l_mutex (startMainRecovery l) = l_mutex l" "l_marking (startMainRecovery l) = l_marking l"
  "l_id (startMainRecovery l) = l_id l" "l_mainNodeID (startMainRecovery l) = l_mainNodeID l"
  "l_mainAddr (startMainRecovery l) = l_mainAddr l" "l_state (startMainRecovery l) = l_state l"
  "l_calls (startMainRecovery l) = l_calls l" "l_recovery (startMainRecovery l) = l_recovery l"
  "l_stop (startMainRecovery l) = l_stop l" "l_linked (startMainRecovery l) = l_linked l"
  "l_lost (startMainRecovery l) = l_lost l"
  by (simp_all add: startMainRecovery_def)

lemma invalidateAll_fields [simp]:
  "l_clients (invalidateAll l) = l_clients l" "l_table (invalidateAll l) = l_table l"
  "l_mutex (invalidateAll l) = l_mutex l" "l_marking (invalidateAll l) = l_marking l"
  "l_id (invalidateAll l) = l_id l" "l_mainNodeID (invalidateAll l) = l_mainNodeID l"
  "l_mainAddr (invalidateAll l) = l_mainAddr l" "l_state (invalidateAll l) = l_state l"
  "l_calls (invalidateAll l) = l_calls l" "l_recovery (invalidateAll l) = l_recovery l"
  "l_stop (invalidateAll l) = l_stop l" "l_linked (invalidateAll l) = l_linked l"
  "l_lost (invalidateAll l) = l_lost l" "l_trigger (invalidateAll l) = l_trigger l"
  by (simp_all add: invalidateAll_def)

lemma mark_recover_fields [simp]:
  "l_table (mark_recover p c l) = l_table l" "l_mutex (mark_recover p c l) = l_mutex l"
  "l_marking (mark_recover p c l) = l_marking l"
  "l_id (mark_recover p c l) = l_id l" "l_mainNodeID (mark_recover p c l) = l_mainNodeID l"
  "l_mainAddr (mark_recover p c l) = l_mainAddr l" "l_state (mark_recover p c l) = l_state l"
  "l_calls (mark_recover p c l) = l_calls l" "l_recovery (mark_recover p c l) = l_recovery l"
  "l_stop (mark_recover p c l) = l_stop l" "l_linked (mark_recover p c l) = l_linked l"
  by (simp_all add: mark_recover_def Let_def closeTransport_def)

lemma mark_remove_fields [simp]:
  "l_mutex (mark_remove p l) = l_mutex l" "l_marking (mark_remove p l) = l_marking l"
  "l_id (mark_remove p l) = l_id l" "l_mainNodeID (mark_remove p l) = l_mainNodeID l"
  "l_mainAddr (mark_remove p l) = l_mainAddr l" "l_state (mark_remove p l) = l_state l"
  "l_calls (mark_remove p l) = l_calls l" "l_recovery (mark_remove p l) = l_recovery l"
  "l_trigger (mark_remove p l) = l_trigger l" "l_stop (mark_remove p l) = l_stop l"
  "l_linked (mark_remove p l) = l_linked l" "l_lost (mark_remove p l) = l_lost l"
  "l_clients (mark_remove p l) = (l_clients l)[p := stop_timer (l_clients l ! p)]"
  "l_table (mark_remove p l) = (if go_get (l_table l) (client_id l p) = Some p
     then go_del (client_id l p) (l_table l) else l_table l)"
  by (simp_all add: mark_remove_def removeRPCClient_def)

lemma link_conn_step:
  assumes "link_conn l" "marking_ok l" "link_step l e m"
  shows "link_conn m"
  using assms(3)
proof (cases rule: link_step.cases)
  case (link_Create h pc ok)
  then show ?thesis by (simp add: link_conn_create [OF assms(1)])
next
  case (link_MarkRemove k p c)
  have "(p, False, c) \<in> set (l_marking l)" using link_MarkRemove(3,4) by (metis nth_mem)
  with assms(2) have p: "\<not> conn (l_clients l) p" unfolding marking_ok_def conn_def by blast
  have "conn_ok (l_clients l) (l_table (mark_remove p l)) (l_mutex l)"
    using assms(1) p by (auto simp: link_conn_def intro!: conn_remove)
  then have "conn_ok (l_clients (mark_remove p l)) (l_table (mark_remove p l)) (l_mutex l)"
    by (rule conn_fade) (auto intro!: fades_upd)
  then show ?thesis by (simp add: link_MarkRemove(2) link_conn_def)
next
  case (link_CloseNetwork)
  have "conn_ok (l_clients l) [] (Closing (map snd (l_table l)))"
  proof (rule conn_okI)
    note d = conn_okD [OF assms(1) [unfolded link_conn_def]]
    show "go_get [] (rc_nodeID (l_clients l ! p)) = Some p \<or> in_hand (Closing (map snd (l_table l))) p"
      if "conn (l_clients l) p" for p
      using d(4) [OF that] link_CloseNetwork(5) go_get_SomeD by force
    show "p < length (l_clients l) \<and> go_get [] i \<noteq> Some p" if in_p: "in_hand (Closing (map snd (l_table l))) p" for p i
    proof -
      from in_p obtain j where "(j, p) \<in> set (l_table l)" by auto
      with d(1) have "go_get (l_table l) j = Some p" by (simp add: go_get_in_set)
      with d(2) show ?thesis by simp
    qed
  qed simp_all
  then show ?thesis by (simp add: link_CloseNetwork(2) link_conn_def)
next
  case (link_CloseNext p ps)
  have "conn_ok (l_clients (mark_swap p True l)) (l_table l) (Closing (p # ps))"
    using assms(1) link_CloseNext(3) by (auto simp: link_conn_def intro: conn_fade fades_mark_swap)
  moreover have "\<not> conn (l_clients (mark_swap p True l)) p"
    by (auto simp: mark_swap_def conn_def connected_def closeTransport_def)
  ultimately show ?thesis
    unfolding link_CloseNext(2) link_conn_def conn_ok_def by auto
next
  case link_CloseDone
  with conn_free [of "l_clients l" "l_table l" "Closing []"] assms(1) show ?thesis by (simp add: link_conn_def)
next
  case (link_Lock j i a)
  then show ?thesis using assms(1) conn_lock by (auto simp: link_conn_def)
next
  case (link_RecoverLock d)
  then show ?thesis using assms(1) conn_lock by (auto simp: link_conn_def)
qed (use assms(1) in \<open>auto intro!: link_conn_fade [OF assms(1)] fades_upd
    simp: fades_mark_swap fades_mark_recover fades_sendHeartbeat fades_handleResult startHeartbeat_task_def
      heartbeat_callback_def\<close>)


text \<open>How a step changes the clients: they fade, or one is added.\<close>

definition clients_grow :: "RPCClient list \<Rightarrow> RPCClient list \<Rightarrow> bool" where
  "clients_grow cs cs' \<longleftrightarrow> length cs \<le> length cs' \<and>
     (\<forall>p < length cs. rc_nodeID (cs' ! p) = rc_nodeID (cs ! p) \<and> rc_addr (cs' ! p) = rc_addr (cs ! p) \<and>
        (rc_connected (cs' ! p) \<longrightarrow> rc_connected (cs ! p)))"

lemma fades_grow: "fades cs cs' \<Longrightarrow> clients_grow cs cs'"
  by (simp add: fades_def clients_grow_def)

lemma clients_grow_create: "clients_grow (l_clients l) (l_clients (create_step ok h pc l))"
proof (cases pc)
  case (CheckTable i a)
  then show ?thesis
    by (auto simp: create_step_def Let_def check_table_def split: option.split intro!: fades_grow)
next
  case (Connect i a)
  then show ?thesis
    by (auto simp: create_step_def Let_def newRPCClient_def clients_grow_def nth_append)
qed (auto simp: create_step_def Let_def publish_def start_heartbeat_def finish_def fades_closeTransport
    split: holder.split intro!: fades_grow fades_upd)

lemma clients_grow_step: "link_step l e m \<Longrightarrow> clients_grow (l_clients l) (l_clients m)"
  by (erule link_step.cases)
    (auto intro!: fades_grow fades_upd clients_grow_create simp: fades_mark_swap fades_mark_recover
      fades_sendHeartbeat fades_handleResult startHeartbeat_task_def heartbeat_callback_def)

lemma create_marking [simp]: "l_marking (create_step ok h pc l) = l_marking l"
  by (cases pc) (auto simp: create_step_def Let_def check_table_def newRPCClient_def publish_def start_heartbeat_def
      finish_def closeTransport_def invalidateAll_def split: option.split holder.split)

text \<open>What a step adds to the disconnections under way.\<close>

lemma handleResult_marking:
  "set (l_marking (handleHeartbeatResult p e l)) \<subseteq> set (l_marking l) \<union>
     (if connected l p \<and> \<not> connected (handleHeartbeatResult p e l) p then {(p, False, True)} else {})"
  by (auto simp: handleHeartbeatResult_def Let_def mark_swap_def connected_def)

lemma sendHeartbeat_marking:
  "set (l_marking (sendHeartbeat p e l)) \<subseteq> set (l_marking l) \<union>
     (if connected l p \<and> \<not> connected (sendHeartbeat p e l) p then {(p, False, True)} else {})"
  by (auto simp: sendHeartbeat_def handleHeartbeatResult_def Let_def mark_swap_def connected_def)

lemma marking_new:
  assumes "link_step l e m" "(p, r, c) \<in> set (l_marking m)"
  shows "(\<exists>r' c'. (p, r', c') \<in> set (l_marking l)) \<or> connected l p \<and> \<not> connected m p"
  using assms(1)
proof (cases rule: link_step.cases)
  case (link_MarkRemove k q c')
  with assms(2) show ?thesis by (auto dest!: set_update_subset_insert [THEN subsetD] dest: nth_mem)
next
  case (link_MarkRecover k q c')
  with assms(2) show ?thesis by (auto simp: drop_nth_def dest: in_set_takeD in_set_dropD)
next
  case (link_HbFire q err)
  with assms(2) sendHeartbeat_marking [of q err l] show ?thesis by (auto split: if_splits)
next
  case (link_HbHandle q err)
  with assms(2) handleResult_marking [of q err l] show ?thesis by (auto split: if_splits)
next
  case (link_Broken q)
  with assms(2) show ?thesis by (auto simp: mark_swap_marking mark_swap_def connected_def split: if_splits)
next
  case (link_CloseNext q ps)
  with assms(2) show ?thesis by (auto simp: mark_swap_marking mark_swap_def connected_def split: if_splits)
qed (use assms(2) in \<open>auto simp: startHeartbeat_task_def heartbeat_callback_def\<close>)

lemma marking_ok_step:
  assumes "marking_ok l" "link_step l e m"
  shows "marking_ok m"
  unfolding marking_ok_def
proof (intro allI impI)
  fix p r c assume "(p, r, c) \<in> set (l_marking m)"
  from marking_new [OF assms(2) this] assms(1) have "p < length (l_clients l)" "\<not> connected m p"
    using clients_grow_step [OF assms(2)] unfolding marking_ok_def connected_def clients_grow_def by blast+
  with clients_grow_step [OF assms(2)] show "p < length (l_clients m) \<and> \<not> rc_connected (l_clients m ! p)"
    by (auto simp: clients_grow_def connected_def)
qed

end
