(* ===== verification/Main_Recovery.thy ===== *)
theory Main_Recovery
  imports Main_Link_Inv
begin

text \<open>
  The recovery of the connection to the main node: the holder of \<^verbatim>\<open>clientCreateMu\<close> keeps to the
  node it was called for, a node goes through its phases once, and a lost connection to the main
  node is being recovered.
\<close>

section \<open>The holder of the mutex\<close>

text \<open>The node the holder creates a client of.\<close>

fun pc_target :: "RPCClient list \<Rightarrow> create_pc \<Rightarrow> int option" where
  "pc_target cs (CheckTable i a) = Some i"
| "pc_target cs (CloseStale i a p) = Some i"
| "pc_target cs (Connect i a) = Some i"
| "pc_target cs (RegisterNode p) = Some (rc_nodeID (cs ! p))"
| "pc_target cs (Recheck p) = Some (rc_nodeID (cs ! p))"
| "pc_target cs (Restore p) = Some (rc_nodeID (cs ! p))"
| "pc_target cs (Publish p) = Some (rc_nodeID (cs ! p))"
| "pc_target cs (Abort p) = Some (rc_nodeID (cs ! p))"
| "pc_target cs (StartHeartbeat p) = Some (rc_nodeID (cs ! p))"
| "pc_target cs (Finish (Some p)) = Some (rc_nodeID (cs ! p))"
| "pc_target cs (Finish None) = None"

definition pc_published :: "create_pc \<Rightarrow> nat option" where
  "pc_published pc = (case pc of StartHeartbeat p \<Rightarrow> Some p | Finish r \<Rightarrow> r | _ \<Rightarrow> None)"

lemma pc_published_simps [simp]:
  "pc_published (StartHeartbeat p) = Some p" "pc_published (Finish r) = r" "pc_published (CheckTable i a) = None"
  "pc_published (CloseStale i a q) = None" "pc_published (Connect i a) = None" "pc_published (RegisterNode p) = None"
  "pc_published (Recheck p) = None" "pc_published (Restore p) = None" "pc_published (Publish p) = None"
  "pc_published (Abort p) = None"
  by (simp_all add: pc_published_def)

lemma create_frame [simp]:
  "l_id (create_step ok h pc l) = l_id l" "l_mainNodeID (create_step ok h pc l) = l_mainNodeID l"
  "l_mainAddr (create_step ok h pc l) = l_mainAddr l" "l_state (create_step ok h pc l) = l_state l"
  "l_trigger (create_step ok h pc l) = l_trigger l" "l_stop (create_step ok h pc l) = l_stop l"
  "l_lost (create_step ok h pc l) = l_lost l"
  by (cases pc; simp add: create_step_def Let_def check_table_def newRPCClient_def publish_def start_heartbeat_def
      finish_def split: option.split holder.split)+

lemma create_finish: "create_step ok h (Finish r) l = finish h r l"
  by (simp add: create_step_def)

lemma create_frame_calls:
  assumes "\<And>r. pc \<noteq> Finish r"
  shows "l_calls (create_step ok h pc l) = l_calls l" "l_recovery (create_step ok h pc l) = l_recovery l"
  using assms
  by (cases pc; simp add: create_step_def Let_def check_table_def newRPCClient_def publish_def start_heartbeat_def
      split: option.split holder.split)+

text \<open>
  A step of the creation stays with its node; a client that counts as published is in the table
  of clients, or was published before.
\<close>

lemma create_target:
  assumes "link_conn l" "l_mutex l = Held h pc" "\<And>r. pc \<noteq> Finish r" "m = create_step ok h pc l"
  obtains pc' where "l_mutex m = Held h pc'"
    "\<And>t. pc_target (l_clients m) pc' = Some t \<Longrightarrow> pc_target (l_clients l) pc = Some t"
    "\<And>p. pc_published pc' = Some p \<Longrightarrow> pc_published pc = Some p \<or>
       go_get (l_table m) (rc_nodeID (l_clients m ! p)) = Some p \<and> connected m p \<and> p < length (l_clients l)"
proof -
  have c: "conn_ok (l_clients l) (l_table l) (Held h pc)" using assms(1,2) by (simp add: link_conn_def)
  note d = conn_okD [OF c]
  show ?thesis
  proof (cases pc)
    case (CheckTable i a)
    consider (used) p where "usable l i a = Some p" | (none) "usable l i a = None" by blast
    then show ?thesis
    proof cases
      case used
      then have p: "go_get (l_table l) i = Some p" "connected l p"
        by (auto simp: usable_def split: option.splits if_splits)
      then have "rc_nodeID (l_clients l ! p) = i" using d(3) by blast
      with used p CheckTable d(2) [OF p(1)] show ?thesis
        by (intro that [of "Finish (Some p)"]) (simp_all add: assms(4) create_step_def Let_def check_table_def connected_def)
    next
      case none
      with CheckTable show ?thesis
        by (cases "go_get (l_table l) i")
          (auto simp: assms(4) create_step_def Let_def check_table_def intro!: that)
    qed
  next
    case (CloseStale i a q)
    then show ?thesis by (intro that [of "Connect i a"]) (simp_all add: assms(4) create_step_def Let_def)
  next
    case (Connect i a)
    then show ?thesis
      by (cases ok) (auto simp: assms(4) create_step_def Let_def newRPCClient_def nth_append intro!: that)
  next
    case (RegisterNode p)
    then show ?thesis by (cases ok; cases h) (auto simp: assms(4) create_step_def Let_def intro!: that)
  next
    case (Recheck p)
    then show ?thesis
      by (intro that [of "if l_state l \<noteq> nodeStateRunning \<or> l_stop l then Abort p else Restore p"])
        (auto simp: assms(4) create_step_def Let_def split: if_splits)
  next
    case (Restore p)
    then show ?thesis by (cases ok) (auto simp: assms(4) create_step_def Let_def intro!: that)
  next
    case (Publish p)
    then show ?thesis
      by (cases "connected l p")
        (auto simp: assms(4) create_step_def Let_def publish_def client_id_def connected_def intro!: that)
  next
    case (StartHeartbeat p)
    then show ?thesis
      by (intro that [of "Finish (Some p)"])
        (auto simp: assms(4) create_step_def Let_def start_heartbeat_def nth_upd split: if_splits)
  next
    case (Abort p)
    then show ?thesis by (intro that [of "Finish None"]) (simp_all add: assms(4) create_step_def Let_def)
  qed (use assms(3) in simp)
qed


definition held_inv :: "RPCClient list \<Rightarrow> call_pc list \<Rightarrow> mutex \<Rightarrow> recovery_pc \<Rightarrow> int \<Rightarrow> bool" where
  "held_inv cs calls mx rec main \<longleftrightarrow>
     (\<forall>j pc. mx = Held (Caller j) pc \<longrightarrow> (\<exists>i. j < length calls \<and> calls ! j = CallHeld i \<and>
        (\<forall>t. pc_target cs pc = Some t \<longrightarrow> t = i))) \<and>
     (\<forall>d pc. mx = Held (Recovery d) pc \<longrightarrow> rec = RecHeld \<and> (\<forall>t. pc_target cs pc = Some t \<longrightarrow> t = main)) \<and>
     (rec = RecHeld \<longrightarrow> (\<exists>d pc. mx = Held (Recovery d) pc)) \<and>
     (\<forall>h pc p. mx = Held h pc \<longrightarrow> pc_published pc = Some p \<longrightarrow> p < length cs)"

lemma held_fade:
  assumes "held_inv cs calls mx rec main" "fades cs cs'" "\<And>p. in_hand mx p \<Longrightarrow> p < length cs"
  shows "held_inv cs' calls mx rec main"
proof -
  have "pc_target cs' pc = pc_target cs pc" if "mx = Held h pc" for h pc
  proof -
    have "\<And>p. pc_client pc = Some p \<or> pc_published pc = Some p \<Longrightarrow> p < length cs"
      using that assms(1,3) unfolding held_inv_def by auto
    then have id: "rc_nodeID (cs' ! p) = rc_nodeID (cs ! p)" if "pc_client pc = Some p \<or> pc_published pc = Some p" for p
      using that assms(2) unfolding fades_def by blast
    then show ?thesis
    proof (cases pc)
      case (Finish r)
      with id show ?thesis by (cases r) simp_all
    qed simp_all
  qed
  with assms(1,2) show ?thesis unfolding held_inv_def fades_def by simp
qed

lemma held_call:
  assumes "held_inv cs calls mx rec main" "\<And>i. calls ! j \<noteq> CallHeld i" "j < length calls"
  shows "held_inv cs (calls[j := x]) mx rec main"
proof -
  have "calls[j := x] ! k = CallHeld i" if "calls ! k = CallHeld i" for k i
    using that assms(2) by (cases "k = j") auto
  with assms(1) show ?thesis unfolding held_inv_def length_list_update by blast
qed

lemma held_add: "held_inv cs calls mx rec main \<Longrightarrow> held_inv cs (calls @ [x]) mx rec main"
  unfolding held_inv_def by (auto simp: nth_append)

lemma held_rec:
  "held_inv cs calls mx rec main \<Longrightarrow> rec \<noteq> RecHeld \<Longrightarrow> rec' \<noteq> RecHeld \<Longrightarrow> held_inv cs calls mx rec' main"
  unfolding held_inv_def by blast

definition held_ok :: "link \<Rightarrow> bool" where
  "held_ok l \<longleftrightarrow> held_inv (l_clients l) (l_calls l) (l_mutex l) (l_recovery l) (l_mainNodeID l)"

lemma held_ok_fade:
  assumes "held_ok l" "link_conn l" "fades (l_clients l) (l_clients m)" "l_calls m = l_calls l"
    "l_mutex m = l_mutex l" "l_recovery m = l_recovery l" "l_mainNodeID m = l_mainNodeID l"
  shows "held_ok m"
  using held_fade [of "l_clients l"] assms conn_okD(5) unfolding held_ok_def link_conn_def by metis

lemma held_ok_create:
  assumes "held_ok l" "link_conn l" "l_mutex l = Held h pc"
  shows "held_ok (create_step ok h pc l)"
proof (cases "\<exists>r. pc = Finish r")
  case True
  then obtain r where r: "pc = Finish r" by blast
  show ?thesis
  proof (cases h)
    case (Caller j)
    with assms(1,3) r show ?thesis
      by (auto simp: create_finish finish_def held_ok_def held_inv_def)
  next
    case (Recovery d)
    with assms(1,3) r show ?thesis
      by (auto simp: create_finish finish_def held_ok_def held_inv_def)
  qed
next
  case False
  then have no: "\<And>r. pc \<noteq> Finish r" by blast
  let ?m = "create_step ok h pc l"
  from create_target [OF assms(2,3) no refl] obtain pc' where pc': "l_mutex ?m = Held h pc'"
    "\<And>t. pc_target (l_clients ?m) pc' = Some t \<Longrightarrow> pc_target (l_clients l) pc = Some t"
    "\<And>p. pc_published pc' = Some p \<Longrightarrow> pc_published pc = Some p \<or>
       go_get (l_table ?m) (rc_nodeID (l_clients ?m ! p)) = Some p \<and> connected ?m p \<and> p < length (l_clients l)"
    by metis
  have len: "length (l_clients l) \<le> length (l_clients ?m)"
    using clients_grow_create [of l ok h pc] by (simp add: clients_grow_def)
  have inv: "held_inv (l_clients l) (l_calls l) (Held h pc) (l_recovery l) (l_mainNodeID l)"
    using assms(1,3) by (simp add: held_ok_def)
  have "p < length (l_clients l)" if "pc_published pc = Some p" for p
    using inv that unfolding held_inv_def by blast
  then have pub: "p < length (l_clients ?m)" if "pc_published pc' = Some p" for p
    using pc'(3) [OF that] len less_le_trans by blast
  have "held_inv (l_clients ?m) (l_calls l) (Held h pc') (l_recovery l) (l_mainNodeID l)"
    using inv pc'(2) pub unfolding held_inv_def by (cases h) auto
  then show ?thesis by (simp add: held_ok_def pc'(1) create_frame_calls [OF no])
qed

lemma held_ok_step:
  assumes "held_ok l" "link_conn l" "link_step l e m" "l_state l = nodeStateInitial \<Longrightarrow> l_recovery l = RecDone"
  shows "held_ok m"
  using assms(3)
proof (cases rule: link_step.cases)
  case (link_Create h pc ok)
  then show ?thesis by (simp add: held_ok_create [OF assms(1,2)])
next
  case (link_Lock j i a)
  with assms(1) show ?thesis by (auto simp: held_ok_def held_inv_def)
next
  case (link_RecoverLock d)
  with assms(1) show ?thesis by (auto simp: held_ok_def held_inv_def)
next
  case link_CloseNetwork
  with assms(1) show ?thesis by (auto simp: held_ok_def held_inv_def)
next
  case (link_CloseNext p ps)
  with assms(1) show ?thesis by (auto simp: held_ok_def held_inv_def)
next
  case link_CloseDone
  with assms(1) show ?thesis by (auto simp: held_ok_def held_inv_def)
next
  case (link_Call i a)
  with assms(1) show ?thesis by (simp add: held_ok_def held_add)
next
  case (link_Cached j i a)
  with assms(1) show ?thesis by (simp add: held_ok_def held_call)
next
  case (link_State j i a)
  with assms(1) show ?thesis by (simp add: held_ok_def held_call)
next
  case link_Trigger
  with assms(1) show ?thesis by (auto simp: held_ok_def intro: held_rec)
next
  case link_RecoveryStops
  with assms(1) show ?thesis by (auto simp: held_ok_def intro: held_rec)
next
  case (link_DelayOver d)
  with assms(1) show ?thesis by (auto simp: held_ok_def intro: held_rec)
next
  case (link_DelayCut d)
  with assms(1) show ?thesis by (auto simp: held_ok_def intro: held_rec)
next
  case (link_RecoverCheck d)
  with assms(1) show ?thesis by (auto simp: held_ok_def recover_check_def intro: held_rec)
next
  case link_Start
  with assms(1,4) show ?thesis by (auto simp: held_ok_def intro: held_rec)
qed (use assms(1) in \<open>auto intro!: held_ok_fade [OF assms(1,2)] fades_upd
    simp: fades_mark_swap fades_mark_recover fades_sendHeartbeat fades_handleResult startHeartbeat_task_def
      heartbeat_callback_def\<close>)


section \<open>The phases of the node\<close>

text \<open>Nothing happens to a node before it starts, and it starts once.\<close>

definition fresh_ok :: "link \<Rightarrow> bool" where
  "fresh_ok l \<longleftrightarrow> (l_state l = nodeStateInitial \<longrightarrow> link_init l)"

lemma initial_step: "link_init l \<Longrightarrow> link_step l e m \<Longrightarrow> e = Start \<and> l_state m = nodeStateStarting"
  by (erule link_step.cases) (auto simp: link_init_def)

lemma initial_back: "link_step l e m \<Longrightarrow> l_state m = nodeStateInitial \<Longrightarrow> l_state l = nodeStateInitial"
  by (erule link_step.cases) (auto simp: startHeartbeat_task_def heartbeat_callback_def)

lemma fresh_ok_step: "fresh_ok l \<Longrightarrow> link_step l e m \<Longrightarrow> fresh_ok m"
  unfolding fresh_ok_def using initial_step initial_back by fastforce

definition recovering :: "link \<Rightarrow> bool" where
  "recovering l \<longleftrightarrow> (\<exists>d. l_recovery l = RecDelay d \<or> l_recovery l = RecCheck d \<or> l_recovery l = RecLock d) \<or>
     l_recovery l = RecHeld"

text \<open>
  The recovery loop runs from the start of a node that is not the main node until it is stopped,
  and is idle until the node is running.
\<close>

definition phase_ok :: "link \<Rightarrow> bool" where
  "phase_ok l \<longleftrightarrow>
     (l_trigger l \<or> recovering l \<longrightarrow> l_state l \<noteq> nodeStateInitial \<and> l_state l \<noteq> nodeStateStarting) \<and>
     (l_id l \<noteq> l_mainNodeID l \<longrightarrow> l_state l \<noteq> nodeStateInitial \<longrightarrow> \<not> l_stop l \<longrightarrow> l_recovery l \<noteq> RecDone)"

lemma phase_frame:
  assumes "phase_ok l" "l_trigger m = l_trigger l" "l_recovery m = l_recovery l" "l_state m = l_state l"
    "l_id m = l_id l" "l_mainNodeID m = l_mainNodeID l" "l_stop m = l_stop l"
  shows "phase_ok m"
  using assms by (simp add: phase_ok_def recovering_def)

lemma phase_create:
  assumes "phase_ok l" "held_ok l" "l_mutex l = Held h pc"
  shows "phase_ok (create_step ok h pc l)"
proof (cases "\<exists>r. pc = Finish r")
  case True
  then obtain r where "pc = Finish r" by blast
  with assms show ?thesis
    by (cases h) (auto simp: create_finish finish_def phase_ok_def recovering_def held_ok_def held_inv_def)
next
  case False
  with assms(1) create_frame_calls show ?thesis by (auto intro: phase_frame)
qed

lemma mark_recover_trigger:
  "l_trigger (mark_recover p c l) \<longleftrightarrow> l_trigger l \<or>
     client_id l p = l_mainNodeID l \<and> l_id l \<noteq> l_mainNodeID l \<and> l_state l = nodeStateRunning \<and> \<not> l_stop l"
  by (auto simp: mark_recover_def Let_def startMainRecovery_def)

lemma phase_ok_step:
  assumes "phase_ok l" "held_ok l" "fresh_ok l" "link_step l e m"
  shows "phase_ok m"
  using assms(4)
proof (cases rule: link_step.cases)
  case (link_Create h pc ok)
  then show ?thesis by (simp add: phase_create [OF assms(1,2)])
next
  case (link_MarkRecover k p c)
  with assms(1) show ?thesis by (auto simp: phase_ok_def recovering_def mark_recover_trigger)
next
  case link_Start
  with assms(1,3) show ?thesis by (auto simp: phase_ok_def recovering_def fresh_ok_def link_init_def)
next
  case link_CloseDone
  with assms(1,3) show ?thesis by (auto simp: phase_ok_def recovering_def fresh_ok_def link_init_def)
qed (use assms(1) in \<open>auto simp: phase_ok_def recovering_def recover_check_def startHeartbeat_task_def heartbeat_callback_def\<close>)


section \<open>The address of the main node\<close>

text \<open>Clients of the main node \<open>i0\<close> are created for its configured address \<open>a0\<close>.\<close>

fun call_main_ok :: "int \<Rightarrow> string \<Rightarrow> call_pc \<Rightarrow> bool" where
  "call_main_ok i0 a0 (CallCached i a) = (i = i0 \<longrightarrow> a = a0)"
| "call_main_ok i0 a0 (CallState i a) = (i = i0 \<longrightarrow> a = a0)"
| "call_main_ok i0 a0 (CallLock i a) = (i = i0 \<longrightarrow> a = a0)"
| "call_main_ok i0 a0 _ = True"

fun pc_main_ok :: "int \<Rightarrow> string \<Rightarrow> create_pc \<Rightarrow> bool" where
  "pc_main_ok i0 a0 (CheckTable i a) = (i = i0 \<longrightarrow> a = a0)"
| "pc_main_ok i0 a0 (CloseStale i a q) = (i = i0 \<longrightarrow> a = a0)"
| "pc_main_ok i0 a0 (Connect i a) = (i = i0 \<longrightarrow> a = a0)"
| "pc_main_ok i0 a0 _ = True"

definition addr_inv :: "int \<Rightarrow> string \<Rightarrow> RPCClient list \<Rightarrow> call_pc list \<Rightarrow> mutex \<Rightarrow> bool" where
  "addr_inv i0 a0 cs calls mx \<longleftrightarrow>
     (\<forall>p < length cs. rc_nodeID (cs ! p) = i0 \<longrightarrow> rc_addr (cs ! p) = a0) \<and>
     (\<forall>c \<in> set calls. call_main_ok i0 a0 c) \<and>
     (\<forall>h pc. mx = Held h pc \<longrightarrow> pc_main_ok i0 a0 pc)"

lemma addr_fade: "addr_inv i0 a0 cs calls mx \<Longrightarrow> fades cs cs' \<Longrightarrow> addr_inv i0 a0 cs' calls mx"
  unfolding addr_inv_def fades_def by simp

lemma addr_call: "addr_inv i0 a0 cs calls mx \<Longrightarrow> call_main_ok i0 a0 c \<Longrightarrow> addr_inv i0 a0 cs (calls[j := c]) mx"
  unfolding addr_inv_def using set_update_subset_insert [of calls j c] by blast

lemma addr_nth: "addr_inv i0 a0 cs calls mx \<Longrightarrow> j < length calls \<Longrightarrow> call_main_ok i0 a0 (calls ! j)"
  by (simp add: addr_inv_def)

lemma addr_mutex: "addr_inv i0 a0 cs calls mx \<Longrightarrow> (\<And>h pc. mx' = Held h pc \<Longrightarrow> pc_main_ok i0 a0 pc) \<Longrightarrow> addr_inv i0 a0 cs calls mx'"
  unfolding addr_inv_def by blast

lemma addr_new:
  "addr_inv i0 a0 cs calls mx \<Longrightarrow> (rc_nodeID c = i0 \<longrightarrow> rc_addr c = a0) \<Longrightarrow> addr_inv i0 a0 (cs @ [c]) calls mx"
  unfolding addr_inv_def by (auto simp: nth_append less_Suc_eq)

definition addr_ok :: "link \<Rightarrow> bool" where
  "addr_ok l \<longleftrightarrow> addr_inv (l_mainNodeID l) (l_mainAddr l) (l_clients l) (l_calls l) (l_mutex l)"

lemma create_main_ok:
  assumes "pc_main_ok i0 a0 pc" "\<And>r. pc \<noteq> Finish r"
  shows "\<exists>pc'. l_mutex (create_step ok h pc l) = Held h pc' \<and> pc_main_ok i0 a0 pc'"
  using assms
  by (cases pc) (auto simp: create_step_def Let_def check_table_def newRPCClient_def publish_def
      split: option.split holder.split)

lemma create_clients:
  "fades (l_clients l) (l_clients (create_step ok h pc l)) \<or>
   (\<exists>i a c. pc = Connect i a \<and> rc_nodeID c = i \<and> rc_addr c = a \<and> l_clients (create_step ok h pc l) = l_clients l @ [c])"
proof (cases pc)
  case (Connect i a)
  then show ?thesis by (cases ok) (auto simp: create_step_def Let_def newRPCClient_def)
next
  case (CheckTable i a)
  then show ?thesis by (auto simp: create_step_def Let_def check_table_def split: option.split)
qed (auto simp: create_step_def Let_def publish_def start_heartbeat_def finish_def fades_closeTransport
    split: holder.split intro!: fades_upd)

lemma addr_create:
  assumes "addr_ok l" "l_mutex l = Held h pc"
  shows "addr_ok (create_step ok h pc l)"
proof -
  let ?m = "create_step ok h pc l" and ?inv = "addr_inv (l_mainNodeID l) (l_mainAddr l)"
  have l: "?inv (l_clients l) (l_calls l) (Held h pc)" using assms by (simp add: addr_ok_def)
  then have pc: "pc_main_ok (l_mainNodeID l) (l_mainAddr l) pc" unfolding addr_inv_def by blast
  have cs: "?inv (l_clients ?m) (l_calls l) (Held h pc)"
    using create_clients [of l ok h pc] addr_fade [OF l] addr_new [OF l] pc by auto
  show ?thesis
  proof (cases "\<exists>r. pc = Finish r")
    case True
    with addr_mutex [OF cs, of Free] addr_call [of _ _ _ _ Free] show ?thesis
      by (cases h) (auto simp: addr_ok_def create_finish finish_def)
  next
    case False
    then have no: "\<And>r. pc \<noteq> Finish r" by blast
    then obtain pc' where
      "l_mutex ?m = Held h pc'" "pc_main_ok (l_mainNodeID l) (l_mainAddr l) pc'"
      using create_main_ok [OF pc no] by blast
    with addr_mutex [OF cs, of "Held h pc'"] show ?thesis by (simp add: addr_ok_def create_frame_calls [OF no])
  qed
qed

lemma addr_ok_fade:
  assumes "addr_ok l" "fades (l_clients l) (l_clients m)" "l_calls m = l_calls l" "l_mutex m = l_mutex l"
    "l_mainNodeID m = l_mainNodeID l" "l_mainAddr m = l_mainAddr l"
  shows "addr_ok m"
  using assms(1) addr_fade [OF _ assms(2)] by (simp add: addr_ok_def assms(3-6))

lemma addr_ok_step:
  assumes "addr_ok l" "link_step l e m"
  shows "addr_ok m"
  using assms(2)
proof (cases rule: link_step.cases)
  case (link_Create h pc ok)
  then show ?thesis by (simp add: addr_create [OF assms(1)])
next
  case (link_Call i a)
  with assms(1) show ?thesis by (simp add: addr_ok_def addr_inv_def)
next
  case (link_Cached j i a)
  with assms(1) addr_nth [OF assms(1) [unfolded addr_ok_def], of j] show ?thesis
    by (simp add: addr_ok_def cachedRPCClient_def addr_call split: option.split)
next
  case (link_State j i a)
  with assms(1) addr_nth [OF assms(1) [unfolded addr_ok_def], of j] show ?thesis
    by (simp add: addr_ok_def state_check_def addr_call)
next
  case (link_Lock j i a)
  with addr_nth [OF assms(1) [unfolded addr_ok_def], of j]
    addr_mutex [OF addr_call [OF assms(1) [unfolded addr_ok_def], of "CallHeld i" j], of "Held (Caller j) (CheckTable i a)"] show ?thesis
    by (simp add: addr_ok_def)
next
  case (link_CloseNext p ps)
  have "addr_ok (mark_swap p True l)" by (rule addr_ok_fade [OF assms(1) fades_mark_swap]) simp_all
  with link_CloseNext show ?thesis by (auto simp: addr_ok_def addr_inv_def)
next
  case (link_RecoverLock d)
  with assms(1) show ?thesis by (simp add: addr_ok_def addr_inv_def)
next
  case link_CloseNetwork
  with assms(1) show ?thesis by (simp add: addr_ok_def addr_inv_def)
next
  case link_CloseDone
  with assms(1) show ?thesis by (simp add: addr_ok_def addr_inv_def)
qed (auto intro!: addr_ok_fade [OF assms(1)] fades_upd
    simp: fades_mark_swap fades_mark_recover fades_sendHeartbeat fades_handleResult startHeartbeat_task_def
      heartbeat_callback_def)

section \<open>The connection to the main node\<close>

text \<open>Whoever has a client of the main node, \<open>l_linked\<close> holds.\<close>

definition linked_ok :: "link \<Rightarrow> bool" where
  "linked_ok l \<longleftrightarrow>
     (\<forall>p. go_get (l_table l) (l_mainNodeID l) = Some p \<longrightarrow> l_linked l) \<and>
     (\<forall>p. CallReturn (l_mainNodeID l) (Some p) \<in> set (l_calls l) \<longrightarrow> l_linked l) \<and>
     (\<forall>h pc p. l_mutex l = Held h pc \<longrightarrow> pc_published pc = Some p \<longrightarrow> client_id l p = l_mainNodeID l \<longrightarrow> l_linked l) \<and>
     (l_state l = nodeStateRunning \<longrightarrow> l_id l \<noteq> l_mainNodeID l \<longrightarrow> l_linked l)"

lemma linked_okD:
  assumes "linked_ok l"
  shows "go_get (l_table l) (l_mainNodeID l) = Some p \<Longrightarrow> l_linked l"
    "CallReturn (l_mainNodeID l) (Some p) \<in> set (l_calls l) \<Longrightarrow> l_linked l"
    "l_mutex l = Held h pc \<Longrightarrow> pc_published pc = Some p \<Longrightarrow> client_id l p = l_mainNodeID l \<Longrightarrow> l_linked l"
    "l_state l = nodeStateRunning \<Longrightarrow> l_id l \<noteq> l_mainNodeID l \<Longrightarrow> l_linked l"
  using assms unfolding linked_ok_def by blast+

lemma create_linked: "l_linked l \<Longrightarrow> l_linked (create_step ok h pc l)"
  by (cases pc) (auto simp: create_step_def Let_def check_table_def newRPCClient_def publish_def start_heartbeat_def
      finish_def split: option.split holder.split)

lemma linked_true: "l_linked l \<Longrightarrow> linked_ok l"
  by (simp add: linked_ok_def)

lemma linked_create:
  assumes "linked_ok l" "link_conn l" "held_ok l" "l_mutex l = Held h pc"
  shows "linked_ok (create_step ok h pc l)"
proof (cases "l_linked (create_step ok h pc l)")
  case False
  let ?m = "create_step ok h pc l"
  have no: "\<not> l_linked l" using create_linked False by blast
  note d = linked_okD [OF assms(1)]
  have none: "go_get (l_table l) (l_mainNodeID l) = None" using d(1) no by (cases "go_get (l_table l) (l_mainNodeID l)") auto
  have calls: "CallReturn (l_mainNodeID l) (Some p) \<notin> set (l_calls l)" for p using d(2) no by blast
  have pub: "rc_nodeID (l_clients l ! p) \<noteq> l_mainNodeID l" if "pc_published pc = Some p" for p
    using d(3) [OF assms(4) that] no by (auto simp: client_id_def)
  have run: "l_state l = nodeStateRunning \<longrightarrow> l_id l = l_mainNodeID l" using d(4) no by blast
  note facts = linked_ok_def client_id_def none calls run
  show ?thesis
  proof (cases pc)
    case (Finish r)
    have "CallReturn (l_mainNodeID l) (Some p) \<notin> set (l_calls ?m)" for p
    proof
      assume in_m: "CallReturn (l_mainNodeID l) (Some p) \<in> set (l_calls ?m)"
      obtain j where h: "h = Caller j"
        using in_m calls by (cases h) (auto simp: Finish create_finish finish_def)
      obtain i where i: "l_calls l ! j = CallHeld i" "\<And>t. pc_target (l_clients l) pc = Some t \<Longrightarrow> t = i"
        using assms(3,4) unfolding held_ok_def held_inv_def h by blast
      have "CallReturn (l_mainNodeID l) (Some p) \<in> set ((l_calls l)[j := CallReturn i r])"
        using in_m i(1) by (simp add: h Finish create_finish finish_def)
      then have "i = l_mainNodeID l" "r = Some p"
        using calls set_update_subset_insert [of "l_calls l" j "CallReturn i r"] by blast+
      with i(2) pub show False by (simp add: Finish)
    qed
    moreover have "l_table ?m = l_table l" "l_mutex ?m = Free"
      by (simp_all add: Finish create_finish finish_def split: holder.split)
    ultimately show ?thesis by (simp add: facts)
  next
    case (Publish p)
    with False show ?thesis
      by (cases "connected l p") (auto simp: create_step_def Let_def publish_def facts)
  next
    case (CheckTable i a)
    have "i \<noteq> l_mainNodeID l \<and> rc_nodeID (l_clients l ! p) = i" if "usable l i a = Some p" for p
      using that none conn_okD(3) [OF assms(2) [unfolded link_conn_def], of i p]
      by (auto simp: usable_def split: option.splits if_splits)
    with CheckTable show ?thesis
      by (auto simp: create_step_def Let_def check_table_def facts split: option.split)
  next
    case (StartHeartbeat p)
    with pub show ?thesis
      by (auto simp: create_step_def Let_def facts start_heartbeat_def nth_upd)
  next
    case (Connect i a)
    then show ?thesis by (auto simp: create_step_def Let_def facts newRPCClient_def)
  qed (auto simp: create_step_def Let_def facts split: holder.split)
qed (rule linked_true)

text \<open>The steps that change clients only, apart from the history, the trigger and the disconnections under way.\<close>

definition quiet :: "link \<Rightarrow> link \<Rightarrow> bool" where
  "quiet l m \<longleftrightarrow> fades (l_clients l) (l_clients m) \<and> l_table m = l_table l \<and> l_mutex m = l_mutex l \<and>
     l_calls m = l_calls l \<and> l_recovery m = l_recovery l \<and> l_state m = l_state l \<and> l_stop m = l_stop l \<and>
     l_id m = l_id l \<and> l_mainNodeID m = l_mainNodeID l \<and> l_linked m = l_linked l"

fun quiet_event :: "link_event \<Rightarrow> bool" where
  "quiet_event (Broken p) = True"
| "quiet_event (MarkRecover k) = True"
| "quiet_event (HbPost p) = True"
| "quiet_event (HbFire p err) = True"
| "quiet_event (HbDone p err) = True"
| "quiet_event (HbHandle p) = True"
| "quiet_event _ = False"

lemma quiet_event_step: "link_step l e m \<Longrightarrow> quiet_event e \<Longrightarrow> quiet l m"
  by (erule link_step.cases)
    (auto simp: quiet_def startHeartbeat_task_def heartbeat_callback_def fades_mark_swap fades_mark_recover
      fades_sendHeartbeat fades_handleResult intro!: fades_upd)

lemma linked_quiet:
  assumes "linked_ok l" "held_ok l" "quiet l m"
  shows "linked_ok m"
proof -
  have "client_id m p = client_id l p" if "l_mutex l = Held h pc" "pc_published pc = Some p" for h pc p
  proof -
    have "p < length (l_clients l)" using assms(2) that unfolding held_ok_def held_inv_def by blast
    with assms(3) show ?thesis by (simp add: fades_def quiet_def client_id_def)
  qed
  then show ?thesis using assms(1,3) unfolding linked_ok_def quiet_def by metis
qed

lemma linked_ok_step:
  assumes "linked_ok l" "link_conn l" "held_ok l" "link_step l e m"
  shows "linked_ok m"
proof (cases "quiet_event e")
  case True
  with assms quiet_event_step linked_quiet show ?thesis by blast
next
  case noise: False
  from assms(4) show ?thesis
  proof (cases rule: link_step.cases)
    case (link_Create h pc ok)
    then show ?thesis by (simp add: linked_create [OF assms(1-3)])
  next
    case (link_Cached j i a)
    then show ?thesis
      using assms(1) set_update_subset_insert [of "l_calls l" j "cachedRPCClient i a l"]
      by (auto simp: linked_ok_def client_id_def cachedRPCClient_def usable_def split: option.splits if_splits)
  next
    case (link_State j i a)
    then show ?thesis
      using assms(1) set_update_subset_insert [of "l_calls l" j "state_check i a l"]
      by (auto simp: linked_ok_def client_id_def state_check_def split: if_splits)
  next
    case (link_Lock j i a)
    then show ?thesis
      using assms(1) set_update_subset_insert [of "l_calls l" j "CallHeld i"]
      by (auto simp: linked_ok_def client_id_def)
  next
    case (link_MarkRemove k p c)
    let ?q = "(upd_client p stop_timer l)\<lparr>l_marking := (l_marking l)[k := (p, True, c)]\<rparr>"
    have "quiet l ?q" by (auto simp: quiet_def intro!: fades_upd)
    then have "linked_ok ?q" by (rule linked_quiet [OF assms(1,3)])
    then show ?thesis
      by (auto simp: link_MarkRemove(2) linked_ok_def client_id_def split: if_splits)
  qed (use assms(1) noise in \<open>simp_all add: linked_ok_def client_id_def\<close>, blast)
qed

section \<open>Recovery\<close>

definition main_up :: "link \<Rightarrow> bool" where
  "main_up l \<longleftrightarrow> (\<exists>p. go_get (l_table l) (l_mainNodeID l) = Some p \<and> connected l p)"

text \<open>The loss of a connection to the main node has not been handled yet.\<close>

definition main_marked :: "link \<Rightarrow> bool" where
  "main_marked l \<longleftrightarrow> (\<exists>p r c. (p, r, c) \<in> set (l_marking l) \<and> client_id l p = l_mainNodeID l)"

text \<open>The recovery loop is on its way to a new connection.\<close>

definition working :: "link \<Rightarrow> bool" where
  "working l \<longleftrightarrow> recovering l \<and>
     (l_recovery l = RecHeld \<longrightarrow> (\<forall>h pc. l_mutex l = Held h pc \<longrightarrow> pc_published pc = None))"

definition recover_ok :: "link \<Rightarrow> bool" where
  "recover_ok l \<longleftrightarrow> (l_id l \<noteq> l_mainNodeID l \<longrightarrow> l_linked l \<longrightarrow> \<not> l_lost l \<longrightarrow> \<not> l_stop l \<longrightarrow>
     l_state l = nodeStateStarting \<or> l_state l = nodeStateRunning \<longrightarrow>
     main_up l \<or> main_marked l \<or> l_trigger l \<or> working l)"

text \<open>A quiet step that disconnects a client leaves its disconnection to be handled.\<close>

lemma disconnect_marked:
  assumes "link_step l e m" "quiet_event e" "marking_ok l" "connected l p" "\<not> connected m p"
  shows "\<exists>r c. (p, r, c) \<in> set (l_marking m)"
  using assms(1)
proof (cases rule: link_step.cases)
  case (link_MarkRecover k q c)
  have "(q, True, c) \<in> set (l_marking l)" using link_MarkRecover(3,4) by (metis nth_mem)
  with assms(3) have "\<not> rc_connected (l_clients l ! q)" unfolding marking_ok_def by blast
  with assms(4) have "q \<noteq> p" by (auto simp: connected_def)
  with assms(4,5) show ?thesis
    by (auto simp: link_MarkRecover(2) mark_recover_def Let_def connected_def closeTransport_def split: if_splits)
next
  case (link_HbFire q err)
  with assms(4,5) show ?thesis
    by (cases "q = p") (auto simp: sendHeartbeat_def handleHeartbeatResult_def Let_def mark_swap_def connected_def split: if_splits)
next
  case (link_HbHandle q err)
  with assms(4,5) show ?thesis
    by (cases "q = p") (auto simp: handleHeartbeatResult_def Let_def mark_swap_def connected_def split: if_splits)
next
  case (link_Broken q)
  with assms(4,5) show ?thesis
    by (cases "q = p") (auto simp: mark_swap_def connected_def split: if_splits)
qed (use assms in \<open>auto simp: connected_def startHeartbeat_task_def heartbeat_callback_def nth_upd split: if_splits\<close>)

lemma handleResult_marks: "set (l_marking l) \<subseteq> set (l_marking (handleHeartbeatResult p err l))"
  by (simp add: handleHeartbeatResult_def Let_def mark_swap_marking subset_insertI)

lemma sendHeartbeat_marks: "set (l_marking l) \<subseteq> set (l_marking (sendHeartbeat p err l))"
proof -
  let ?l = "upd_client p (\<lambda>c. c\<lparr>rc_heartbeatPending := True, rc_heartbeat := HbInFlight\<rparr>) l"
  have "set (l_marking l) \<subseteq> set (l_marking (handleHeartbeatResult p err ?l))"
    using handleResult_marks [of ?l p err] by simp
  then show ?thesis by (simp add: sendHeartbeat_def Let_def)
qed

lemma quiet_marking:
  assumes "link_step l e m" "quiet_event e" "\<And>k. e \<noteq> MarkRecover k"
  shows "set (l_marking l) \<subseteq> set (l_marking m) \<and> l_trigger m = l_trigger l \<and> l_lost m = l_lost l"
  using assms(1)
  by (cases rule: link_step.cases)
    (use assms(2,3) in \<open>simp_all add: mark_swap_marking startHeartbeat_task_def heartbeat_callback_def
      handleResult_marks sendHeartbeat_marks subset_insertI\<close>)

lemma quiet_up:
  assumes "link_step l e m" "quiet_event e" "marking_ok l" "link_conn l" "main_up l"
  shows "main_up m \<or> main_marked m"
proof -
  note q = quiet_event_step [OF assms(1,2)]
  from assms(5) obtain p where p: "go_get (l_table l) (l_mainNodeID l) = Some p" "connected l p"
    by (auto simp: main_up_def)
  have id: "client_id m p = l_mainNodeID m"
    using conn_okD(3) [OF assms(4) [unfolded link_conn_def] p(1)] p(2) q
    by (simp add: quiet_def fades_def connected_def client_id_def)
  show ?thesis
  proof (cases "connected m p")
    case True
    with p(1) q show ?thesis by (auto simp: main_up_def quiet_def)
  next
    case False
    with disconnect_marked [OF assms(1-3) p(2)] id show ?thesis by (auto simp: main_marked_def)
  qed
qed

lemma quiet_id: "quiet l m \<Longrightarrow> p < length (l_clients l) \<Longrightarrow> client_id m p = client_id l p"
  by (simp add: quiet_def fades_def client_id_def)

lemma quiet_working: "quiet l m \<Longrightarrow> working m = working l"
  by (simp add: quiet_def working_def recovering_def)

lemma mark_recover_lost: "l_lost (mark_recover p c l) \<longleftrightarrow> l_lost l \<or> client_id l p = l_mainNodeID l \<and> l_state l = nodeStateStarting"
  by (auto simp: mark_recover_def Let_def)

lemma recover_quiet:
  assumes "recover_ok l" "marking_ok l" "link_conn l" "link_step l e m" "quiet_event e"
  shows "recover_ok m"
proof (cases "\<exists>k. e = MarkRecover k")
  case False
  then have "\<And>k. e \<noteq> MarkRecover k" by blast
  note mono = quiet_marking [OF assms(4,5) this] and q = quiet_event_step [OF assms(4,5)]
  have "main_marked l \<Longrightarrow> main_marked m"
    using mono quiet_id [OF q] assms(2) q unfolding main_marked_def marking_ok_def quiet_def by (metis subsetD)
  with assms(1) mono q quiet_working [OF q] quiet_up [OF assms(4,5,2,3)] show ?thesis
    unfolding recover_ok_def quiet_def by auto
next
  case True
  then obtain k where e: "e = MarkRecover k" by blast
  from assms(4) [unfolded e] obtain p c where k: "k < length (l_marking l)" "l_marking l ! k = (p, True, c)"
    "m = (mark_recover p c l)\<lparr>l_marking := drop_nth k (l_marking l)\<rparr>"
    by (cases rule: link_step.cases) auto
  note q = quiet_event_step [OF assms(4,5)]
  have "main_marked m \<or> client_id l p = l_mainNodeID l" if "main_marked l"
  proof -
    from that obtain r s d where r: "(r, s, d) \<in> set (l_marking l)" "client_id l r = l_mainNodeID l"
      by (auto simp: main_marked_def)
    then have "client_id m r = l_mainNodeID m" using assms(2) quiet_id [OF q] q unfolding marking_ok_def quiet_def by metis
    moreover have "(r, s, d) = (p, True, c) \<or> (r, s, d) \<in> set (l_marking m)"
      using r(1) drop_nth_set [OF k(1)] k(2,3) by auto
    ultimately show ?thesis using r(2) by (auto simp: main_marked_def)
  qed
  moreover have "l_trigger m \<longleftrightarrow> l_trigger l \<or>
      client_id l p = l_mainNodeID l \<and> l_id l \<noteq> l_mainNodeID l \<and> l_state l = nodeStateRunning \<and> \<not> l_stop l"
    "l_lost m \<longleftrightarrow> l_lost l \<or> client_id l p = l_mainNodeID l \<and> l_state l = nodeStateStarting"
    by (simp_all add: k(3) mark_recover_trigger mark_recover_lost)
  ultimately show ?thesis
    using assms(1) q quiet_working [OF q] quiet_up [OF assms(4,5,2,3)] unfolding recover_ok_def quiet_def by auto
qed

lemma create_up:
  assumes "link_conn l" "addr_ok l" "l_mutex l = Held h pc" "main_up l"
  shows "main_up (create_step ok h pc l)"
proof -
  note d = conn_okD [OF assms(1) [unfolded link_conn_def]]
  from assms(4) obtain p where p: "go_get (l_table l) (l_mainNodeID l) = Some p" "connected l p"
    by (auto simp: main_up_def)
  have out: "pc_client pc \<noteq> Some p" using d(6) [of p] p(1) assms(3) by auto
  have plen: "p < length (l_clients l)" using p(2) by (simp add: connected_def)
  have "go_get (l_table (create_step ok h pc l)) (l_mainNodeID l) = Some p \<and> connected (create_step ok h pc l) p"
  proof (cases pc)
    case (CheckTable i a)
    have "usable l i a = Some p" if "i = l_mainNodeID l"
    proof -
      have "a = l_mainAddr l" using assms(2,3) that CheckTable by (simp add: addr_ok_def addr_inv_def)
      moreover have "rc_addr (l_clients l ! p) = l_mainAddr l"
        using assms(2) d(3) [OF p(1)] plen by (simp add: addr_ok_def addr_inv_def)
      ultimately show ?thesis using p that by (simp add: usable_def)
    qed
    then show ?thesis
      using p CheckTable by (cases "i = l_mainNodeID l")
        (auto simp: create_step_def Let_def check_table_def connected_def split: option.split)
  next
    case (Publish r)
    have "client_id l r \<noteq> l_mainNodeID l"
      using d(7) [OF assms(3), of "client_id l r"] p(1) by (auto simp: Publish client_id_def)
    with p Publish show ?thesis by (auto simp: create_step_def Let_def publish_def connected_def)
  next
    case (Connect i a)
    with p plen show ?thesis by (auto simp: create_step_def Let_def newRPCClient_def connected_def nth_append)
  next
    case (CloseStale i a r)
    with p out show ?thesis by (auto simp: create_step_def Let_def connected_def closeTransport_def)
  next
    case (Abort r)
    with p out show ?thesis by (auto simp: create_step_def Let_def connected_def closeTransport_def)
  qed (use p in \<open>auto simp: create_step_def Let_def finish_def start_heartbeat_def connected_def nth_upd split: holder.split\<close>)
  then show ?thesis by (auto simp: main_up_def)
qed

lemma create_linked_up:
  assumes "\<not> l_linked l" "l_linked (create_step ok h pc l)"
  shows "main_up (create_step ok h pc l)"
proof (cases pc)
  case (Publish p)
  with assms show ?thesis by (auto simp: create_step_def Let_def publish_def main_up_def connected_def split: if_splits)
qed (use assms in \<open>auto simp: create_step_def Let_def check_table_def newRPCClient_def start_heartbeat_def finish_def
    split: option.splits holder.splits if_splits\<close>)

lemma recover_advance:
  assumes "recover_ok l" "link_conn l" "addr_ok l" "held_ok l" "marking_ok l" "l_mutex l = Held h pc" "\<And>r. pc \<noteq> Finish r"
  shows "recover_ok (create_step ok h pc l)"
proof -
  let ?m = "create_step ok h pc l"
  from create_target [OF assms(2,6,7) refl] obtain pc' where pc': "l_mutex ?m = Held h pc'"
    "\<And>t. pc_target (l_clients ?m) pc' = Some t \<Longrightarrow> pc_target (l_clients l) pc = Some t"
    "\<And>p. pc_published pc' = Some p \<Longrightarrow> pc_published pc = Some p \<or>
       go_get (l_table ?m) (rc_nodeID (l_clients ?m ! p)) = Some p \<and> connected ?m p \<and> p < length (l_clients l)"
    by metis
  have marked: "main_marked ?m" if "main_marked l"
  proof -
    from that obtain p r c where p: "(p, r, c) \<in> set (l_marking l)" "client_id l p = l_mainNodeID l"
      by (auto simp: main_marked_def)
    have "p < length (l_clients l)" using p(1) assms(5) unfolding marking_ok_def by blast
    with p(2) clients_grow_create [of l ok h pc] have "client_id ?m p = l_mainNodeID l"
      by (simp add: clients_grow_def client_id_def)
    with p(1) show ?thesis by (auto simp: main_marked_def)
  qed
  have work: "main_up ?m \<or> working ?m" if "working l"
  proof (cases "l_recovery l = RecHeld \<and> pc_published pc' \<noteq> None")
    case True
    then obtain p where p: "pc_published pc' = Some p" by auto
    from True assms(4,6) obtain d where h: "h = Recovery d"
      and t: "\<And>t. pc_target (l_clients l) pc = Some t \<Longrightarrow> t = l_mainNodeID l"
      unfolding held_ok_def held_inv_def by (metis mutex.inject(1))
    have "pc_published pc = None" using that True assms(6) by (simp add: working_def)
    with pc'(3) [OF p] have in_m: "go_get (l_table ?m) (rc_nodeID (l_clients ?m ! p)) = Some p" "connected ?m p" by simp_all
    have "pc_target (l_clients ?m) pc' = Some (rc_nodeID (l_clients ?m ! p))"
      using p by (cases pc') auto
    with pc'(2) t have "rc_nodeID (l_clients ?m ! p) = l_mainNodeID l" by blast
    with in_m show ?thesis by (auto simp: main_up_def)
  next
    case False
    with that pc'(1) have "working ?m" by (auto simp: working_def recovering_def create_frame_calls [OF assms(7)])
    then show ?thesis ..
  qed
  show ?thesis
    using assms(1) marked work create_up [OF assms(2,3,6)] create_linked_up [of l ok h pc]
    by (auto simp: recover_ok_def)
qed

lemma recover_finish:
  assumes "recover_ok l" "held_ok l" "l_mutex l = Held h (Finish r)"
  shows "recover_ok (finish h r l)"
proof -
  have same: "main_up (finish h r l) = main_up l" "main_marked (finish h r l) = main_marked l"
    by (cases h; simp add: finish_def main_up_def main_marked_def connected_def client_id_def)+
  have work: "working (finish h r l)" if "working l"
  proof (cases h)
    case (Caller j)
    with assms(2,3) have "l_recovery l \<noteq> RecHeld" by (auto simp: held_ok_def held_inv_def)
    with that show ?thesis by (simp add: Caller finish_def working_def recovering_def)
  next
    case (Recovery d)
    with assms(2,3) have "l_recovery l = RecHeld" by (auto simp: held_ok_def held_inv_def)
    with that assms(3) have "r = None" by (simp add: working_def)
    with Recovery show ?thesis by (simp add: finish_def working_def recovering_def)
  qed
  have frame: "l_id (finish h r l) = l_id l" "l_mainNodeID (finish h r l) = l_mainNodeID l" "l_linked (finish h r l) = l_linked l"
    "l_lost (finish h r l) = l_lost l" "l_stop (finish h r l) = l_stop l" "l_state (finish h r l) = l_state l"
    "l_trigger (finish h r l) = l_trigger l"
    by (simp_all add: finish_def split: holder.split)
  show ?thesis using assms(1) work unfolding recover_ok_def same frame by blast
qed

lemma recover_ok_step:
  assumes "recover_ok l" "link_conn l" "addr_ok l" "held_ok l" "marking_ok l" "phase_ok l" "fresh_ok l" "link_step l e m"
  shows "recover_ok m"
proof (cases "quiet_event e")
  case True
  with recover_quiet [OF assms(1,5,2,8)] show ?thesis .
next
  case noise: False
  note defs = recover_ok_def main_up_def main_marked_def connected_def client_id_def working_def recovering_def
  from assms(8) show ?thesis
  proof (cases rule: link_step.cases)
    case (link_Create h pc ok)
    then show ?thesis
      using recover_advance [OF assms(1-5)] recover_finish [OF assms(1,4)] by (metis create_finish)
  next
    case (link_MarkRemove k p c)
    have in_l: "(p, False, c) \<in> set (l_marking l)" using link_MarkRemove(3,4) by (metis nth_mem)
    with assms(5) have p: "\<not> rc_connected (l_clients l ! p)" "p < length (l_clients l)" unfolding marking_ok_def by blast+
    have "main_up m" if "main_up l"
      using that p by (auto simp: link_MarkRemove(2) main_up_def connected_def nth_upd) 
    moreover have "main_marked m" if "main_marked l"
    proof -
      from that obtain q r d where q: "(q, r, d) \<in> set (l_marking l)" "client_id l q = l_mainNodeID l"
        by (auto simp: main_marked_def)
      from q(1) obtain k' where "k' < length (l_marking l)" "l_marking l ! k' = (q, r, d)" by (metis in_set_conv_nth)
      then have "\<exists>r d. l_marking m ! k' = (q, r, d) \<and> k' < length (l_marking m)"
        using link_MarkRemove(2-4) by (cases "k' = k") auto
      then have "\<exists>r d. (q, r, d) \<in> set (l_marking m)" by (metis nth_mem)
      moreover have "client_id m q = l_mainNodeID m" using q(2) by (simp add: link_MarkRemove(2) client_id_def nth_upd)
      ultimately show ?thesis unfolding main_marked_def by blast
    qed
    ultimately show ?thesis
      using assms(1) by (auto simp: link_MarkRemove(2) recover_ok_def working_def recovering_def)
  next
    case (link_CloseNext p ps)
    have "go_get (l_table l) i \<noteq> Some p" for i
      using conn_okD(6) [OF assms(2) [unfolded link_conn_def], of p i] link_CloseNext(3) by simp
    then have "main_up m" if "main_up l"
    proof -
      from that obtain q where q: "go_get (l_table l) (l_mainNodeID l) = Some q" "connected l q" by (auto simp: main_up_def)
      with \<open>\<And>i. go_get (l_table l) i \<noteq> Some p\<close> have "q \<noteq> p" by metis
      with q have "connected m q" by (auto simp: link_CloseNext(2) connected_def mark_swap_def closeTransport_def)
      with q(1) show ?thesis by (auto simp: main_up_def link_CloseNext(2))
    qed
    moreover have "main_marked m" if "main_marked l"
      using that by (auto simp: link_CloseNext(2) main_marked_def client_id_def mark_swap_def closeTransport_def nth_upd)
    ultimately show ?thesis
      using assms(1) link_CloseNext(3) by (auto simp: link_CloseNext(2) recover_ok_def working_def recovering_def)
  next
    case (link_RecoverCheck d)
    with assms(1,6) show ?thesis by (auto simp: defs recover_check_def phase_ok_def)
  next
    case link_Start
    with assms(7) show ?thesis by (simp add: recover_ok_def fresh_ok_def link_init_def)
  qed (use assms(1) noise in \<open>auto simp: defs\<close>)
qed

end
