(* ===== verification/Main_Heartbeat.thy ===== *)
theory Main_Heartbeat
  imports Main_Link_Inv
begin

text \<open>
  The heartbeat of a connection in the table of clients never stops: a closure, an armed timer, a
  request or its result is always on its way.
\<close>

section \<open>Heartbeats\<close>

text \<open>
  \<^verbatim>\<open>heartbeatPending\<close> of a connected client tells whether a heartbeat has been sent and its
  result is not handled yet.
\<close>

definition beat_ok :: "RPCClient \<Rightarrow> bool" where
  "beat_ok c \<longleftrightarrow> (rc_connected c \<longrightarrow>
     (rc_heartbeatPending c \<longleftrightarrow> rc_heartbeat c = HbInFlight \<or> (\<exists>e. rc_heartbeat c = HbResult e)))"

text \<open>A client that has not been published has no heartbeat; the holder has it in hand.\<close>

fun pc_silent :: "create_pc \<Rightarrow> nat option" where
  "pc_silent (RegisterNode p) = Some p"
| "pc_silent (Recheck p) = Some p"
| "pc_silent (Restore p) = Some p"
| "pc_silent (Publish p) = Some p"
| "pc_silent (StartHeartbeat p) = Some p"
| "pc_silent _ = None"

definition silent :: "RPCClient \<Rightarrow> bool" where
  "silent c \<longleftrightarrow> rc_heartbeat c = HbNone \<and> \<not> rc_heartbeatPending c"

definition beats_inv :: "RPCClient list \<Rightarrow> (int, nat) gomap \<Rightarrow> mutex \<Rightarrow> bool" where
  "beats_inv cs tab mx \<longleftrightarrow>
     (\<forall>p < length cs. beat_ok (cs ! p)) \<and>
     (\<forall>i p. go_get tab i = Some p \<longrightarrow> conn cs p \<longrightarrow> rc_heartbeat (cs ! p) = HbNone \<longrightarrow>
        (\<exists>h. mx = Held h (StartHeartbeat p))) \<and>
     (\<forall>h pc p. mx = Held h pc \<longrightarrow> pc_silent pc = Some p \<longrightarrow> p < length cs \<and> silent (cs ! p))"

text \<open>What may become of a client without its heartbeat stopping.\<close>

definition beat_step :: "RPCClient \<Rightarrow> RPCClient \<Rightarrow> bool" where
  "beat_step c c' \<longleftrightarrow> (rc_connected c' \<longrightarrow> rc_connected c) \<and> (beat_ok c \<longrightarrow> beat_ok c') \<and> (silent c \<longrightarrow> silent c') \<and>
     (beat_ok c \<longrightarrow> rc_connected c' \<longrightarrow> rc_heartbeat c' = HbNone \<longrightarrow> rc_heartbeat c = HbNone)"

lemma beat_step_refl [simp]: "beat_step c c"
  by (simp add: beat_step_def)

lemma beat_step_off: "\<not> rc_connected c' \<Longrightarrow> (silent c \<Longrightarrow> silent c') \<Longrightarrow> beat_step c c'"
  by (simp add: beat_step_def beat_ok_def)

lemma beats_upd:
  assumes "beats_inv cs tab mx" "beat_step (cs ! p) c"
  shows "beats_inv (cs[p := c]) tab mx"
  using assms unfolding beats_inv_def beat_step_def
  by (auto simp: nth_upd conn_def)

lemma silent_stop [simp]: "silent c \<Longrightarrow> silent (stop_timer c)"
  by (simp add: silent_def stop_timer_def)

lemma beats_closeTransport: "beats_inv (l_clients l) tab mx \<Longrightarrow> beats_inv (l_clients (closeTransport p l)) tab mx"
  unfolding closeTransport_def upd_client_simps
  by (erule beats_upd, rule beat_step_off) (simp_all add: silent_def stop_timer_def)

lemma beats_mark_swap: "beats_inv (l_clients l) tab mx \<Longrightarrow> beats_inv (l_clients (mark_swap p c l)) tab mx"
  by (auto simp: mark_swap_def beats_closeTransport silent_def intro!: beats_upd beat_step_off)

lemma beats_mark_recover: "beats_inv (l_clients l) tab mx \<Longrightarrow> beats_inv (l_clients (mark_recover p c l)) tab mx"
  using beats_closeTransport [of "(startMainRecovery (invalidateAll l))\<lparr>l_lost := l_lost l \<or> l_state l = nodeStateStarting\<rparr>" tab mx p]
  by (simp add: mark_recover_def Let_def beats_closeTransport)

definition beats_ok :: "link \<Rightarrow> bool" where
  "beats_ok l \<longleftrightarrow> beats_inv (l_clients l) (l_table l) (l_mutex l)"

lemma handleResult_client:
  assumes "p < length (l_clients l)" "rc_heartbeat (l_clients l ! p) = HbResult e0 \<or> rc_heartbeat (l_clients l ! p) = HbInFlight"
  shows "\<exists>c. l_clients (handleHeartbeatResult p err l) = (l_clients l)[p := c] \<and> beat_step (l_clients l ! p) c"
  using assms
  by (auto simp: handleHeartbeatResult_def Let_def mark_swap_def connected_def closeTransport_def beat_step_def
      beat_ok_def silent_def)

lemma beats_handle:
  assumes "beats_inv (l_clients l) tab mx" "p < length (l_clients l)"
    "rc_heartbeat (l_clients l ! p) = HbResult e0 \<or> rc_heartbeat (l_clients l ! p) = HbInFlight"
  shows "beats_inv (l_clients (handleHeartbeatResult p err l)) tab mx"
  using handleResult_client [OF assms(2,3)] beats_upd [OF assms(1)] by metis

lemma beats_send:
  assumes "beats_inv (l_clients l) tab mx" "p < length (l_clients l)" "rc_heartbeat (l_clients l ! p) = HbArmed"
  shows "beats_inv (l_clients (sendHeartbeat p err l)) tab mx"
proof -
  let ?l = "upd_client p (\<lambda>c. c\<lparr>rc_heartbeatPending := True, rc_heartbeat := HbInFlight\<rparr>) l"
  have ok: "beat_ok (l_clients l ! p)" using assms(1,2) by (simp add: beats_inv_def)
  have "beats_inv (l_clients ?l) tab mx"
    unfolding upd_client_simps
    by (rule beats_upd [OF assms(1)]) (use assms(3) in \<open>simp add: beat_step_def beat_ok_def silent_def\<close>)
  moreover from this have "beats_inv (l_clients (handleHeartbeatResult p err ?l)) tab mx"
    by (rule beats_handle) (use assms(2) in simp_all)
  moreover have "beats_inv (l_clients (upd_client p (\<lambda>c. c\<lparr>rc_heartbeat := HbNone\<rparr>) l)) tab mx"
    if "\<not> rc_connected (l_clients l ! p)"
    unfolding upd_client_simps
    by (rule beats_upd [OF assms(1)]) (use that assms(3) in \<open>simp add: beat_step_def beat_ok_def silent_def\<close>)
  ultimately show ?thesis
    using ok assms(3) by (auto simp: sendHeartbeat_def Let_def beat_ok_def)
qed

lemma beats_advance:
  assumes "beats_inv cs tab (Held h pc)" "\<And>p. pc \<noteq> StartHeartbeat p" "pc_silent pc' = None \<or> pc_silent pc' = pc_silent pc"
  shows "beats_inv cs tab (Held h' pc')"
  using assms unfolding beats_inv_def by auto

lemma beats_create:
  assumes "beats_ok l" "link_conn l" "l_mutex l = Held h pc"
  shows "beats_ok (create_step ok h pc l)"
proof -
  have b: "beats_inv (l_clients l) (l_table l) (Held h pc)" using assms(1,3) by (simp add: beats_ok_def)
  note d = conn_okD [OF assms(2) [unfolded link_conn_def]]
  show ?thesis
  proof (cases pc)
    case (CheckTable i a)
    with b show ?thesis
      by (auto simp: create_step_def Let_def check_table_def beats_ok_def beats_inv_def split: option.split if_splits)
  next
    case (CloseStale i a q)
    then have "beats_inv (l_clients l) (l_table l) (Held h (Connect i a))" by (intro beats_advance [OF b]) simp_all
    with CloseStale show ?thesis by (simp add: create_step_def Let_def beats_ok_def beats_closeTransport)
  next
    case (Connect i a)
    then have "beats_inv (l_clients l) (l_table l) (Held h (Finish None))" by (intro beats_advance [OF b]) simp_all
    moreover have "beats_inv (l_clients l @ [c]) (l_table l) (Held h (RegisterNode (length (l_clients l))))"
      if "silent c" for c
      using b that d(2) unfolding beats_inv_def
      by (auto simp: Connect nth_append less_Suc_eq beat_ok_def silent_def conn_def)
    ultimately show ?thesis
      by (auto simp: Connect create_step_def Let_def newRPCClient_def beats_ok_def silent_def)
  next
    case (Publish p)
    with b show ?thesis
      by (auto simp: create_step_def Let_def publish_def beats_ok_def beats_inv_def split: if_splits)
  next
    case (StartHeartbeat p)
    have "p < length (l_clients l)" "silent (l_clients l ! p)" "beat_ok (l_clients l ! p)"
      using b StartHeartbeat by (auto simp: beats_inv_def)
    with b StartHeartbeat show ?thesis
      by (auto simp: create_step_def Let_def start_heartbeat_def beats_ok_def beats_inv_def nth_upd beat_ok_def silent_def conn_def)
  next
    case (Abort p)
    then have "beats_inv (l_clients l) (l_table l) (Held h (Finish None))" by (intro beats_advance [OF b]) simp_all
    with Abort show ?thesis by (simp add: create_step_def Let_def beats_ok_def beats_closeTransport)
  next
    case (Finish r)
    with b show ?thesis by (auto simp: create_step_def finish_def beats_ok_def beats_inv_def split: holder.split)
  qed (use b in \<open>auto simp: create_step_def Let_def beats_ok_def split: holder.split intro!: beats_advance [OF b]\<close>)
qed

lemma beats_ok_step:
  assumes "beats_ok l" "link_conn l" "marking_ok l" "link_step l e m"
  shows "beats_ok m"
  using assms(4)
proof (cases rule: link_step.cases)
  case (link_Create h pc ok)
  then show ?thesis by (simp add: beats_create [OF assms(1,2)])
next
  case (link_MarkRemove k p c)
  have "(p, False, c) \<in> set (l_marking l)" using link_MarkRemove(3,4) by (metis nth_mem)
  with assms(3) have "\<not> rc_connected (l_clients l ! p)" unfolding marking_ok_def by blast
  then have "beats_inv (l_clients m) (l_table l) (l_mutex l)"
    using beats_upd [OF assms(1) [unfolded beats_ok_def], of p "stop_timer (l_clients l ! p)"]
    by (simp add: link_MarkRemove(2) beat_step_off)
  then show ?thesis
    by (auto simp: link_MarkRemove(2) beats_ok_def beats_inv_def split: if_splits)
next
  case (link_HbPost p)
  with assms(1) show ?thesis
    by (auto simp: beats_ok_def startHeartbeat_task_def beat_step_def beat_ok_def silent_def intro!: beats_upd)
next
  case (link_HbDone p err)
  with assms(1) show ?thesis
    by (auto simp: beats_ok_def heartbeat_callback_def beat_step_def beat_ok_def silent_def intro!: beats_upd)
next
  case (link_HbFire p err)
  with assms(1) show ?thesis by (simp add: beats_ok_def beats_send)
next
  case (link_HbHandle p err)
  with assms(1) show ?thesis by (simp add: beats_ok_def beats_handle)
next
  case (link_CloseNext p ps)
  with assms(1) have "beats_inv (l_clients (mark_swap p True l)) (l_table l) (Closing (p # ps))"
    by (simp add: beats_ok_def beats_mark_swap)
  with link_CloseNext(2) show ?thesis by (auto simp: beats_ok_def beats_inv_def)
qed (use assms(1) in \<open>auto simp: beats_ok_def beats_mark_swap beats_mark_recover\<close>, auto simp: beats_inv_def)

end
