(* ===== verification/Main_Properties.thy ===== *)
theory Main_Properties
  imports Main_Recovery Main_Heartbeat
begin

text \<open>
  The properties of the connections of a node, with runs that show that they are about something.
\<close>

section \<open>Clients in hand\<close>

text \<open>The table has no client of a node whose client is being created or closed.\<close>

definition hand_inv :: "RPCClient list \<Rightarrow> (int, nat) gomap \<Rightarrow> mutex \<Rightarrow> bool" where
  "hand_inv cs tab mx \<longleftrightarrow>
     (\<forall>p. in_hand mx p \<longrightarrow> go_get tab (rc_nodeID (cs ! p)) = None) \<and>
     (\<forall>p q. in_hand mx p \<longrightarrow> in_hand mx q \<longrightarrow> rc_nodeID (cs ! p) = rc_nodeID (cs ! q) \<longrightarrow> p = q)"

definition hand_ok :: "link \<Rightarrow> bool" where
  "hand_ok l \<longleftrightarrow> hand_inv (l_clients l) (l_table l) (l_mutex l)"

lemma hand_fade:
  assumes "hand_inv cs tab mx" "fades cs cs'" "\<And>p. in_hand mx p \<Longrightarrow> p < length cs"
  shows "hand_inv cs' tab mx"
  using assms unfolding hand_inv_def fades_def by metis

lemma hand_none: "(\<And>p. \<not> in_hand mx p) \<Longrightarrow> hand_inv cs tab mx"
  by (simp add: hand_inv_def)

lemma hand_create:
  assumes "hand_ok l" "link_conn l" "l_mutex l = Held h pc"
  shows "hand_ok (create_step ok h pc l)"
proof -
  have c: "conn_ok (l_clients l) (l_table l) (Held h pc)" using assms(2,3) by (simp add: link_conn_def)
  note d = conn_okD [OF c]
  have hand: "go_get (l_table l) (rc_nodeID (l_clients l ! p)) = None" if "pc_client pc = Some p" for p
    using assms(1,3) that by (simp add: hand_ok_def hand_inv_def)
  show ?thesis
  proof (cases pc)
    case (CheckTable i a)
    have "rc_nodeID (l_clients l ! q) = i" if "go_get (l_table l) i = Some q" for q using d(3) [OF that] .
    then show ?thesis
      using d(1) by (auto simp: CheckTable create_step_def Let_def check_table_def hand_ok_def hand_inv_def split: option.split)
  next
    case (Connect i a)
    with d(7) show ?thesis
      by (auto simp: create_step_def Let_def newRPCClient_def hand_ok_def hand_inv_def)
  next
    case (Publish p)
    with hand show ?thesis
      by (auto simp: create_step_def Let_def publish_def hand_ok_def hand_inv_def)
  qed (use hand in \<open>auto simp: create_step_def Let_def hand_ok_def finish_def hand_inv_def split: holder.split\<close>)
qed

lemma hand_ok_step:
  assumes "hand_ok l" "link_conn l" "link_step l e m"
  shows "hand_ok m"
proof (cases "quiet_event e")
  case True
  with quiet_event_step [OF assms(3)] assms(1) hand_fade [of "l_clients l"] conn_okD(5) [OF assms(2) [unfolded link_conn_def]]
  show ?thesis by (simp add: quiet_def hand_ok_def)
next
  case noise: False
  note d = conn_okD [OF assms(2) [unfolded link_conn_def]]
  from assms(3) show ?thesis
  proof (cases rule: link_step.cases)
    case (link_Create h pc ok)
    then show ?thesis by (simp add: hand_create [OF assms(1,2)])
  next
    case (link_MarkRemove k p c)
    have "hand_inv (l_clients m) (l_table l) (l_mutex l)"
      unfolding link_MarkRemove(2) by (rule hand_fade [OF assms(1) [unfolded hand_ok_def]]) (auto intro!: fades_upd d(5))
    then show ?thesis using d(1) by (auto simp: link_MarkRemove(2) hand_ok_def hand_inv_def)
  next
    case link_CloseNetwork
    have "p = q" if "in_hand (Closing (map snd (l_table l))) p" "in_hand (Closing (map snd (l_table l))) q"
      "rc_nodeID (l_clients l ! p) = rc_nodeID (l_clients l ! q)" for p q
    proof -
      from that(1,2) obtain i j where "(i, p) \<in> set (l_table l)" "(j, q) \<in> set (l_table l)" by auto
      then have "go_get (l_table l) i = Some p" "go_get (l_table l) j = Some q" using d(1) by (simp_all add: go_get_in_set)
      with d(3) [of i p] d(3) [of j q] that(3) show ?thesis by simp
    qed
    then show ?thesis by (auto simp: link_CloseNetwork(2) hand_ok_def hand_inv_def)
  next
    case (link_CloseNext p ps)
    have "hand_inv (l_clients (mark_swap p True l)) (l_table l) (l_mutex l)"
      by (rule hand_fade [OF assms(1) [unfolded hand_ok_def] fades_mark_swap d(5)])
    then show ?thesis by (auto simp: link_CloseNext(2,3) hand_ok_def hand_inv_def)
  qed (use assms(1) noise in \<open>auto simp: hand_ok_def intro: hand_none\<close>)
qed

section \<open>Reachable states\<close>

definition link_inv :: "link \<Rightarrow> bool" where
  "link_inv l \<longleftrightarrow> link_conn l \<and> marking_ok l \<and> hand_ok l \<and> held_ok l \<and> fresh_ok l \<and> phase_ok l \<and> addr_ok l \<and>
     linked_ok l \<and> recover_ok l \<and> beats_ok l"

lemma link_inv_init: "link_init l \<Longrightarrow> link_inv l"
  by (auto simp: link_inv_def link_init_def link_conn_def conn_ok_def conn_def marking_ok_def hand_ok_def hand_inv_def
      held_ok_def held_inv_def fresh_ok_def phase_ok_def recovering_def addr_ok_def addr_inv_def linked_ok_def
      recover_ok_def beats_ok_def beats_inv_def)

lemma link_inv_step: "link_inv l \<Longrightarrow> link_step l e m \<Longrightarrow> link_inv m"
  unfolding link_inv_def
  by (intro conjI link_conn_step [of l e m] marking_ok_step [of l e m] hand_ok_step [of l e m] held_ok_step [of l e m]
      fresh_ok_step [of l e m] phase_ok_step [of l e m] addr_ok_step [of l e m] linked_ok_step [of l e m]
      recover_ok_step [of l e m] beats_ok_step [of l e m]) (auto simp: fresh_ok_def link_init_def)

interpretation node_link: inductive_invariant link_init link_step link_inv
  by unfold_locales (fact link_inv_init, fact link_inv_step)

section \<open>Runs\<close>

text \<open>The steps as a function, to compute runs.\<close>

fun link_exec :: "link \<Rightarrow> link_event \<Rightarrow> link option" where
  "link_exec l (Call i a) =
     (if l_state l \<noteq> nodeStateInitial \<and> i \<noteq> l_id l \<and> (i = l_mainNodeID l \<longrightarrow> a = l_mainAddr l)
      then Some (l\<lparr>l_calls := l_calls l @ [CallCached i a]\<rparr>) else None)"
| "link_exec l (Advance j) =
     (if j < length (l_calls l) then
        (case l_calls l ! j of
           CallCached i a \<Rightarrow> Some (l\<lparr>l_calls := (l_calls l)[j := cachedRPCClient i a l]\<rparr>)
         | CallState i a \<Rightarrow> Some (l\<lparr>l_calls := (l_calls l)[j := state_check i a l]\<rparr>)
         | _ \<Rightarrow> None)
      else None)"
| "link_exec l (Lock j) =
     (if j < length (l_calls l) \<and> l_mutex l = Free then
        (case l_calls l ! j of
           CallLock i a \<Rightarrow> Some (l\<lparr>l_calls := (l_calls l)[j := CallHeld i], l_mutex := Held (Caller j) (CheckTable i a)\<rparr>)
         | _ \<Rightarrow> None)
      else None)"
| "link_exec l (Create ok) = (case l_mutex l of Held h pc \<Rightarrow> Some (create_step ok h pc l) | _ \<Rightarrow> None)"
| "link_exec l TriggerTaken =
     (if l_recovery l = RecIdle \<and> l_trigger l then Some (l\<lparr>l_trigger := False, l_recovery := RecDelay 0\<rparr>) else None)"
| "link_exec l RecoveryStops =
     (if l_recovery l = RecIdle \<and> l_stop l then Some (l\<lparr>l_recovery := RecDone\<rparr>) else None)"
| "link_exec l DelayOver = (case l_recovery l of RecDelay d \<Rightarrow> Some (l\<lparr>l_recovery := RecCheck d\<rparr>) | _ \<Rightarrow> None)"
| "link_exec l RecoverCheck =
     (case l_recovery l of RecCheck d \<Rightarrow> Some (l\<lparr>l_recovery := recover_check d l\<rparr>) | _ \<Rightarrow> None)"
| "link_exec l RecoverLock =
     (case l_recovery l of
        RecLock d \<Rightarrow> if l_mutex l = Free
          then Some (l\<lparr>l_recovery := RecHeld, l_mutex := Held (Recovery d) (CheckTable (l_mainNodeID l) (l_mainAddr l))\<rparr>)
          else None
      | _ \<Rightarrow> None)"
| "link_exec l (Broken p) = (if p < length (l_clients l) then Some (mark_swap p False l) else None)"
| "link_exec l (MarkRemove k) =
     (if k < length (l_marking l) then
        (case l_marking l ! k of
           (p, False, c) \<Rightarrow> Some ((mark_remove p l)\<lparr>l_marking := (l_marking l)[k := (p, True, c)]\<rparr>)
         | _ \<Rightarrow> None)
      else None)"
| "link_exec l (MarkRecover k) =
     (if k < length (l_marking l) then
        (case l_marking l ! k of
           (p, True, c) \<Rightarrow> Some ((mark_recover p c l)\<lparr>l_marking := drop_nth k (l_marking l)\<rparr>)
         | _ \<Rightarrow> None)
      else None)"
| "link_exec l (HbPost p) =
     (if p < length (l_clients l) \<and> rc_heartbeat (l_clients l ! p) = HbPosted then Some (startHeartbeat_task p l) else None)"
| "link_exec l (HbFire p err) =
     (if p < length (l_clients l) \<and> rc_heartbeat (l_clients l ! p) = HbArmed then Some (sendHeartbeat p err l) else None)"
| "link_exec l Start =
     (if l_state l = nodeStateInitial then Some (l\<lparr>l_state := nodeStateStarting,
        l_recovery := (if l_id l = l_mainNodeID l then RecDone else RecIdle)\<rparr>) else None)"
| "link_exec l StartDone =
     (if l_state l = nodeStateStarting \<and> \<not> l_stop l \<and>
         (l_id l = l_mainNodeID l \<or> list_ex (\<lambda>c. case c of CallReturn i (Some p) \<Rightarrow> i = l_mainNodeID l | _ \<Rightarrow> False) (l_calls l))
      then Some (l\<lparr>l_state := nodeStateRunning\<rparr>) else None)"
| "link_exec l Stop = (if l_state l = nodeStateRunning then Some (l\<lparr>l_state := nodeStateStopping\<rparr>) else None)"
| "link_exec l StopRecovery =
     (if l_state l = nodeStateStarting \<or> l_state l = nodeStateStopping then Some (l\<lparr>l_stop := True\<rparr>) else None)"
| "link_exec l CloseNetwork =
     (if l_stop l \<and> l_recovery l = RecDone \<and> l_mutex l = Free \<and> (l_state l = nodeStateStarting \<or> l_state l = nodeStateStopping)
      then Some (l\<lparr>l_table := [], l_mutex := Closing (map snd (l_table l))\<rparr>) else None)"
| "link_exec l CloseNext =
     (case l_mutex l of Closing (p # ps) \<Rightarrow> Some ((mark_swap p True l)\<lparr>l_mutex := Closing ps\<rparr>) | _ \<Rightarrow> None)"
| "link_exec l CloseDone =
     (case l_mutex l of Closing [] \<Rightarrow> Some (l\<lparr>l_mutex := Free, l_state := nodeStateStopped\<rparr>) | _ \<Rightarrow> None)"
| "link_exec l _ = None"

lemma link_exec_step: "link_exec l e = Some m \<Longrightarrow> link_step l e m"
proof (induction l e rule: link_exec.induct)
  case (16 l)
  have "\<exists>p. CallReturn (l_mainNodeID l) (Some p) \<in> set (l_calls l)"
    if "list_ex (\<lambda>c. case c of CallReturn i (Some p) \<Rightarrow> i = l_mainNodeID l | _ \<Rightarrow> False) (l_calls l)"
  proof -
    from that obtain c where c: "c \<in> set (l_calls l)" "case c of CallReturn i (Some p) \<Rightarrow> i = l_mainNodeID l | _ \<Rightarrow> False"
      unfolding list_ex_iff by blast
    from c(2) obtain p where "c = CallReturn (l_mainNodeID l) (Some p)" by (auto split: call_pc.splits option.splits)
    with c(1) show ?thesis by blast
  qed
  with 16 show ?case by (auto split: if_splits intro: link_StartDone)
next
  case (15 l)
  with link_Start [of l] show ?case by (simp split: if_splits)
qed (auto split: if_splits call_pc.splits mutex.splits recovery_pc.splits list.splits bool.splits prod.splits intro: link_step.intros)

fun link_run :: "link \<Rightarrow> link_event list \<Rightarrow> link option" where
  "link_run l [] = Some l"
| "link_run l (e # es) = (case link_exec l e of Some m \<Rightarrow> link_run m es | None \<Rightarrow> None)"

lemma link_run_reach: "link_reach l \<Longrightarrow> link_run l es = Some m \<Longrightarrow> link_reach m"
proof (induction l es rule: link_run.induct)
  case (2 l e es)
  from 2(3) obtain k where k: "link_exec l e = Some k" "link_run k es = Some m" by (auto split: option.splits)
  from reach_step [OF 2(2) link_exec_step [OF k(1)]] 2(1) [OF k(1)] k(2) show ?case by blast
qed simp

text \<open>
  A node that starts, connects to the main node and runs, loses the connection and recovers it;
  with the connection lost while it starts; and stopped while a call waits for the mutex.
\<close>

definition demo_link :: link where
  "demo_link = \<lparr>l_id = 2, l_mainNodeID = 1, l_mainAddr = ''main'', l_state = nodeStateInitial, l_clients = [],
     l_table = [], l_mutex = Free, l_calls = [], l_marking = [], l_recovery = RecDone, l_trigger = False,
     l_stop = False, l_epochs = 0, l_linked = False, l_lost = False\<rparr>"

definition demo_start :: "link_event list" where
  "demo_start = [Start, Call 1 ''main'', Advance 0, Advance 0, Lock 0, Create True, Create True, Create True, Create True,
     Create True, Create True, HbPost 0]"

definition demo_loss :: "link_event list" where
  "demo_loss = [Broken 0, MarkRemove 0, MarkRecover 0]"

lemma demo_link_reach: "link_run demo_link es = Some l \<Longrightarrow> link_reach l"
  by (rule link_run_reach [of demo_link]) (auto intro: reach_init simp: link_init_def demo_link_def)

definition demo_running :: link where
  "demo_running = the (link_run demo_link (demo_start @ [StartDone]))"

definition demo_lost :: link where
  "demo_lost = the (link_run demo_link (demo_start @ [StartDone] @ demo_loss))"

definition demo_early :: link where
  "demo_early = the (link_run demo_link (demo_start @ demo_loss @ [StartDone]))"

definition demo_leak :: link where
  "demo_leak = the (link_run demo_link (demo_start @ [StartDone, Call 3 ''n3'', Advance 1, Advance 1, Stop, StopRecovery,
     RecoveryStops, CloseNetwork, CloseNext, MarkRemove 0, MarkRecover 0, CloseDone, Lock 1, Create True, Create True, Create True, Create True,
     Create True, Create True]))"

definition demo_recovered :: link where
  "demo_recovered = the (link_run demo_link (demo_start @ [StartDone] @ demo_loss @ [TriggerTaken, DelayOver,
     RecoverCheck, RecoverLock, Create True, Create True, Create True, Create True, Create True, Create True,
     Create True, Create True]))"

definition demo_checking :: link where
  "demo_checking = the (link_run demo_link (demo_start @ [StartDone] @ demo_loss @ [TriggerTaken, DelayOver]))"

lemma some_the: "x \<noteq> None \<Longrightarrow> x = Some (the x)"
  by simp

lemma demo_links_reach [simp]: "link_reach demo_running" "link_reach demo_lost" "link_reach demo_early" "link_reach demo_leak"
  "link_reach demo_recovered"
proof -
  have "link_run demo_link (demo_start @ [StartDone]) \<noteq> None" by code_simp
  from demo_link_reach [OF some_the [OF this]] show "link_reach demo_running" unfolding demo_running_def .
  have "link_run demo_link (demo_start @ [StartDone] @ demo_loss) \<noteq> None" by code_simp
  from demo_link_reach [OF some_the [OF this]] show "link_reach demo_lost" unfolding demo_lost_def .
  have "link_run demo_link (demo_start @ demo_loss @ [StartDone]) \<noteq> None" by code_simp
  from demo_link_reach [OF some_the [OF this]] show "link_reach demo_early" unfolding demo_early_def .
  have "link_run demo_link (demo_start @ [StartDone, Call 3 ''n3'', Advance 1, Advance 1, Stop, StopRecovery,
     RecoveryStops, CloseNetwork, CloseNext, MarkRemove 0, MarkRecover 0, CloseDone, Lock 1, Create True, Create True, Create True, Create True,
     Create True, Create True]) \<noteq> None" by code_simp
  from demo_link_reach [OF some_the [OF this]] show "link_reach demo_leak" unfolding demo_leak_def .
  have "link_run demo_link (demo_start @ [StartDone] @ demo_loss @ [TriggerTaken, DelayOver,
     RecoverCheck, RecoverLock, Create True, Create True, Create True, Create True, Create True, Create True,
     Create True, Create True]) \<noteq> None" by code_simp
  from demo_link_reach [OF some_the [OF this]] show "link_reach demo_recovered" unfolding demo_recovered_def .
qed

section \<open>Properties\<close>

text \<open>
  C7. However calls of \<^verbatim>\<open>getRPCClient\<close>, the recovery loop, heartbeats, broken connections and the
  shutdown interleave, a node never has two open connections to the same node.
\<close>

theorem connection_unique:
  assumes "link_reach l" "connected l p" "connected l q" "client_id l p = client_id l q"
  shows "p = q"
proof -
  from node_link.reach_inv [OF assms(1)] have "link_conn l" "hand_ok l" by (simp_all add: link_inv_def)
  then have d: "\<And>p. conn (l_clients l) p \<Longrightarrow> go_get (l_table l) (rc_nodeID (l_clients l ! p)) = Some p \<or> in_hand (l_mutex l) p"
    and h: "hand_inv (l_clients l) (l_table l) (l_mutex l)"
    by (simp_all add: link_conn_def conn_okD(4) hand_ok_def)
  from d [of p] d [of q] h assms(2-4) show ?thesis
    unfolding connected_conn client_id_def hand_inv_def by (metis option.distinct(1) option.inject)
qed

theorem connection_unique_witness:
  "link_reach demo_recovered \<and> connected demo_recovered 1 \<and> client_id demo_recovered 0 = client_id demo_recovered 1 \<and>
     \<not> connected demo_recovered 0"
proof -
  have "connected demo_recovered 1" "client_id demo_recovered 0 = client_id demo_recovered 1" by code_simp+
  with connection_unique [OF demo_links_reach(5), of 0 1] show ?thesis by auto
qed

text \<open>
  C19. A connection that calls can be given has a heartbeat on its way, a closure, an armed timer, a
  request or its result, so that a peer that stops answering is noticed; the one exception is the
  step of \<^verbatim>\<open>getRPCClient\<close> between publishing the client and starting its heartbeat.
\<close>

theorem heartbeat_alive:
  assumes "link_reach l" "usable l i a = Some p"
  shows "rc_heartbeat (l_clients l ! p) \<noteq> HbNone \<or> (\<exists>h. l_mutex l = Held h (StartHeartbeat p))"
proof -
  from assms(2) have p: "go_get (l_table l) i = Some p" "conn (l_clients l) p"
    by (auto simp: usable_def connected_conn split: option.splits if_splits)
  from node_link.reach_inv [OF assms(1)] have "beats_inv (l_clients l) (l_table l) (l_mutex l)"
    by (simp add: link_inv_def beats_ok_def)
  with p show ?thesis unfolding beats_inv_def by blast
qed

theorem heartbeat_alive_witness:
  "usable demo_running 1 ''main'' = Some 0 \<and> l_mutex demo_running = Free \<and>
     rc_heartbeat (l_clients demo_running ! 0) \<noteq> HbNone"
proof -
  have "usable demo_running 1 ''main'' = Some 0" "l_mutex demo_running = Free" by code_simp+
  with heartbeat_alive [OF demo_links_reach(1)] show ?thesis by auto
qed

text \<open>
  C8. No wake-up of the recovery is lost: while a node other than the main node is running and has
  not been told to stop, it has an open connection to the main node, or the loss of one is still
  being handled, or the recovery has been notified, or it is at work. The hypothesis on
  \<open>l_lost\<close> excludes the loss of the connection before the node was running.
\<close>

theorem main_recovery_pending:
  assumes "link_reach l" "l_state l = nodeStateRunning" "l_id l \<noteq> l_mainNodeID l" "\<not> l_stop l" "\<not> l_lost l"
  shows "main_up l \<or> main_marked l \<or> l_trigger l \<or> working l"
  using node_link.reach_inv [OF assms(1)] assms(2-5) by (simp add: link_inv_def linked_ok_def recover_ok_def)

theorem main_recovery_pending_witness:
  "l_state demo_lost = nodeStateRunning \<and> \<not> main_up demo_lost \<and>
     (main_up demo_lost \<or> main_marked demo_lost \<or> l_trigger demo_lost \<or> working demo_lost)"
proof -
  have a: "l_state demo_lost = nodeStateRunning" "l_id demo_lost \<noteq> l_mainNodeID demo_lost" "\<not> l_stop demo_lost"
    "\<not> l_lost demo_lost" by code_simp+
  have "l_table demo_lost = []" by code_simp
  then have "\<not> main_up demo_lost" by (simp add: main_up_def)
  with main_recovery_pending [OF demo_links_reach(2) a] a(1) show ?thesis by simp
qed


text \<open>
  A call of \<^verbatim>\<open>getRPCClient\<close> that waits for \<^verbatim>\<open>clientCreateMu\<close> while the node stops publishes a
  new connection after \<^verbatim>\<open>closeNetwork\<close>: the node is stopped and the connection stays open.
\<close>

theorem stop_leak:
  "link_reach demo_leak \<and> l_state demo_leak = nodeStateStopped \<and> usable demo_leak 3 ''n3'' = Some 1 \<and> l_marking demo_leak = []"
proof (intro conjI)
  show "l_state demo_leak = nodeStateStopped" by code_simp
  show "usable demo_leak 3 ''n3'' = Some 1" by code_simp
  show "l_marking demo_leak = []" by code_simp
qed (rule demo_links_reach)

text \<open>
  The delays of \<^verbatim>\<open>recoverMainNode\<close> are zero, then 100 milliseconds doubled with every failed
  attempt up to three seconds.
\<close>

theorem recovery_backoff: "(next_delay ^^ n) 0 = (if n = 0 then 0 else min 3000 (100 * 2 ^ (n - 1)))"
proof (induction n)
  case (Suc n)
  have "min 3000 (100 * 2 ^ (n - 1)) > (0 :: int)" by simp
  with Suc show ?case
    by (cases n) (auto simp: next_delay_def mainRecoveryInitialDelay_def mainRecoveryMaxDelay_def min_def)
qed simp



end
