(* ===== verification/Ranked_Runs.thy ===== *)
theory Ranked_Runs
  imports XT_Prelude
begin

text \<open>
  Termination of one party of a transition system. A rank that the party's own steps decrease and
  that no other step increases bounds the number of the party's steps in every run, however the
  others interleave.
\<close>

text \<open>\<open>counted step own s n t\<close>: a run from \<open>s\<close> to \<open>t\<close> in which \<open>n\<close> steps are the party's own.\<close>

inductive counted :: "('s \<Rightarrow> 'e \<Rightarrow> 's \<Rightarrow> bool) \<Rightarrow> ('s \<Rightarrow> 'e \<Rightarrow> bool) \<Rightarrow> 's \<Rightarrow> nat \<Rightarrow> 's \<Rightarrow> bool"
  for step :: "'s \<Rightarrow> 'e \<Rightarrow> 's \<Rightarrow> bool" and own :: "'s \<Rightarrow> 'e \<Rightarrow> bool" and s :: 's
where
  counted_refl: "counted step own s 0 s"
| counted_own: "counted step own s n t \<Longrightarrow> step t e u \<Longrightarrow> own t e \<Longrightarrow> counted step own s (Suc n) u"
| counted_other: "counted step own s n t \<Longrightarrow> step t e u \<Longrightarrow> \<not> own t e \<Longrightarrow> counted step own s n u"

locale ranked_party =
  fixes step :: "'s \<Rightarrow> 'e \<Rightarrow> 's \<Rightarrow> bool"
    and inv :: "'s \<Rightarrow> bool"
    and own :: "'s \<Rightarrow> 'e \<Rightarrow> bool"
    and rank :: "'s \<Rightarrow> nat"
  assumes kept: "inv s \<Longrightarrow> step s e t \<Longrightarrow> inv t"
    and other: "inv s \<Longrightarrow> step s e t \<Longrightarrow> \<not> own s e \<Longrightarrow> rank t \<le> rank s"
    and decrease: "inv s \<Longrightarrow> step s e t \<Longrightarrow> own s e \<Longrightarrow> rank t < rank s"
begin

lemma counted_bound:
  assumes "inv s" "counted step own s n t"
  shows "inv t \<and> n + rank t \<le> rank s"
  using assms(2)
proof (induction rule: counted.induct)
  case (counted_own n t e u)
  with kept [of t e u] decrease [of t e u] show ?case by simp
next
  case (counted_other n t e u)
  with kept [of t e u] other [of t e u] show ?case by simp
qed (simp add: assms(1))

end

lemma counted_reach: "reach init step s \<Longrightarrow> counted step own s n t \<Longrightarrow> reach init step t"
  by (rotate_tac 1, induction rule: counted.induct) (auto intro: reach_step)

end
