(* ===== verification/Main_Stop.thy ===== *)
theory Main_Stop
  imports Main_Properties Ranked_Runs
begin

text \<open>
  \<^verbatim>\<open>stopMainRecovery\<close> closes \<^verbatim>\<open>mainRecoveryStop\<close> and waits for the recovery loop. Here: the loop ends.
\<close>

section \<open>Ranks\<close>

text \<open>How many steps the holder of \<^verbatim>\<open>clientCreateMu\<close> takes at most before it releases it.\<close>

fun create_rank :: "create_pc \<Rightarrow> nat" where
  "create_rank (CheckTable i a) = 9"
| "create_rank (CloseStale i a q) = 8"
| "create_rank (Connect i a) = 7"
| "create_rank (RegisterNode p) = 6"
| "create_rank (Recheck p) = 5"
| "create_rank (Restore p) = 4"
| "create_rank (Publish p) = 3"
| "create_rank (StartHeartbeat p) = 2"
| "create_rank (Abort p) = 2"
| "create_rank (Finish r) = 1"

definition holder_rank :: "mutex \<Rightarrow> nat" where
  "holder_rank mx = (case mx of Held h pc \<Rightarrow> create_rank pc | _ \<Rightarrow> 0)"

definition recovery_rank :: "link \<Rightarrow> nat" where
  "recovery_rank l = (if l_trigger l then 3 else 0) +
     (case l_recovery l of RecDone \<Rightarrow> 0 | RecIdle \<Rightarrow> 1 | RecCheck d \<Rightarrow> 2 | RecDelay d \<Rightarrow> 3
      | RecHeld \<Rightarrow> 3 + holder_rank (l_mutex l) | RecLock d \<Rightarrow> 13)"

text \<open>The steps of the recovery loop.\<close>

definition recovery_turn :: "link \<Rightarrow> link_event \<Rightarrow> bool" where
  "recovery_turn l e = (case e of
      TriggerTaken \<Rightarrow> True | RecoveryStops \<Rightarrow> True | DelayOver \<Rightarrow> True | DelayCut \<Rightarrow> True
    | RecoverCheck \<Rightarrow> True | RecoverLock \<Rightarrow> True
    | Create ok \<Rightarrow> (case l_mutex l of Held (Recovery d) pc \<Rightarrow> True | _ \<Rightarrow> False)
    | _ \<Rightarrow> False)"

lemma create_rank_step:
  assumes "l_mutex l = Held h pc"
  shows "l_mutex (create_step ok h pc l) = Free \<or>
     (\<exists>pc'. l_mutex (create_step ok h pc l) = Held h pc' \<and> create_rank pc' < create_rank pc)"
  by (cases pc) (auto simp: create_step_def Let_def check_table_def newRPCClient_def publish_def finish_def
      split: option.splits if_splits holder.splits prod.splits)

lemma create_step_frame:
  "l_trigger (create_step ok h pc l) = l_trigger l" "l_stop (create_step ok h pc l) = l_stop l"
  "l_state (create_step ok h pc l) = l_state l" "l_id (create_step ok h pc l) = l_id l"
  by (cases pc; simp add: create_step_def Let_def check_table_def newRPCClient_def publish_def finish_def start_heartbeat_def
      closeTransport_def upd_client_def invalidateAll_def split: option.split holder.split)+

lemma create_step_recovery:
  "l_recovery (create_step ok h pc l) =
     (case (h, pc) of (Recovery d, Finish r) \<Rightarrow> if r \<noteq> None then RecIdle else RecDelay (next_delay d) | _ \<Rightarrow> l_recovery l)"
  by (cases pc; simp add: create_step_def Let_def check_table_def newRPCClient_def publish_def finish_def start_heartbeat_def
      closeTransport_def upd_client_def invalidateAll_def split: option.split holder.split)

lemma create_step_caller: "l_recovery (create_step ok (Caller j) pc l) = l_recovery l"
  by (simp add: create_step_recovery split: create_pc.split)

text \<open>What the other parties leave alone once the recovery is to stop.\<close>

definition control_of :: "link \<Rightarrow> bool \<times> bool \<times> recovery_pc \<times> mutex" where
  "control_of l = (l_stop l, l_trigger l, l_recovery l, l_mutex l)"

lemma mark_control [simp]:
  "control_of (mark_swap p c l) = control_of l" "control_of (mark_remove p l) = control_of l"
  "control_of (upd_client p f l) = control_of l" "control_of (closeTransport p l) = control_of l"
  "l_stop l \<Longrightarrow> control_of (mark_recover p c l) = control_of l"
  by (simp_all add: control_of_def mark_swap_def mark_remove_def mark_recover_def removeRPCClient_def closeTransport_def
      upd_client_def startMainRecovery_def invalidateAll_def Let_def)

lemma heartbeat_control [simp]:
  "control_of (startHeartbeat_task p l) = control_of l" "control_of (heartbeat_callback p err l) = control_of l"
  "control_of (handleHeartbeatResult p err l) = control_of l" "control_of (sendHeartbeat p err l) = control_of l"
  by (simp_all add: startHeartbeat_task_def heartbeat_callback_def handleHeartbeatResult_def sendHeartbeat_def Let_def)

lemma mark_state [simp]:
  "l_state (mark_swap p c l) = l_state l" "l_state (mark_remove p l) = l_state l" "l_state (upd_client p f l) = l_state l"
  "l_state (closeTransport p l) = l_state l" "l_state (mark_recover p c l) = l_state l"
  by (simp_all add: mark_swap_def mark_remove_def mark_recover_def removeRPCClient_def closeTransport_def
      upd_client_def startMainRecovery_def invalidateAll_def Let_def)

lemma heartbeat_state [simp]:
  "l_state (startHeartbeat_task p l) = l_state l" "l_state (heartbeat_callback p err l) = l_state l"
  "l_state (handleHeartbeatResult p err l) = l_state l" "l_state (sendHeartbeat p err l) = l_state l"
  by (simp_all add: startHeartbeat_task_def heartbeat_callback_def handleHeartbeatResult_def sendHeartbeat_def Let_def)

section \<open>Stopping\<close>

text \<open>The network is closed only after the recovery has stopped, which happens only after the start.\<close>

definition closing_ok :: "link \<Rightarrow> bool" where
  "closing_ok l \<longleftrightarrow> (l_stop l \<longrightarrow> l_state l \<noteq> nodeStateInitial) \<and>
     (\<forall>ps. l_mutex l = Closing ps \<longrightarrow> l_stop l \<and> l_recovery l = RecDone)"

lemma stop_of_control: "control_of m = control_of l \<Longrightarrow> l_stop m = l_stop l \<and> l_recovery m = l_recovery l \<and> l_mutex m = l_mutex l \<and> l_trigger m = l_trigger l"
  by (simp add: control_of_def)

lemma mark_stop [simp]:
  "l_stop (mark_recover p c l) = l_stop l" "l_recovery (mark_recover p c l) = l_recovery l" "l_mutex (mark_recover p c l) = l_mutex l"
  by (simp_all add: mark_recover_def closeTransport_def upd_client_def startMainRecovery_def invalidateAll_def Let_def)

lemmas link_control [simp] = mark_control [THEN stop_of_control] heartbeat_control [THEN stop_of_control]

lemma closing_ok_step:
  assumes "closing_ok l" "link_step l e m"
  shows "closing_ok m"
  using assms(2)
proof (cases rule: link_step.cases)
  case (link_Create h pc ok)
  with create_rank_step [OF link_Create(3), of ok] assms(1) show ?thesis
    by (auto simp: closing_ok_def create_step_frame)
qed (use assms(1) in \<open>auto simp: closing_ok_def recover_check_def\<close>)

interpretation link_closing: inductive_invariant link_init link_step closing_ok
  by unfold_locales (simp add: closing_ok_def link_init_def, fact closing_ok_step)

definition stopping :: "link \<Rightarrow> bool" where
  "stopping l \<longleftrightarrow> link_inv l \<and> closing_ok l \<and> l_stop l"

lemma held_recovery:
  assumes "link_inv l"
  shows "l_mutex l = Held (Recovery d) pc \<Longrightarrow> l_recovery l = RecHeld"
    "l_recovery l = RecHeld \<Longrightarrow> \<exists>d pc. l_mutex l = Held (Recovery d) pc"
  using assms by (auto simp: link_inv_def held_ok_def held_inv_def)

lemma stop_kept: "link_step l e m \<Longrightarrow> l_stop l \<Longrightarrow> l_stop m"
  by (erule link_stepE) (auto simp: create_step_frame)

lemma rank_control: "control_of m = control_of l \<Longrightarrow> recovery_rank m = recovery_rank l"
  by (simp add: control_of_def recovery_rank_def split: recovery_pc.split)

lemma recovery_rank_step:
  assumes "stopping l" "link_step l e m"
  shows "if recovery_turn l e then recovery_rank m < recovery_rank l else recovery_rank m \<le> recovery_rank l"
  using assms(2)
proof (cases rule: link_step.cases)
  case (link_Create h pc ok)
  note rank = create_rank_step [OF link_Create(3), of ok]
  show ?thesis
  proof (cases h)
    case (Caller j)
    from held_recovery(2) [of l] assms(1) link_Create(3) Caller have "l_recovery l \<noteq> RecHeld"
      by (auto simp: stopping_def)
    with Caller link_Create show ?thesis
      by (simp add: recovery_turn_def recovery_rank_def create_step_frame create_step_caller split: recovery_pc.split)
  next
    case (Recovery d)
    have r: "l_recovery l = RecHeld" using held_recovery(1) [of l] assms(1) link_Create(3) Recovery by (simp add: stopping_def)
    have "create_rank pc > 0" by (cases pc) simp_all
    with r rank Recovery link_Create show ?thesis
      by (auto simp: recovery_turn_def recovery_rank_def holder_rank_def create_step_frame create_step_recovery
          split: create_pc.splits)
  qed
next
  case (link_Lock j i a)
  with held_recovery(2) [of l] assms(1) show ?thesis
    by (auto simp: recovery_turn_def recovery_rank_def stopping_def split: recovery_pc.split)
next
  case (link_CloseNext p ps)
  with held_recovery(2) [of l] assms(1) show ?thesis
    by (auto simp: recovery_turn_def recovery_rank_def stopping_def split: recovery_pc.split)
next
  case link_CloseDone
  with held_recovery(2) [of l] assms(1) show ?thesis
    by (auto simp: recovery_turn_def recovery_rank_def stopping_def split: recovery_pc.split)
qed (use assms(1) in \<open>auto simp: recovery_turn_def recovery_rank_def holder_rank_def recover_check_def stopping_def closing_ok_def
       split: recovery_pc.split\<close>)

interpretation recovery_ends: ranked_party link_step stopping recovery_turn recovery_rank
proof unfold_locales
  fix l e m assume "stopping l" "link_step l e m"
  then show "stopping m" using link_inv_step closing_ok_step stop_kept unfolding stopping_def by blast
  from recovery_rank_step [OF \<open>stopping l\<close> \<open>link_step l e m\<close>]
  show "\<not> recovery_turn l e \<Longrightarrow> recovery_rank m \<le> recovery_rank l"
    "recovery_turn l e \<Longrightarrow> recovery_rank m < recovery_rank l" by simp_all
qed

lemma recovery_rank_max: "recovery_rank l \<le> 16"
proof -
  have "create_rank pc \<le> 9" for pc by (cases pc) simp_all
  then have "holder_rank mx \<le> 9" for mx by (simp add: holder_rank_def split: mutex.split)
  from this [of "l_mutex l"] show ?thesis by (simp add: recovery_rank_def split: recovery_pc.split)
qed

lemma recovery_progress:
  assumes "stopping l" "l_recovery l \<noteq> RecDone"
  shows "\<exists>e m. link_step l e m \<and> (recovery_turn l e \<or> (\<exists>j pc. l_mutex l = Held (Caller j) pc \<and> e = Create True))"
proof (cases "l_recovery l")
  case RecIdle
  with assms(1) link_RecoveryStops [of l] show ?thesis
    by (intro exI [of _ RecoveryStops]) (auto simp: stopping_def recovery_turn_def)
next
  case (RecDelay d)
  with link_DelayOver [of l d] show ?thesis by (intro exI [of _ DelayOver]) (auto simp: recovery_turn_def)
next
  case (RecCheck d)
  with link_RecoverCheck [of l d] show ?thesis by (intro exI [of _ RecoverCheck]) (auto simp: recovery_turn_def)
next
  case (RecLock d)
  show ?thesis
  proof (cases "l_mutex l")
    case Free
    with RecLock link_RecoverLock [of l d] show ?thesis by (intro exI [of _ RecoverLock]) (auto simp: recovery_turn_def)
  next
    case (Held h pc)
    moreover from this RecLock held_recovery(1) [of l] assms(1) obtain j where "h = Caller j"
      by (cases h) (auto simp: stopping_def)
    ultimately show ?thesis using link_Create [of l h pc True] by blast
  next
    case (Closing ps)
    with RecLock assms(1) show ?thesis by (simp add: stopping_def closing_ok_def)
  qed
next
  case RecHeld
  with held_recovery(2) [of l] assms(1) obtain d pc where "l_mutex l = Held (Recovery d) pc" by (auto simp: stopping_def)
  with link_Create [of l "Recovery d" pc True] show ?thesis
    by (intro exI [of _ "Create True"]) (auto simp: recovery_turn_def)
qed (use assms(2) in simp)

text \<open>The mutex while it is held: only the holder moves on, and it releases the mutex in the end.\<close>

lemma holder_step:
  assumes "link_step l e m" "l_mutex l = Held h pc"
  shows "if \<exists>ok. e = Create ok then l_mutex m = Free \<or> (\<exists>pc'. l_mutex m = Held h pc' \<and> create_rank pc' < create_rank pc)
         else l_mutex m = Held h pc"
  using assms(1)
proof (cases rule: link_step.cases)
  case (link_Create h' pc' ok)
  with assms(2) create_rank_step [OF assms(2), of ok] show ?thesis by auto
next
  case (link_MarkRecover k p c)
  with assms(2) show ?thesis by auto
qed (use assms(2) in auto)

text \<open>
  C9. The recovery loop ends once it is told to: after \<^verbatim>\<open>stopMainRecovery\<close> has closed its channel
  the loop takes at most 16 more steps in any run, however calls, heartbeats, broken connections and the
  shutdown interleave with it. As long as it has not ended it can take one, or a call holds the mutex it
  waits for and can proceed; and every step of a holder of the mutex brings it closer to the release.
\<close>

theorem recovery_stops:
  assumes "link_reach l" "l_stop l" "counted link_step recovery_turn l k m"
  shows "k \<le> 16 \<and>
     (l_recovery m = RecDone \<or>
      (\<exists>e m'. link_step m e m' \<and> (recovery_turn m e \<or>
         (\<exists>j pc. l_mutex m = Held (Caller j) pc \<and> (l_mutex m' = Free \<or>
            (\<exists>pc'. l_mutex m' = Held (Caller j) pc' \<and> create_rank pc' < create_rank pc))))))"
proof -
  have "stopping l"
    using node_link.reach_inv [OF assms(1)] link_closing.reach_inv [OF assms(1)] assms(2) by (simp add: stopping_def)
  from recovery_ends.counted_bound [OF this assms(3)] have m: "stopping m" and "k \<le> recovery_rank l" by simp_all
  moreover have "\<exists>e m'. link_step m e m' \<and> (recovery_turn m e \<or>
         (\<exists>j pc. l_mutex m = Held (Caller j) pc \<and> (l_mutex m' = Free \<or>
            (\<exists>pc'. l_mutex m' = Held (Caller j) pc' \<and> create_rank pc' < create_rank pc))))"
    if "l_recovery m \<noteq> RecDone"
  proof -
    from recovery_progress [OF m that] obtain e m' where
      "link_step m e m'" "recovery_turn m e \<or> (\<exists>j pc. l_mutex m = Held (Caller j) pc \<and> e = Create True)" by blast
    with holder_step [of m e m'] show ?thesis by (metis (full_types))
  qed
  moreover have "k \<le> 16" using \<open>k \<le> recovery_rank l\<close> recovery_rank_max [of l] by linarith
  ultimately show ?thesis by blast
qed

text \<open>A node that is stopped in the middle of a recovery.\<close>

definition demo_stopped :: link where
  "demo_stopped = the (link_run demo_link (demo_start @ [StartDone] @ demo_loss @ [TriggerTaken, DelayOver, RecoverCheck,
     Stop, StopRecovery]))"

theorem recovery_stops_witness: "l_stop demo_stopped \<and> l_recovery demo_stopped = RecLock 0 \<and> (\<exists>e m. link_step demo_stopped e m)"
proof -
  have "link_run demo_link (demo_start @ [StartDone] @ demo_loss @ [TriggerTaken, DelayOver, RecoverCheck,
     Stop, StopRecovery]) \<noteq> None" by code_simp
  from demo_link_reach [OF some_the [OF this]] have r: "link_reach demo_stopped" unfolding demo_stopped_def .
  have s: "l_stop demo_stopped" "l_recovery demo_stopped = RecLock 0" by code_simp+
  from recovery_stops [OF r s(1) counted_refl] s show ?thesis by auto
qed

end
