(* ===== verification/Network_Close.thy ===== *)
theory Network_Close
  imports Node_Properties
begin

text \<open>
  The server half of \<^verbatim>\<open>closeNetwork\<close> of \<^verbatim>\<open>node.go\<close>: the registered sessions are taken out of the table
  and closed when the node stops. The clients are closed in \<open>Main_Link\<close>.
\<close>

section \<open>Closing the sessions\<close>

text \<open>One round of the loop over the remote nodes.\<close>

definition close_remote :: "session \<Rightarrow> server_node \<Rightarrow> server_node" where
  "close_remote remote n =
     (case go_get (n_sessions n) remote of
        None \<Rightarrow> n
      | Some r \<Rightarrow> emit (CloseSession (rm_session r)) (set_remote remote (r\<lparr>rm_active := False, rm_timer := False\<rparr>) n))"

definition closeNetwork :: "server_node \<Rightarrow> server_node" where
  "closeNetwork n =
     (let remoteNodes = map snd (n_remoteNodes n)
      in fold close_remote remoteNodes (n\<lparr>n_remoteNodes := []\<rparr>))"

lemma close_remote_frame [simp]:
  "n_remoteNodes (close_remote s n) = n_remoteNodes n" "n_registry (close_remote s n) = n_registry n"
  "n_subscriptions (close_remote s n) = n_subscriptions n" "n_posting (close_remote s n) = n_posting n"
  "n_removing (close_remote s n) = n_removing n" "n_control (close_remote s n) = n_control n"
  by (simp_all add: close_remote_def emit_def set_remote_def split: option.split)

lemma close_all_frame [simp]:
  "n_remoteNodes (fold close_remote ss n) = n_remoteNodes n" "n_registry (fold close_remote ss n) = n_registry n"
  "n_subscriptions (fold close_remote ss n) = n_subscriptions n" "n_posting (fold close_remote ss n) = n_posting n"
  "n_removing (fold close_remote ss n) = n_removing n" "n_control (fold close_remote ss n) = n_control n"
  by (induction ss arbitrary: n) simp_all

lemma close_all_sessions:
  "go_get (n_sessions (fold close_remote ss n)) s =
     (if s \<in> set ss then map_option (\<lambda>r. r\<lparr>rm_active := False, rm_timer := False\<rparr>) (go_get (n_sessions n) s)
      else go_get (n_sessions n) s)"
proof (induction ss arbitrary: n)
  case (Cons t ss)
  have "go_get (n_sessions (close_remote t n)) s =
     (if s = t then map_option (\<lambda>r. r\<lparr>rm_active := False, rm_timer := False\<rparr>) (go_get (n_sessions n) s)
      else go_get (n_sessions n) s)"
    by (simp add: close_remote_def emit_def set_remote_def split: option.split)
  with Cons show ?case by (auto simp: option.map_comp o_def)
qed simp

lemma close_all_out:
  assumes "distinct ss" "\<And>s. s \<in> set ss \<Longrightarrow> \<exists>r. go_get (n_sessions n) s = Some r \<and> rm_session r = s"
  shows "n_out (fold close_remote ss n) = n_out n @ map CloseSession ss"
  using assms
proof (induction ss arbitrary: n)
  case (Cons t ss)
  from Cons(3) obtain r where r: "go_get (n_sessions n) t = Some r" "rm_session r = t" by auto
  then have n: "close_remote t n = emit (CloseSession t) (set_remote t (r\<lparr>rm_active := False, rm_timer := False\<rparr>) n)"
    by (simp add: close_remote_def)
  have "n_out (fold close_remote ss (close_remote t n)) = n_out (close_remote t n) @ map CloseSession ss"
    using Cons(2,3) n by (intro Cons(1)) (auto simp: emit_def set_remote_def)
  then show ?case by (simp add: n emit_def set_remote_def)
qed simp

text \<open>The table maps different nodes to different sessions.\<close>

lemma table_sessions:
  assumes "server_reach env n"
  shows "distinct (map snd (n_remoteNodes n))"
    "s \<in> set (map snd (n_remoteNodes n)) \<Longrightarrow> \<exists>r. go_get (n_sessions n) s = Some r \<and> rm_session r = s \<and> go_get (n_remoteNodes n) (rm_id r) = Some s"
proof -
  have tab: "table_inv (n_id n) (n_config n) (n_remoteNodes n) (n_sessions n) (fst ` set (n_removing n))"
    using server_reach_inv [OF assms] by (simp add: server_inv_def table_ok_def)
  then have wf: "go_wf (n_remoteNodes n)" by (simp add: table_inv_def)
  have entry: "\<exists>r. go_get (n_sessions n) s = Some r \<and> rm_session r = s \<and> rm_id r = i"
    if "(i, s) \<in> set (n_remoteNodes n)" for i s
  proof -
    from that wf have "go_get (n_remoteNodes n) i = Some s" by (simp add: go_get_in_set)
    with tab obtain r where "go_get (n_sessions n) s = Some r" "rm_id r = i" by (auto simp: table_inv_def)
    with table_invD(2) [OF tab, of s r] show ?thesis by (simp add: session_inv_def)
  qed
  have "inj_on snd (set (n_remoteNodes n))"
  proof (rule inj_onI)
    fix x y assume *: "x \<in> set (n_remoteNodes n)" "y \<in> set (n_remoteNodes n)" "snd x = snd y"
    obtain i s j where "x = (i, s)" "y = (j, s)" using *(3) by (metis prod.collapse)
    with * entry [of i s] entry [of j s] show "x = y" by auto
  qed
  moreover from wf have "distinct (n_remoteNodes n)" by (simp add: go_wf_def distinct_map)
  ultimately show "distinct (map snd (n_remoteNodes n))" by (simp add: distinct_map)
  show "\<exists>r. go_get (n_sessions n) s = Some r \<and> rm_session r = s \<and> go_get (n_remoteNodes n) (rm_id r) = Some s"
    if "s \<in> set (map snd (n_remoteNodes n))"
  proof -
    from that obtain i where "(i, s) \<in> set (n_remoteNodes n)" by auto
    with entry [OF this] wf show ?thesis by (auto simp: go_get_in_set)
  qed
qed

text \<open>
  C28. \<^verbatim>\<open>closeNetwork\<close> ends every registered session and leaves nothing behind: afterwards no session is
  registered, every session that was in the table is inactive with its timer stopped and has been closed
  exactly once, and a session that is still active never belonged to a node. The removals that the
  transport reports for the closed sessions change nothing any more, in particular they do not take
  services out of the registry, which is as before.
\<close>

theorem network_closed:
  assumes "server_reach env n"
  shows "(\<forall>s. \<not> is_ok (registeredRemoteNode s (closeNetwork n))) \<and>
     n_out (closeNetwork n) = n_out n @ map CloseSession (map snd (n_remoteNodes n)) \<and>
     distinct (map snd (n_remoteNodes n)) \<and>
     n_registry (closeNetwork n) = n_registry n \<and> n_posting (closeNetwork n) = n_posting n \<and>
     (\<forall>s r. go_get (n_sessions (closeNetwork n)) s = Some r \<longrightarrow>
        (s \<in> set (map snd (n_remoteNodes n)) \<longrightarrow> \<not> rm_active r \<and> \<not> rm_timer r \<and>
           removeRemoteNode_swap s c (closeNetwork n) = closeNetwork n) \<and>
        (rm_active r \<longrightarrow> rm_id r = 0))"
proof -
  let ?ss = "map snd (n_remoteNodes n)"
  let ?n = "n\<lparr>n_remoteNodes := []\<rparr>"
  have c: "closeNetwork n = fold close_remote ?ss ?n" by (simp add: closeNetwork_def)
  have ses: "go_get (n_sessions (closeNetwork n)) s =
     (if s \<in> set ?ss then map_option (\<lambda>r. r\<lparr>rm_active := False, rm_timer := False\<rparr>) (go_get (n_sessions n) s)
      else go_get (n_sessions n) s)" for s
    unfolding c using close_all_sessions [of ?ss ?n s] by simp
  have "rm_id r = 0" if "go_get (n_sessions (closeNetwork n)) s = Some r" "rm_active r" for s r
  proof (rule ccontr)
    assume "rm_id r \<noteq> 0"
    from that ses [of s] have "s \<notin> set ?ss" "go_get (n_sessions n) s = Some r" by (auto split: if_splits)
    moreover have tab: "table_inv (n_id n) (n_config n) (n_remoteNodes n) (n_sessions n) (fst ` set (n_removing n))"
      using server_reach_inv [OF assms] by (simp add: server_inv_def table_ok_def)
    from table_invD(2) [OF tab \<open>go_get (n_sessions n) s = Some r\<close>] \<open>rm_id r \<noteq> 0\<close> that(2)
    have "go_get (n_remoteNodes n) (rm_id r) = Some s" by (simp add: session_inv_def)
    ultimately show False by (force dest: go_get_SomeD)
  qed
  moreover have "n_out (closeNetwork n) = n_out n @ map CloseSession ?ss"
    unfolding c using close_all_out [OF table_sessions(1) [OF assms], of ?n] table_sessions(2) [OF assms] by force
  moreover have "\<not> is_ok (registeredRemoteNode s (closeNetwork n))" for s
    by (simp add: registeredRemoteNode_def linked_def c go_get_def split: option.split)
  moreover have "\<not> rm_active r \<and> \<not> rm_timer r \<and> removeRemoteNode_swap s c (closeNetwork n) = closeNetwork n"
    if "go_get (n_sessions (closeNetwork n)) s = Some r" "s \<in> set ?ss" for s r
    using that ses [of s] by (auto simp: removeRemoteNode_swap_def remoteNodeFromSession_def split: if_splits)
  ultimately show ?thesis using table_sessions(1) [OF assms] by (simp add: c)
qed

theorem network_closed_witness:
  "\<not> is_ok (registeredRemoteNode 7 (closeNetwork demo_state)) \<and>
   n_out (closeNetwork demo_state) = n_out demo_state @ [CloseSession 7]"
  using network_closed [OF demo_reach] by (simp add: demo_state_def)

end
