(* ===== verification/New_Node.thy ===== *)
theory New_Node
  imports Logger Main_Link
begin

text \<open>
  The construction of a node: the options and \<^verbatim>\<open>NewNode\<close> of \<^verbatim>\<open>node.go\<close>, and the registry of
  factories of \<^verbatim>\<open>service.go\<close>. Factories are code of the application and are parameters, as is the
  constructor of loggers of xtnet. Durations are in nanoseconds and wrap at 64 bits.
\<close>

section \<open>Factories\<close>

text \<open>What the framework asks of a service: its name, its id, the identity of its loop, if any, and
  whether it handles discovery.\<close>

record service =
  se_Name :: string
  se_ID :: int
  se_Loop :: "nat option"
  se_handler :: bool

type_synonym factory = "ServiceConfig \<Rightarrow> service option result"

record FactoryRegistry =
  fr_factories :: "(string, factory) gomap"

definition NewFactoryRegistry :: FactoryRegistry where
  "NewFactoryRegistry = \<lparr>fr_factories = []\<rparr>"

definition factory_Register :: "string \<Rightarrow> factory option \<Rightarrow> FactoryRegistry \<Rightarrow> gerror option \<times> FactoryRegistry" where
  "factory_Register name factory r =
     (case factory of
        None \<Rightarrow> (Some (Errorf ''service name and factory are required'' []), r)
      | Some f \<Rightarrow>
          if name = '''' then (Some (Errorf ''service name and factory are required'' []), r)
          else if go_get (fr_factories r) name \<noteq> None
          then (Some (Errorf ''service factory %q already registered'' [ArgQ name]), r)
          else (None, r\<lparr>fr_factories := go_put name f (fr_factories r)\<rparr>))"

definition factory_Get :: "string \<Rightarrow> FactoryRegistry \<Rightarrow> factory option" where
  "factory_Get name r = go_get (fr_factories r) name"

section \<open>Options\<close>

text \<open>The options; the service registry and the error handler only by whether they are given.\<close>

record nodeOptions =
  op_factories :: "FactoryRegistry option"
  op_registry :: bool
  op_logger :: "nat option"
  op_connectTimeout :: int
  op_routeCacheTTL :: int
  op_routeCacheEnabled :: bool
  op_serviceCallTimeout :: int
  op_serviceCallTimeoutSet :: bool
  op_heartbeatInterval :: int
  op_heartbeatTimeout :: int
  op_errorHandler :: bool

definition Second :: int where
  "Second = 1000000000"

definition default_options :: "FactoryRegistry \<Rightarrow> nodeOptions" where
  "default_options defaultFactories = \<lparr>op_factories = Some defaultFactories, op_registry = True, op_logger = None,
     op_connectTimeout = 5 * Second, op_routeCacheTTL = 3600 * Second, op_routeCacheEnabled = True,
     op_serviceCallTimeout = 3 * Second, op_serviceCallTimeoutSet = False, op_heartbeatInterval = 3 * Second,
     op_heartbeatTimeout = 2 * Second, op_errorHandler = False\<rparr>"

datatype NodeOption =
    WithFactoryRegistry "FactoryRegistry option"
  | WithServiceRegistry bool
  | WithLogger "nat option"
  | WithConnectTimeout int
  | WithHeartbeat int int
  | WithServiceCallTimeout int
  | WithRouteCacheTTL int
  | WithRouteCacheDisabled
  | WithErrorHandler bool

fun apply_option :: "NodeOption \<Rightarrow> nodeOptions \<Rightarrow> nodeOptions" where
  "apply_option (WithFactoryRegistry r) o1 = o1\<lparr>op_factories := r\<rparr>"
| "apply_option (WithServiceRegistry r) o1 = o1\<lparr>op_registry := r\<rparr>"
| "apply_option (WithLogger lg) o1 = o1\<lparr>op_logger := lg\<rparr>"
| "apply_option (WithConnectTimeout t) o1 = o1\<lparr>op_connectTimeout := t\<rparr>"
| "apply_option (WithHeartbeat i t) o1 = o1\<lparr>op_heartbeatInterval := i, op_heartbeatTimeout := t\<rparr>"
| "apply_option (WithServiceCallTimeout t) o1 = o1\<lparr>op_serviceCallTimeout := t, op_serviceCallTimeoutSet := True\<rparr>"
| "apply_option (WithRouteCacheTTL t) o1 = o1\<lparr>op_routeCacheTTL := t\<rparr>"
| "apply_option WithRouteCacheDisabled o1 = o1\<lparr>op_routeCacheEnabled := False\<rparr>"
| "apply_option (WithErrorHandler h) o1 = o1\<lparr>op_errorHandler := h\<rparr>"

text \<open>A nil option is skipped.\<close>

definition apply_options :: "NodeOption option list \<Rightarrow> nodeOptions \<Rightarrow> nodeOptions" where
  "apply_options opts o1 = fold (\<lambda>x. case x of None \<Rightarrow> id | Some f \<Rightarrow> apply_option f) opts o1"

definition check_options :: "nodeOptions \<Rightarrow> gerror option" where
  "check_options o1 =
     (if op_factories o1 = None then Some (Errorf ''factory registry is nil'' [])
      else if \<not> op_registry o1 then Some (Errorf ''service registry is nil'' [])
      else if op_connectTimeout o1 \<le> 0 then Some (Errorf ''connect timeout must be positive'' [])
      else if op_heartbeatInterval o1 \<le> 0 then Some (Errorf ''heartbeat interval must be positive'' [])
      else if op_heartbeatTimeout o1 \<le> 0 then Some (Errorf ''heartbeat timeout must be positive'' [])
      else if op_heartbeatTimeout o1 \<ge> op_heartbeatInterval o1
      then Some (Errorf ''heartbeat timeout must be shorter than heartbeat interval'' [])
      else if op_routeCacheTTL o1 < 0 then Some (Errorf ''route cache TTL must not be negative'' [])
      else if op_serviceCallTimeoutSet o1 \<and> op_serviceCallTimeout o1 \<le> 0
      then Some (Errorf ''service call timeout must be positive'' [])
      else None)"

definition call_timeout :: "NodeConfig \<Rightarrow> nodeOptions \<Rightarrow> int" where
  "call_timeout nodeConfig o1 =
     (if \<not> op_serviceCallTimeoutSet o1 \<and> nc_ServiceCallTimeout nodeConfig > 0
      then nc_ServiceCallTimeout nodeConfig else op_serviceCallTimeout o1)"

text \<open>An \<^verbatim>\<open>int64\<close> sum wraps; the interval is positive, so that the division rounds down.\<close>

definition remoteHeartbeatTimeout :: "int \<Rightarrow> int \<Rightarrow> int" where
  "remoteHeartbeatTimeout interval timeout = signed_take_bit 63 (interval + timeout + interval div 3)"

section \<open>Services\<close>

definition new_runtime :: "service \<Rightarrow> serviceRuntime" where
  "new_runtime svc = \<lparr>rt_handler = se_handler svc, rt_started = False, rt_registered = False, rt_subscriptions = []\<rparr>"

text \<open>
  The loop of \<^verbatim>\<open>NewNode\<close> over the configured services, with the loops, the services and their order
  so far.
\<close>

fun create_services ::
    "FactoryRegistry \<Rightarrow> (nat, ServiceKey) gomap \<Rightarrow> (ServiceKey, serviceRuntime) gomap \<Rightarrow> ServiceKey list \<Rightarrow>
     ServiceConfig list \<Rightarrow> ((ServiceKey, serviceRuntime) gomap \<times> ServiceKey list) result" where
  "create_services r loops local order [] = Inr (local, order)"
| "create_services r loops local order (sc # scs) =
     (case factory_Get (sc_Name sc) r of
        None \<Rightarrow> Inl (wrapf ErrFactoryNotFound ''%s'' [ArgS (sc_Name sc)])
      | Some factory \<Rightarrow>
          (case factory sc of
             Inl err \<Rightarrow> Inl (Errorf ''create service %s:%d: %w'' [ArgS (sc_Name sc), ArgD (sc_ID sc), ArgW err])
           | Inr None \<Rightarrow> Inl (Errorf ''factory %q returned a nil service or loop'' [ArgQ (sc_Name sc)])
           | Inr (Some svc) \<Rightarrow>
               (case se_Loop svc of
                  None \<Rightarrow> Inl (Errorf ''factory %q returned a nil service or loop'' [ArgQ (sc_Name sc)])
                | Some loop \<Rightarrow>
                    let key = ServiceKey (sc_Name sc) (sc_ID sc) in
                    if se_Name svc \<noteq> key_Name key \<or> se_ID svc \<noteq> key_ID key
                    then Inl (Errorf ''factory %q returned service %s:%d, want %s''
                      [ArgQ (sc_Name sc), ArgS (se_Name svc), ArgD (se_ID svc), ArgS (key_String key)])
                    else
                      (case go_get loops loop of
                         Some owner \<Rightarrow> Inl (Errorf ''services %s and %s share one loop''
                           [ArgS (key_String owner), ArgS (key_String key)])
                       | None \<Rightarrow> create_services r (go_put loop key loops) (go_put key (new_runtime svc) local)
                           (order @ [key]) scs))))"

section \<open>NewNode\<close>

record new_node =
  nn_id :: int
  nn_mainNodeID :: int
  nn_config :: "Config option"
  nn_nodeConfig :: NodeConfig
  nn_logger :: nat
  nn_ownedLogger :: "nat option"
  nn_connectTimeout :: int
  nn_serviceCallTimeout :: int
  nn_heartbeatInterval :: int
  nn_heartbeatTimeout :: int
  nn_remoteHeartbeatTimeout :: int
  nn_routeCacheTTL :: int
  nn_routeCacheEnabled :: bool
  nn_localServices :: "(ServiceKey, serviceRuntime) gomap"
  nn_serviceOrder :: "ServiceKey list"
  nn_state :: node_state

text \<open>The process: the logger of xtnet, and the native loggers that have been made and closed.\<close>

record process =
  pr_logger :: "nat option"
  pr_made :: "nat list"
  pr_closed :: "nat list"

text \<open>The logger of the node and, when it was made here, the logger it owns.\<close>

definition choose_logger ::
    "(LoggerConfig \<Rightarrow> nat result) \<Rightarrow> int \<Rightarrow> NodeConfig \<Rightarrow> nodeOptions \<Rightarrow> (nat \<times> nat option) result" where
  "choose_logger newXTNetLogger nodeID nodeConfig o1 =
     (case op_logger o1 of
        Some lg \<Rightarrow> Inr (lg, None)
      | None \<Rightarrow>
          (case nc_Logger nodeConfig of
             None \<Rightarrow> Inl (Errorf ''node %d logger config is required when WithLogger is not provided'' [ArgD nodeID])
           | Some lc \<Rightarrow>
               (case newXTNetLogger lc of
                  Inl err \<Rightarrow> Inl (Errorf ''create node %d logger: %w'' [ArgD nodeID, ArgW err])
                | Inr lg \<Rightarrow> Inr (lg, Some lg))))"

text \<open>The deferred function of a failed construction.\<close>

definition undo_logger :: "nat option \<Rightarrow> nat \<times> nat option \<Rightarrow> process \<Rightarrow> process" where
  "undo_logger previous x pr =
     (case x of (native, owned) \<Rightarrow>
        let pr = (if pr_logger pr = Some native then pr\<lparr>pr_logger := previous\<rparr> else pr)
        in case owned of None \<Rightarrow> pr | Some lg \<Rightarrow> pr\<lparr>pr_closed := pr_closed pr @ [lg]\<rparr>)"

definition NewNode ::
    "config_env \<Rightarrow> (LoggerConfig \<Rightarrow> nat result) \<Rightarrow> FactoryRegistry \<Rightarrow> Config option \<Rightarrow> int \<Rightarrow> NodeOption option list \<Rightarrow>
     process \<Rightarrow> new_node result \<times> process" where
  "NewNode cenv newXTNetLogger defaultFactories config nodeID opts pr =
     (case Config_Validate cenv config of
        (config, Some err) \<Rightarrow> (Inl err, pr)
      | (config, None) \<Rightarrow>
          (case Config_Node config nodeID of
             None \<Rightarrow> (Inl (wrapf ErrNodeNotFound ''id=%d'' [ArgD nodeID]), pr)
           | Some nodeConfig \<Rightarrow>
               let o1 = apply_options opts (default_options defaultFactories) in
               (case check_options o1 of
                  Some err \<Rightarrow> (Inl err, pr)
                | None \<Rightarrow>
                    (case choose_logger newXTNetLogger nodeID nodeConfig o1 of
                       Inl err \<Rightarrow> (Inl err, pr)
                     | Inr (native, owned) \<Rightarrow>
                         let previous = pr_logger pr; pr = pr\<lparr>pr_logger := Some native, pr_made := pr_made pr @ (case owned of None \<Rightarrow> [] | Some lg \<Rightarrow> [lg])\<rparr> in
                         (case create_services (the (op_factories o1)) [] [] [] (nc_Services nodeConfig) of
                            Inl err \<Rightarrow> (Inl err, undo_logger previous (native, owned) pr)
                          | Inr (local, order) \<Rightarrow>
                              (Inr \<lparr>nn_id = nodeID, nn_mainNodeID = (case config of Some c \<Rightarrow> MainNode c | None \<Rightarrow> 0),
                                 nn_config = config, nn_nodeConfig = nodeConfig, nn_logger = native, nn_ownedLogger = owned,
                                 nn_connectTimeout = op_connectTimeout o1, nn_serviceCallTimeout = call_timeout nodeConfig o1,
                                 nn_heartbeatInterval = op_heartbeatInterval o1, nn_heartbeatTimeout = op_heartbeatTimeout o1,
                                 nn_remoteHeartbeatTimeout = remoteHeartbeatTimeout (op_heartbeatInterval o1) (op_heartbeatTimeout o1),
                                 nn_routeCacheTTL = op_routeCacheTTL o1, nn_routeCacheEnabled = op_routeCacheEnabled o1,
                                 nn_localServices = local, nn_serviceOrder = order, nn_state = nodeStateInitial\<rparr>, pr))))))"

section \<open>What NewNode guarantees\<close>

abbreviation cfg_key :: "ServiceConfig \<Rightarrow> ServiceKey" where
  "cfg_key s \<equiv> ServiceKey (sc_Name s) (sc_ID s)"

definition idle_runtime :: "serviceRuntime \<Rightarrow> bool" where
  "idle_runtime rt \<longleftrightarrow> \<not> rt_started rt \<and> \<not> rt_registered rt \<and> rt_subscriptions rt = []"

lemma create_services_Cons:
  assumes "create_services r loops local order (sc # scs) = Inr x"
  obtains loop svc where "create_services r (go_put loop (cfg_key sc) loops) (go_put (cfg_key sc) (new_runtime svc) local)
    (order @ [cfg_key sc]) scs = Inr x" "go_get loops loop = None" "se_Loop svc = Some loop"
  using assms by (auto simp: Let_def split: option.splits sum.splits if_splits)

lemma create_services_Inr:
  assumes "create_services r loops local order scs = Inr (local', order')" "go_wf local"
  shows "order' = order @ map cfg_key scs \<and> go_wf local' \<and>
     (\<forall>k. go_get local' k \<noteq> None \<longleftrightarrow> go_get local k \<noteq> None \<or> k \<in> cfg_key ` set scs) \<and>
     (\<forall>k rt. go_get local' k = Some rt \<longrightarrow> idle_runtime rt \<or> go_get local k = Some rt)"
  using assms
proof (induction scs arbitrary: loops local order)
  case (Cons sc scs)
  from Cons.prems(1) obtain loop svc where c: "create_services r (go_put loop (cfg_key sc) loops)
    (go_put (cfg_key sc) (new_runtime svc) local) (order @ [cfg_key sc]) scs = Inr (local', order')"
    by (rule create_services_Cons)
  have "idle_runtime (new_runtime svc)" by (simp add: idle_runtime_def new_runtime_def)
  with Cons.IH [OF c] Cons.prems(2) show ?case by (auto split: if_splits)
qed simp

lemma options_timeout:
  "\<not> op_serviceCallTimeoutSet (apply_options opts o1) \<Longrightarrow>
     \<not> op_serviceCallTimeoutSet o1 \<and> op_serviceCallTimeout (apply_options opts o1) = op_serviceCallTimeout o1"
proof (induction opts arbitrary: o1)
  case (Cons x opts)
  show ?case
  proof (cases x)
    case None
    with Cons show ?thesis by (simp add: apply_options_def)
  next
    case (Some f)
    then have f: "apply_options (x # opts) o1 = apply_options opts (apply_option f o1)" by (simp add: apply_options_def)
    from Cons.IH [of "apply_option f o1"] Cons.prems show ?thesis unfolding f by (cases f) auto
  qed
qed (simp add: apply_options_def)

lemma validated:
  assumes "Config_Validate cenv config = (config', None)"
  shows "\<exists>c. config = Some c \<and> config_ok cenv c \<and> config' = Some (norm_config cenv c)"
proof (cases config)
  case (Some c)
  with assms have "config' \<noteq> None" by (auto simp: Config_Validate_def split: prod.splits)
  with assms Some Config_Validate_Some [of cenv c] show ?thesis by auto
qed (use assms in \<open>simp add: Config_Validate_def\<close>)

lemma NewNode_Inr:
  assumes "NewNode cenv mk df config nodeID opts pr = (Inr node, pr')"
  obtains c nodeConfig native owned local order where "config = Some c" "config_ok cenv c"
    "find (\<lambda>n. nc_ID n = nodeID) (Nodes (norm_config cenv c)) = Some nodeConfig"
    "check_options (apply_options opts (default_options df)) = None"
    "choose_logger mk nodeID nodeConfig (apply_options opts (default_options df)) = Inr (native, owned)"
    "create_services (the (op_factories (apply_options opts (default_options df)))) [] [] [] (nc_Services nodeConfig) = Inr (local, order)"
    "nn_config node = Some (norm_config cenv c)" "nn_nodeConfig node = nodeConfig" "nn_localServices node = local"
    "nn_serviceOrder node = order" "nn_connectTimeout node = op_connectTimeout (apply_options opts (default_options df))"
    "nn_serviceCallTimeout node = call_timeout nodeConfig (apply_options opts (default_options df))"
    "nn_heartbeatInterval node = op_heartbeatInterval (apply_options opts (default_options df))"
    "nn_heartbeatTimeout node = op_heartbeatTimeout (apply_options opts (default_options df))"
    "nn_state node = nodeStateInitial" "nn_logger node = native" "nn_ownedLogger node = owned"
proof -
  obtain config' err where v: "Config_Validate cenv config = (config', err)" by force
  with assms have "err = None" by (auto simp: NewNode_def split: option.splits)
  then obtain c where c: "config = Some c" "config' = Some (norm_config cenv c)" "config_ok cenv c"
    using v validated [of cenv config config'] by auto
  from assms v \<open>err = None\<close> c(2) show ?thesis
    by (auto simp: NewNode_def Let_def Config_Node_def split: option.splits sum.splits if_splits intro!: that [OF c(1,3)])
qed

lemma norm_node_keys:
  assumes "node_ok cenv n"
  shows "distinct (map cfg_key (nc_Services (norm_node cenv n)))"
proof -
  have "map cfg_key (nc_Services (norm_node cenv n)) = map config_key (nc_Services n)"
    by (simp add: norm_node_def norm_service_def config_key_def)
  with assms show ?thesis unfolding node_ok_def by metis
qed

lemma found_node:
  assumes "config_ok cenv c" "find (\<lambda>n. nc_ID n = i) (Nodes (norm_config cenv c)) = Some nodeConfig"
  shows "distinct (map cfg_key (nc_Services nodeConfig))"
proof -
  from assms(2) have "nodeConfig \<in> set (Nodes (norm_config cenv c))" by (metis find_Some_iff nth_mem)
  then obtain n where "n \<in> set (Nodes c)" "nodeConfig = norm_node cenv n" by (auto simp: norm_config_def)
  with assms(1) norm_node_keys [of cenv n] show ?thesis by (auto simp: config_ok_def list_all_iff)
qed

lemma checked_options:
  assumes "check_options (apply_options opts (default_options df)) = None"
  shows "0 < call_timeout nodeConfig (apply_options opts (default_options df))"
proof (cases "op_serviceCallTimeoutSet (apply_options opts (default_options df))")
  case True
  with assms show ?thesis by (auto simp: check_options_def call_timeout_def split: if_splits)
next
  case False
  from options_timeout [OF False] show ?thesis
    by (simp add: call_timeout_def default_options_def Second_def)
qed

lemma NewNode_ready:
  assumes "NewNode cenv mk df config nodeID opts pr = (Inr node, pr')"
  shows "(\<exists>c. config = Some c \<and> config_ok cenv c \<and> nn_config node = Some (norm_config cenv c)) \<and>
     nn_state node = nodeStateInitial \<and>
     0 < nn_heartbeatTimeout node \<and> nn_heartbeatTimeout node < nn_heartbeatInterval node \<and>
     0 < nn_connectTimeout node \<and> 0 < nn_serviceCallTimeout node \<and>
     nn_serviceOrder node = map cfg_key (nc_Services (nn_nodeConfig node)) \<and> distinct (nn_serviceOrder node) \<and>
     (\<forall>key. case go_get (nn_localServices node) key of
        None \<Rightarrow> key \<notin> set (nn_serviceOrder node)
      | Some rt \<Rightarrow> key \<in> set (nn_serviceOrder node) \<and> idle_runtime rt)"
proof -
  from assms obtain c nodeConfig native owned local order where n: "config = Some c" "config_ok cenv c"
    "find (\<lambda>n. nc_ID n = nodeID) (Nodes (norm_config cenv c)) = Some nodeConfig"
    "check_options (apply_options opts (default_options df)) = None"
    "create_services (the (op_factories (apply_options opts (default_options df)))) [] [] [] (nc_Services nodeConfig) = Inr (local, order)"
    "nn_config node = Some (norm_config cenv c)" "nn_nodeConfig node = nodeConfig" "nn_localServices node = local"
    "nn_serviceOrder node = order" "nn_connectTimeout node = op_connectTimeout (apply_options opts (default_options df))"
    "nn_serviceCallTimeout node = call_timeout nodeConfig (apply_options opts (default_options df))"
    "nn_heartbeatInterval node = op_heartbeatInterval (apply_options opts (default_options df))"
    "nn_heartbeatTimeout node = op_heartbeatTimeout (apply_options opts (default_options df))"
    "nn_state node = nodeStateInitial"
    by (rule NewNode_Inr)
  note s = create_services_Inr [OF n(5), simplified]
  have "case go_get local key of None \<Rightarrow> key \<notin> set order | Some rt \<Rightarrow> key \<in> set order \<and> idle_runtime rt" for key
  proof -
    have "(\<exists>rt. go_get local key = Some rt) \<longleftrightarrow> key \<in> set order" using s by simp
    with s show ?thesis by (cases "go_get local key") simp_all
  qed
  moreover have "distinct order" using s found_node [OF n(2,3)] by simp
  moreover have "0 < op_heartbeatTimeout (apply_options opts (default_options df))"
    "op_heartbeatTimeout (apply_options opts (default_options df)) < op_heartbeatInterval (apply_options opts (default_options df))"
    "0 < op_connectTimeout (apply_options opts (default_options df))"
    using n(4) by (auto simp: check_options_def split: if_splits)
  moreover have "order = map cfg_key (nc_Services nodeConfig)" using s by blast
  ultimately show ?thesis
    using n(1,2) checked_options [OF n(4), of nodeConfig] unfolding n(6-14) by blast
qed

text \<open>
  C23. A node that \<^verbatim>\<open>NewNode\<close> returns is ready to start: its configuration is valid and normalised,
  its timeouts are positive and the heartbeat timeout is below its interval, and it has exactly one
  service per configured one, in the configured order, under its configured name and id, none of
  them started, registered or subscribed.
\<close>

theorem new_node_ready:
  assumes "NewNode cenv mk df config nodeID opts pr = (Inr node, pr')"
  shows "(\<exists>c. config = Some c \<and> config_ok cenv c \<and> nn_config node = Some (norm_config cenv c)) \<and>
     nn_state node = nodeStateInitial \<and>
     0 < nn_heartbeatTimeout node \<and> nn_heartbeatTimeout node < nn_heartbeatInterval node \<and>
     0 < nn_connectTimeout node \<and> 0 < nn_serviceCallTimeout node \<and>
     nn_serviceOrder node = map cfg_key (nc_Services (nn_nodeConfig node)) \<and> distinct (nn_serviceOrder node) \<and>
     (\<forall>key. case go_get (nn_localServices node) key of
        None \<Rightarrow> key \<notin> set (nn_serviceOrder node)
      | Some rt \<Rightarrow> key \<in> set (nn_serviceOrder node) \<and> idle_runtime rt)"
  using NewNode_ready [OF assms] .

definition sample_factory :: factory where
  "sample_factory sc = Inr (Some \<lparr>se_Name = sc_Name sc, se_ID = sc_ID sc, se_Loop = Some (nat (sc_ID sc)), se_handler = True\<rparr>)"

definition sample_factories :: FactoryRegistry where
  "sample_factories = snd (factory_Register ''gate'' (Some sample_factory) NewFactoryRegistry)"

theorem new_node_ready_witness:
  "\<exists>node pr'. NewNode sample_env (\<lambda>_. Inr 5) sample_factories (Some (sample_config ''a'' ''b'')) 2
       [None, Some (WithHeartbeat 9 4)] \<lparr>pr_logger = None, pr_made = [], pr_closed = []\<rparr> = (Inr node, pr') \<and>
     nn_heartbeatTimeout node < nn_heartbeatInterval node \<and>
     nn_serviceOrder node = map cfg_key (nc_Services (nn_nodeConfig node)) \<and> distinct (nn_serviceOrder node)"
proof -
  let ?x = "NewNode sample_env (\<lambda>_. Inr 5) sample_factories (Some (sample_config ''a'' ''b'')) 2
       [None, Some (WithHeartbeat 9 4)] \<lparr>pr_logger = None, pr_made = [], pr_closed = []\<rparr>"
  have ok: "is_ok (fst ?x)" by code_simp
  obtain a pr' where x: "?x = (a, pr')" by (rule prod.exhaust)
  from ok obtain node where "a = Inr node" unfolding x fst_conv by (rule is_okE)
  with x have x: "?x = (Inr node, pr')" by blast
  from new_node_ready [OF x] x show ?thesis by blast
qed

text \<open>
  C37. \<^verbatim>\<open>NewNode\<close> makes at most one logger and accounts for it. A construction that fails leaves
  the process as it was: the logger of xtnet is the one from before, and a logger made for the node is
  closed. A node that is returned has its logger installed, owns it exactly when it was made here, and no
  logger is closed.
\<close>

theorem new_node_logger:
  "case NewNode cenv mk df config nodeID opts pr of
     (Inl err, pr') \<Rightarrow> pr_logger pr' = pr_logger pr \<and>
       (\<exists>made. pr_made pr' = pr_made pr @ made \<and> pr_closed pr' = pr_closed pr @ made \<and> length made \<le> 1)
   | (Inr node, pr') \<Rightarrow> pr_logger pr' = Some (nn_logger node) \<and> pr_closed pr' = pr_closed pr \<and>
       pr_made pr' = pr_made pr @ (case nn_ownedLogger node of None \<Rightarrow> [] | Some lg \<Rightarrow> [lg]) \<and>
       nn_ownedLogger node \<in> {None, Some (nn_logger node)}"
  by (auto simp: NewNode_def Let_def undo_logger_def choose_logger_def split: prod.splits option.splits sum.splits if_splits)



end
