(* ===== verification/Lifecycle.thy ===== *)
theory Lifecycle
  imports New_Node
begin

text \<open>
  The life of a node: \<^verbatim>\<open>Start\<close>, \<^verbatim>\<open>rollbackStart\<close> and \<^verbatim>\<open>Stop\<close> of \<^verbatim>\<open>node.go\<close> with
  \<^verbatim>\<open>startService\<close> and \<^verbatim>\<open>stopService\<close>, as sequences of what they do to the loops, the network and the
  main node. The outcomes of the operations of other components and of the services are given by a
  \<open>world\<close>.
\<close>

section \<open>State\<close>

text \<open>What happens, in order.\<close>

datatype lifecycle_event =
    LcCallsStart | LcCallsStop | LcControlStarts | LcControlStops | LcRecoveryStarts | LcRecoveryStops
  | LcServerStarts | LcNetworkCloses
  | LcLoopStarts ServiceKey | LcServiceStart ServiceKey | LcServiceStop ServiceKey | LcLoopCloses ServiceKey
  | LcRegistered ServiceKey | LcUnregister ServiceKey | LcLoggerCloses nat

record lifecycle = new_node +
  lf_log :: "lifecycle_event list"
  lf_released :: bool
  lf_control :: bool

text \<open>
  The outcomes: whether the server can listen, the error of the connection to the main node, and
  for a service how its \<^verbatim>\<open>Start\<close> and \<^verbatim>\<open>Stop\<close> end on its loop, and the errors of its registration,
  its subscriptions and its removal at the main node.
\<close>

datatype loop_call = CallReturns "gerror option" | CallPanics string string

record world =
  w_server :: bool
  w_main :: "gerror option"
  w_start :: "ServiceKey \<Rightarrow> loop_call"
  w_stop :: "ServiceKey \<Rightarrow> loop_call"
  w_register :: "ServiceKey \<Rightarrow> gerror option"
  w_subscribe :: "ServiceKey \<Rightarrow> gerror option"
  w_unregister :: "ServiceKey \<Rightarrow> gerror option"

definition lc :: "lifecycle_event \<Rightarrow> lifecycle \<Rightarrow> lifecycle" where
  "lc e l = l\<lparr>lf_log := lf_log l @ [e]\<rparr>"

definition upd_rt :: "ServiceKey \<Rightarrow> (serviceRuntime \<Rightarrow> serviceRuntime) \<Rightarrow> lifecycle \<Rightarrow> lifecycle" where
  "upd_rt key f l =
     (case go_get (nn_localServices l) key of
        None \<Rightarrow> l
      | Some rt \<Rightarrow> l\<lparr>nn_localServices := go_put key (f rt) (nn_localServices l)\<rparr>)"

definition started :: "lifecycle \<Rightarrow> ServiceKey \<Rightarrow> bool" where
  "started l key = (case go_get (nn_localServices l) key of None \<Rightarrow> False | Some rt \<Rightarrow> rt_started rt)"

definition registered :: "lifecycle \<Rightarrow> ServiceKey \<Rightarrow> bool" where
  "registered l key = (case go_get (nn_localServices l) key of None \<Rightarrow> False | Some rt \<Rightarrow> rt_registered rt)"

section \<open>Loops\<close>

text \<open>\<^verbatim>\<open>callOnLoop\<close>: a panic of the call is caught on the loop and is an error of the caller.\<close>

definition callOnLoop :: "loop_call \<Rightarrow> gerror option" where
  "callOnLoop call =
     (case call of
        CallReturns err \<Rightarrow> err
      | CallPanics v stack \<Rightarrow> Some (Errorf (''panic: %v'' @ [CHR 0x0A] @ ''%s'') [ArgS v, ArgS stack]))"

definition startControlLoop :: "lifecycle \<Rightarrow> lifecycle" where
  "startControlLoop l = (lc LcControlStarts l)\<lparr>lf_control := True\<rparr>"

definition stopControlLoop :: "lifecycle \<Rightarrow> lifecycle" where
  "stopControlLoop l = (if \<not> lf_control l then l else (lc LcControlStops l)\<lparr>lf_control := False\<rparr>)"

section \<open>Services\<close>

definition startService :: "world \<Rightarrow> ServiceKey \<Rightarrow> lifecycle \<Rightarrow> gerror option \<times> lifecycle" where
  "startService w key l =
     (let l = lc (LcServiceStart key) (lc (LcLoopStarts key) l) in
      case callOnLoop (w_start w key) of
        Some err \<Rightarrow>
          (Some (case callOnLoop (w_stop w key) of
             None \<Rightarrow> err
           | Some rollbackErr \<Rightarrow> Joined [err, Errorf ''rollback failed service start: %w'' [ArgW rollbackErr]]),
           lc (LcLoopCloses key) (lc (LcServiceStop key) l))
      | None \<Rightarrow> (None, upd_rt key (\<lambda>rt. rt\<lparr>rt_started := True\<rparr>) l))"

definition stopService :: "world \<Rightarrow> ServiceKey \<Rightarrow> lifecycle \<Rightarrow> gerror option \<times> lifecycle" where
  "stopService w key l =
     (if \<not> started l key then (None, l)
      else (callOnLoop (w_stop w key), upd_rt key (\<lambda>rt. rt\<lparr>rt_started := False\<rparr>) (lc (LcLoopCloses key) (lc (LcServiceStop key) l))))"

text \<open>The loops of \<^verbatim>\<open>Stop\<close> over the services; \<^verbatim>\<open>rollbackStart\<close> has the same and drops the errors.\<close>

fun unregister_all :: "world \<Rightarrow> ServiceKey list \<Rightarrow> lifecycle \<Rightarrow> gerror list \<times> lifecycle" where
  "unregister_all w [] l = ([], l)"
| "unregister_all w (key # keys) l =
     (if \<not> registered l key then unregister_all w keys l
      else
        let errs = (case w_unregister w key of
              None \<Rightarrow> []
            | Some err \<Rightarrow> if errors_Is err ErrServiceNotFound then [] else [err]);
            l = upd_rt key (\<lambda>rt. rt\<lparr>rt_registered := False\<rparr>) (lc (LcUnregister key) l)
        in case unregister_all w keys l of (es, l) \<Rightarrow> (errs @ es, l))"

fun stop_all :: "world \<Rightarrow> ServiceKey list \<Rightarrow> lifecycle \<Rightarrow> gerror list \<times> lifecycle" where
  "stop_all w [] l = ([], l)"
| "stop_all w (key # keys) l =
     (case stopService w key l of
        (err, l) \<Rightarrow>
          (case stop_all w keys l of (es, l) \<Rightarrow> ((case err of None \<Rightarrow> [] | Some e \<Rightarrow> [e]) @ es, l)))"

definition releaseLogger :: "lifecycle \<Rightarrow> lifecycle" where
  "releaseLogger l =
     (if lf_released l then l
      else (case nn_ownedLogger l of None \<Rightarrow> id | Some lg \<Rightarrow> lc (LcLoggerCloses lg)) (l\<lparr>lf_released := True\<rparr>))"

text \<open>The common part of \<^verbatim>\<open>rollbackStart\<close> and \<^verbatim>\<open>Stop\<close>, from \<^verbatim>\<open>stopServiceCallTimeWheel\<close> on.\<close>

definition teardown :: "world \<Rightarrow> lifecycle \<Rightarrow> gerror list \<times> lifecycle" where
  "teardown w l =
     (case unregister_all w (rev (nn_serviceOrder l)) (lc LcRecoveryStops (lc LcCallsStop l)) of
        (errs, l) \<Rightarrow>
          (case stop_all w (rev (nn_serviceOrder l)) (stopControlLoop (lc LcNetworkCloses l)) of
             (es, l) \<Rightarrow> (errs @ es, releaseLogger (l\<lparr>nn_state := nodeStateStopped\<rparr>))))"

definition rollbackStart :: "world \<Rightarrow> lifecycle \<Rightarrow> lifecycle" where
  "rollbackStart w l = snd (teardown w l)"

section \<open>Start and Stop\<close>

fun start_services :: "world \<Rightarrow> ServiceKey list \<Rightarrow> lifecycle \<Rightarrow> gerror option \<times> lifecycle" where
  "start_services w [] l = (None, l\<lparr>nn_state := nodeStateRunning\<rparr>)"
| "start_services w (key # keys) l =
     (case startService w key l of
        (Some err, l) \<Rightarrow> (Some (Errorf ''start service %s: %w'' [ArgS (key_String key), ArgW err]), rollbackStart w l)
      | (None, l) \<Rightarrow>
          (case w_register w key of
             Some err \<Rightarrow> (Some (Errorf ''register service %s: %w'' [ArgS (key_String key), ArgW err]), rollbackStart w l)
           | None \<Rightarrow>
               let l = upd_rt key (\<lambda>rt. rt\<lparr>rt_registered := True\<rparr>) (lc (LcRegistered key) l) in
               (case w_subscribe w key of
                  Some err \<Rightarrow> (Some (Errorf ''subscribe service %s: %w'' [ArgS (key_String key), ArgW err]), rollbackStart w l)
                | None \<Rightarrow> start_services w keys l)))"

text \<open>\<^verbatim>\<open>startRPCServer\<close>; the handlers it installs are those of \<open>Node_Server\<close>.\<close>

definition startRPCServer :: "world \<Rightarrow> lifecycle \<Rightarrow> gerror option \<times> lifecycle" where
  "startRPCServer w l =
     (if \<not> w_server w
      then (Some (Errorf ''start node %d rpc server at %s'' [ArgD (nn_id l), ArgS (nc_ListenAddr (nn_nodeConfig l))]), l)
      else (None, lc LcServerStarts l))"

definition Node_Start :: "world \<Rightarrow> lifecycle \<Rightarrow> gerror option \<times> lifecycle" where
  "Node_Start w l =
     (if nn_state l \<noteq> nodeStateInitial then (Some (Sentinel ErrNodeRunning), l)
      else
        let l = startControlLoop ((lc LcCallsStart l)\<lparr>nn_state := nodeStateStarting\<rparr>);
            l = (if nn_id l = nn_mainNodeID l then l else lc LcRecoveryStarts l)
        in case startRPCServer w l of
             (Some err, l) \<Rightarrow> (Some err, rollbackStart w l)
           | (None, l) \<Rightarrow>
               if nn_id l \<noteq> nn_mainNodeID l \<and> w_main w \<noteq> None
               then (Some (Errorf ''register node %d: %w'' [ArgD (nn_id l), ArgW (the (w_main w))]), rollbackStart w l)
               else start_services w (nn_serviceOrder l) l)"

text \<open>\<^verbatim>\<open>errors.Join\<close> of no errors is nil.\<close>

definition errors_Join :: "gerror list \<Rightarrow> gerror option" where
  "errors_Join es = (if es = [] then None else Some (Joined es))"

definition Node_Stop :: "world \<Rightarrow> lifecycle \<Rightarrow> gerror option \<times> lifecycle" where
  "Node_Stop w l =
     (if nn_state l = nodeStateInitial
      then (None, releaseLogger (lc LcCallsStop (l\<lparr>nn_state := nodeStateStopped\<rparr>)))
      else if nn_state l \<noteq> nodeStateRunning
      then (if nn_state l = nodeStateStopped then (None, releaseLogger l) else (Some (Sentinel ErrNodeStopped), l))
      else (case teardown w (l\<lparr>nn_state := nodeStateStopping\<rparr>) of (errs, l) \<Rightarrow> (errors_Join errs, l)))"

section \<open>What the log says\<close>

definition loops_started :: "lifecycle \<Rightarrow> ServiceKey list" where
  "loops_started l = concat (map (\<lambda>e. case e of LcLoopStarts k \<Rightarrow> [k] | _ \<Rightarrow> []) (lf_log l))"

definition loops_closed :: "lifecycle \<Rightarrow> ServiceKey list" where
  "loops_closed l = concat (map (\<lambda>e. case e of LcLoopCloses k \<Rightarrow> [k] | _ \<Rightarrow> []) (lf_log l))"

definition registrations :: "lifecycle \<Rightarrow> ServiceKey list" where
  "registrations l = concat (map (\<lambda>e. case e of LcRegistered k \<Rightarrow> [k] | _ \<Rightarrow> []) (lf_log l))"

definition removals :: "lifecycle \<Rightarrow> ServiceKey list" where
  "removals l = concat (map (\<lambda>e. case e of LcUnregister k \<Rightarrow> [k] | _ \<Rightarrow> []) (lf_log l))"

lemma log_simps [simp]:
  "loops_started (lc e l) = loops_started l @ (case e of LcLoopStarts k \<Rightarrow> [k] | _ \<Rightarrow> [])"
  "loops_closed (lc e l) = loops_closed l @ (case e of LcLoopCloses k \<Rightarrow> [k] | _ \<Rightarrow> [])"
  "registrations (lc e l) = registrations l @ (case e of LcRegistered k \<Rightarrow> [k] | _ \<Rightarrow> [])"
  "removals (lc e l) = removals l @ (case e of LcUnregister k \<Rightarrow> [k] | _ \<Rightarrow> [])"
  by (simp_all add: lc_def loops_started_def loops_closed_def registrations_def removals_def)

lemma lc_fields [simp]:
  "nn_localServices (lc e l) = nn_localServices l" "nn_serviceOrder (lc e l) = nn_serviceOrder l" "nn_state (lc e l) = nn_state l"
  "started (lc e l) = started l" "registered (lc e l) = registered l"
  by (simp_all add: lc_def started_def registered_def fun_eq_iff)

lemma upd_rt_fields [simp]:
  "nn_serviceOrder (upd_rt key f l) = nn_serviceOrder l" "nn_state (upd_rt key f l) = nn_state l"
  "loops_started (upd_rt key f l) = loops_started l" "loops_closed (upd_rt key f l) = loops_closed l"
  "registrations (upd_rt key f l) = registrations l" "removals (upd_rt key f l) = removals l"
  by (simp_all add: upd_rt_def loops_started_def loops_closed_def registrations_def removals_def split: option.split)

lemma state_fields [simp]:
  "started (l\<lparr>nn_state := s\<rparr>) = started l" "registered (l\<lparr>nn_state := s\<rparr>) = registered l"
  "loops_started (l\<lparr>nn_state := s\<rparr>) = loops_started l" "loops_closed (l\<lparr>nn_state := s\<rparr>) = loops_closed l"
  "registrations (l\<lparr>nn_state := s\<rparr>) = registrations l" "removals (l\<lparr>nn_state := s\<rparr>) = removals l"
  by (simp_all add: started_def registered_def loops_started_def loops_closed_def registrations_def removals_def fun_eq_iff)

lemma control_fields [simp]:
  "started (startControlLoop l) = started l" "registered (startControlLoop l) = registered l"
  "loops_started (startControlLoop l) = loops_started l" "loops_closed (startControlLoop l) = loops_closed l"
  "registrations (startControlLoop l) = registrations l" "removals (startControlLoop l) = removals l"
  "nn_state (startControlLoop l) = nn_state l" "nn_serviceOrder (startControlLoop l) = nn_serviceOrder l"
  "nn_localServices (startControlLoop l) = nn_localServices l"
  "started (stopControlLoop l) = started l" "registered (stopControlLoop l) = registered l"
  "loops_started (stopControlLoop l) = loops_started l" "loops_closed (stopControlLoop l) = loops_closed l"
  "registrations (stopControlLoop l) = registrations l" "removals (stopControlLoop l) = removals l"
  "nn_state (stopControlLoop l) = nn_state l" "nn_serviceOrder (stopControlLoop l) = nn_serviceOrder l"
  "nn_localServices (stopControlLoop l) = nn_localServices l"
  by (simp_all add: startControlLoop_def stopControlLoop_def started_def registered_def loops_started_def loops_closed_def
      registrations_def removals_def lc_def fun_eq_iff)

lemma release_fields [simp]:
  "started (releaseLogger l) = started l" "registered (releaseLogger l) = registered l"
  "loops_started (releaseLogger l) = loops_started l" "loops_closed (releaseLogger l) = loops_closed l"
  "registrations (releaseLogger l) = registrations l" "removals (releaseLogger l) = removals l"
  "nn_state (releaseLogger l) = nn_state l"
  by (simp_all add: releaseLogger_def started_def registered_def loops_started_def loops_closed_def registrations_def
      removals_def lc_def fun_eq_iff split: option.split)

section \<open>Taking a node down\<close>

lemma upd_rt_started [simp]:
  "started (upd_rt key (\<lambda>rt. rt\<lparr>rt_started := b\<rparr>) l) k = (if k = key \<and> go_get (nn_localServices l) key \<noteq> None then b else started l k)"
  "registered (upd_rt key (\<lambda>rt. rt\<lparr>rt_started := b\<rparr>) l) k = registered l k"
  "started (upd_rt key (\<lambda>rt. rt\<lparr>rt_registered := b\<rparr>) l) k = started l k"
  "registered (upd_rt key (\<lambda>rt. rt\<lparr>rt_registered := b\<rparr>) l) k =
     (if k = key \<and> go_get (nn_localServices l) key \<noteq> None then b else registered l k)"
  by (auto simp: upd_rt_def started_def registered_def split: option.splits)

lemma upd_rt_present [simp]: "go_get (nn_localServices (upd_rt key f l)) k = None \<longleftrightarrow> go_get (nn_localServices l) k = None"
  by (auto simp: upd_rt_def split: option.split)

lemma started_present: "started l k \<Longrightarrow> go_get (nn_localServices l) k \<noteq> None" "registered l k \<Longrightarrow> go_get (nn_localServices l) k \<noteq> None"
  by (auto simp: started_def registered_def split: option.splits)

definition removal_errors :: "world \<Rightarrow> ServiceKey list \<Rightarrow> gerror list" where
  "removal_errors w keys = concat (map (\<lambda>key. case w_unregister w key of
     None \<Rightarrow> [] | Some err \<Rightarrow> if errors_Is err ErrServiceNotFound then [] else [err]) keys)"

definition stop_errors :: "world \<Rightarrow> ServiceKey list \<Rightarrow> gerror list" where
  "stop_errors w keys = concat (map (\<lambda>key. case callOnLoop (w_stop w key) of None \<Rightarrow> [] | Some err \<Rightarrow> [err]) keys)"

lemma unregister_all_eq:
  assumes "unregister_all w keys l = (es, m)" "distinct keys"
  shows "removals m = removals l @ filter (registered l) keys \<and> es = removal_errors w (filter (registered l) keys) \<and>
     loops_started m = loops_started l \<and> loops_closed m = loops_closed l \<and> registrations m = registrations l \<and>
     nn_serviceOrder m = nn_serviceOrder l \<and> started m = started l \<and>
     (\<forall>k. registered m k \<longleftrightarrow> registered l k \<and> k \<notin> set keys)"
  using assms
proof (induction keys arbitrary: l es)
  case (Cons key keys)
  show ?case
  proof (cases "registered l key")
    case False
    with Cons show ?thesis by (auto simp: removal_errors_def)
  next
    case True
    let ?l = "upd_rt key (\<lambda>rt. rt\<lparr>rt_registered := False\<rparr>) (lc (LcUnregister key) l)"
    obtain es' where es': "unregister_all w keys ?l = (es', m)" "es = removal_errors w [key] @ es'"
      using Cons.prems(1) True by (cases "unregister_all w keys ?l") (auto simp: removal_errors_def Let_def split: option.splits if_splits)
    have k: "key \<notin> set keys" "distinct keys" using Cons.prems(2) by simp_all
    have flt: "filter (registered ?l) keys = filter (registered l) keys"
      using k(1) by (auto intro!: filter_cong split: if_splits)
    have st: "started ?l = started l" by (simp add: fun_eq_iff)
    show ?thesis
      using Cons.IH [OF es'(1) k(2), unfolded flt st] es'(2) True started_present(2) [OF True]
      by (auto simp: removal_errors_def)
  qed
qed (simp add: removal_errors_def)

lemma stop_all_eq:
  assumes "stop_all w keys l = (es, m)" "distinct keys"
  shows "loops_closed m = loops_closed l @ filter (started l) keys \<and> es = stop_errors w (filter (started l) keys) \<and>
     loops_started m = loops_started l \<and> removals m = removals l \<and> registrations m = registrations l \<and>
     nn_serviceOrder m = nn_serviceOrder l \<and> registered m = registered l \<and>
     (\<forall>k. started m k \<longleftrightarrow> started l k \<and> k \<notin> set keys)"
  using assms
proof (induction keys arbitrary: l es)
  case (Cons key keys)
  show ?case
  proof (cases "started l key")
    case False
    then have "stopService w key l = (None, l)" by (simp add: stopService_def)
    with Cons.prems(1) have "stop_all w keys l = (es, m)" by (auto split: prod.splits)
    with Cons.IH [OF this] Cons.prems(2) False show ?thesis by auto
  next
    case True
    let ?l = "upd_rt key (\<lambda>rt. rt\<lparr>rt_started := False\<rparr>) (lc (LcLoopCloses key) (lc (LcServiceStop key) l))"
    have "stopService w key l = (callOnLoop (w_stop w key), ?l)" using True by (simp add: stopService_def)
    with Cons.prems(1) obtain es' where es': "stop_all w keys ?l = (es', m)" "es = stop_errors w [key] @ es'"
      by (auto simp: stop_errors_def split: prod.splits)
    have k: "key \<notin> set keys" "distinct keys" using Cons.prems(2) by simp_all
    have flt: "filter (started ?l) keys = filter (started l) keys"
      using k(1) by (auto intro!: filter_cong split: if_splits)
    have rg: "registered ?l = registered l" by (simp add: fun_eq_iff)
    show ?thesis
      using Cons.IH [OF es'(1) k(2), unfolded flt rg] es'(2) True started_present(1) [OF True]
      by (auto simp: stop_errors_def)
  qed
qed (simp add: stop_errors_def)

lemma flags [simp]:
  "lf_control (lc e l) = lf_control l" "lf_control (upd_rt key f l) = lf_control l" "\<not> lf_control (stopControlLoop l)"
  "lf_control (releaseLogger l) = lf_control l" "lf_released (releaseLogger l)"
  by (simp_all add: lc_def upd_rt_def stopControlLoop_def releaseLogger_def split: option.split)

lemma stop_all_control: "stop_all w keys l = (es, m) \<Longrightarrow> lf_control m = lf_control l"
  by (induction keys arbitrary: l es) (auto simp: stopService_def split: prod.splits if_splits)

lemma teardown_eq:
  assumes "teardown w l = (es, m)" "distinct (nn_serviceOrder l)"
    "\<And>k. started l k \<Longrightarrow> k \<in> set (nn_serviceOrder l)" "\<And>k. registered l k \<Longrightarrow> k \<in> set (nn_serviceOrder l)"
  shows "nn_state m = nodeStateStopped \<and> (\<forall>k. \<not> started m k \<and> \<not> registered m k) \<and>
     loops_started m = loops_started l \<and> registrations m = registrations l \<and>
     loops_closed m = loops_closed l @ rev (filter (started l) (nn_serviceOrder l)) \<and>
     removals m = removals l @ rev (filter (registered l) (nn_serviceOrder l)) \<and>
     es = removal_errors w (rev (filter (registered l) (nn_serviceOrder l))) @
       stop_errors w (rev (filter (started l) (nn_serviceOrder l))) \<and>
     \<not> lf_control m \<and> lf_released m"
proof -
  let ?order = "rev (nn_serviceOrder l)" and ?l = "lc LcRecoveryStops (lc LcCallsStop l)"
  obtain es1 l1 where u: "unregister_all w ?order ?l = (es1, l1)" by force
  note u' = unregister_all_eq [OF u, simplified, OF assms(2)]
  obtain es2 l2 where s: "stop_all w ?order (stopControlLoop (lc LcNetworkCloses l1)) = (es2, l2)" by force
  note s' = stop_all_eq [OF s, simplified, OF assms(2)]
  have "es = es1 @ es2" "m = releaseLogger (l2\<lparr>nn_state := nodeStateStopped\<rparr>)"
    using assms(1) u s u' by (auto simp: teardown_def)
  moreover have "registered l2 = registered l1" "started l1 = started l" using u' s' by simp_all
  ultimately show ?thesis using u' s' assms(3,4) stop_all_control [OF s] by (auto simp: rev_filter)
qed

section \<open>Properties\<close>

text \<open>A node as \<^verbatim>\<open>NewNode\<close> makes it.\<close>

definition ready :: "lifecycle \<Rightarrow> bool" where
  "ready l \<longleftrightarrow> nn_state l = nodeStateInitial \<and> lf_log l = [] \<and> distinct (nn_serviceOrder l) \<and>
     (\<forall>key. case go_get (nn_localServices l) key of
        None \<Rightarrow> key \<notin> set (nn_serviceOrder l)
      | Some rt \<Rightarrow> key \<in> set (nn_serviceOrder l) \<and> idle_runtime rt)"

text \<open>The services of \<open>ks\<close> have been started and registered, and no others.\<close>

definition underway :: "ServiceKey list \<Rightarrow> lifecycle \<Rightarrow> bool" where
  "underway ks l \<longleftrightarrow> loops_started l = ks \<and> loops_closed l = [] \<and> registrations l = ks \<and> removals l = [] \<and>
     (\<forall>k. started l k \<longleftrightarrow> k \<in> set ks) \<and> (\<forall>k. registered l k \<longleftrightarrow> k \<in> set ks)"

text \<open>Everything that was started has been stopped, and everything registered removed, in reverse.\<close>

definition undone :: "lifecycle \<Rightarrow> bool" where
  "undone l \<longleftrightarrow> nn_state l = nodeStateStopped \<and> (\<forall>k. \<not> started l k \<and> \<not> registered l k) \<and>
     loops_closed l = rev (loops_started l) \<and> removals l = rev (registrations l) \<and> \<not> lf_control l \<and> lf_released l"

lemma filter_prefix:
  assumes "order = ks @ rest" "distinct order" "\<And>k. P k \<longleftrightarrow> k \<in> set ks"
  shows "filter P order = ks"
proof -
  have "filter P ks = ks" "filter P rest = []" using assms by (auto simp: filter_empty_conv)
  with assms(1) show ?thesis by simp
qed

text \<open>
  Rolling back: the services \<open>s1\<close> of the order are started, \<open>r1\<close> registered, and loops that are not
  among the started ones have been closed already.
\<close>

lemma rollback_undone:
  assumes "distinct (nn_serviceOrder l)" "nn_serviceOrder l = s1 @ s2" "nn_serviceOrder l = r1 @ r2"
    "\<And>k. started l k \<longleftrightarrow> k \<in> set s1" "\<And>k. registered l k \<longleftrightarrow> k \<in> set r1"
    "loops_started l = s1 @ rev (loops_closed l)" "registrations l = r1" "removals l = []"
  shows "undone (rollbackStart w l)"
proof -
  obtain es m where m: "teardown w l = (es, m)" by force
  have in_s: "\<And>k. started l k \<Longrightarrow> k \<in> set (nn_serviceOrder l)" using assms(2,4) by simp
  have in_r: "\<And>k. registered l k \<Longrightarrow> k \<in> set (nn_serviceOrder l)" using assms(3,5) by simp
  have s: "filter (started l) (nn_serviceOrder l) = s1" by (rule filter_prefix [OF assms(2,1,4)])
  have r: "filter (registered l) (nn_serviceOrder l) = r1" by (rule filter_prefix [OF assms(3,1,5)])
  from teardown_eq [OF m assms(1) in_s in_r] assms(6-8) show ?thesis
    by (simp add: undone_def rollbackStart_def m s r)
qed

lemma start_services_outcome:
  assumes "start_services w keys l = (err, m)" "nn_serviceOrder l = ks @ keys" "distinct (nn_serviceOrder l)" "underway ks l"
    "\<And>k. k \<in> set (nn_serviceOrder l) \<Longrightarrow> go_get (nn_localServices l) k \<noteq> None"
  shows "if err = None then nn_state m = nodeStateRunning \<and> nn_serviceOrder m = nn_serviceOrder l \<and> underway (nn_serviceOrder l) m
     else undone m"
  using assms
proof (induction keys arbitrary: l ks)
  case Nil
  then show ?case by (auto simp: underway_def)
next
  case (Cons key keys)
  let ?l1 = "lc (LcServiceStart key) (lc (LcLoopStarts key) l)"
  let ?l2 = "upd_rt key (\<lambda>rt. rt\<lparr>rt_started := True\<rparr>) ?l1"
  let ?l3 = "upd_rt key (\<lambda>rt. rt\<lparr>rt_registered := True\<rparr>) (lc (LcRegistered key) ?l2)"
  let ?f = "lc (LcLoopCloses key) (lc (LcServiceStop key) ?l1)"
  note u = Cons.prems(4) [unfolded underway_def]
  have pres: "go_get (nn_localServices l) key \<noteq> None" using Cons.prems(2,5) by simp
  then have on: "\<And>k. started ?l2 k \<longleftrightarrow> k \<in> set (ks @ [key])" "\<And>k. registered ?l2 k \<longleftrightarrow> k \<in> set ks"
    "\<And>k. started ?l3 k \<longleftrightarrow> k \<in> set (ks @ [key])" "\<And>k. registered ?l3 k \<longleftrightarrow> k \<in> set (ks @ [key])"
    using u by auto
  have split: "nn_serviceOrder l = (ks @ [key]) @ keys" using Cons.prems(2) by simp
  have f: "undone (rollbackStart w ?f)"
    by (rule rollback_undone [of _ ks "key # keys" ks "key # keys"]) (use Cons.prems(2,3) u in auto)
  have r2: "undone (rollbackStart w ?l2)"
    by (rule rollback_undone [of _ "ks @ [key]" keys ks "key # keys"]) (use Cons.prems(2,3) u on in auto)
  have r3: "undone (rollbackStart w ?l3)"
    by (rule rollback_undone [of _ "ks @ [key]" keys "ks @ [key]" keys]) (use Cons.prems(2,3) u on in auto)
  have und: "underway (ks @ [key]) ?l3" using u on by (simp add: underway_def)
  have order: "nn_serviceOrder ?l3 = nn_serviceOrder l" by simp
  have pres: "go_get (nn_localServices ?l3) k \<noteq> None" if "k \<in> set (nn_serviceOrder l)" for k
    using Cons.prems(5) [OF that] by simp
  note go = Cons.IH [of ?l3 "ks @ [key]", unfolded order, OF _ split Cons.prems(3) und pres]
  show ?case
  proof (cases "callOnLoop (w_start w key)")
    case (Some e)
    with Cons.prems(1) f show ?thesis by (auto simp: startService_def Let_def)
  next
    case None
    with Cons.prems(1) r2 r3 go show ?thesis by (auto simp: startService_def Let_def split: option.splits)
  qed
qed

definition as_lifecycle :: "new_node \<Rightarrow> lifecycle" where
  "as_lifecycle n = new_node.extend n \<lparr>lf_log = [], lf_released = False, lf_control = False\<rparr>"

lemma as_lifecycle_fields [simp]:
  "nn_state (as_lifecycle n) = nn_state n" "nn_serviceOrder (as_lifecycle n) = nn_serviceOrder n"
  "nn_localServices (as_lifecycle n) = nn_localServices n" "lf_log (as_lifecycle n) = []"
  by (simp_all add: as_lifecycle_def new_node.defs)

lemma ready_key: "ready l \<Longrightarrow> k \<in> set (nn_serviceOrder l) \<Longrightarrow> go_get (nn_localServices l) k \<noteq> None"
  unfolding ready_def by (metis (no_types, lifting) option.simps(4))

lemma ready_underway: "ready l \<Longrightarrow> underway [] l"
  unfolding underway_def ready_def started_def registered_def loops_started_def loops_closed_def registrations_def removals_def
  by (auto simp: idle_runtime_def split: option.splits)

lemma Node_Start_outcome:
  assumes "ready l" "Node_Start w l = (err, m)"
  shows "if err = None then nn_state m = nodeStateRunning \<and> nn_serviceOrder m = nn_serviceOrder l \<and> underway (nn_serviceOrder l) m
     else undone m"
proof -
  let ?l1 = "startControlLoop ((lc LcCallsStart l)\<lparr>nn_state := nodeStateStarting\<rparr>)"
  define l2 where "l2 = (if nn_id l = nn_mainNodeID l then ?l1 else lc LcRecoveryStarts ?l1)"
  have id: "nn_id ?l1 = nn_id l" "nn_mainNodeID ?l1 = nn_mainNodeID l" by (simp_all add: lc_def startControlLoop_def)
  have frame: "nn_serviceOrder l2 = nn_serviceOrder l" "nn_localServices l2 = nn_localServices l"
    "started l2 = started l" "registered l2 = registered l" "loops_started l2 = loops_started l"
    "loops_closed l2 = loops_closed l" "registrations l2 = registrations l" "removals l2 = removals l"
    by (simp_all add: l2_def)
  have dist: "distinct (nn_serviceOrder l)" using assms(1) by (simp add: ready_def)
  have u: "underway [] l2" "underway [] (lc LcServerStarts l2)"
    using ready_underway [OF assms(1)] by (simp_all add: underway_def frame)
  have undo: "undone (rollbackStart w l2)" "undone (rollbackStart w (lc LcServerStarts l2))"
    using u dist by (auto simp: underway_def frame intro!: rollback_undone [of _ "[]" "nn_serviceOrder l" "[]" "nn_serviceOrder l"])
  have pres: "go_get (nn_localServices (lc LcServerStarts l2)) k \<noteq> None" if "k \<in> set (nn_serviceOrder (lc LcServerStarts l2))" for k
    using ready_key [OF assms(1)] that by (simp add: frame)
  have "nn_state l = nodeStateInitial" using assms(1) by (simp add: ready_def)
  with assms(2) consider "err \<noteq> None" "m = rollbackStart w l2 \<or> m = rollbackStart w (lc LcServerStarts l2)"
    | "start_services w (nn_serviceOrder (lc LcServerStarts l2)) (lc LcServerStarts l2) = (err, m)"
    by (auto simp: Node_Start_def startRPCServer_def Let_def id l2_def split: if_splits)
  then show ?thesis
  proof cases
    case 1
    with undo show ?thesis by auto
  next
    case 2
    from start_services_outcome [OF 2, of "[]"] u(2) dist pres show ?thesis by (auto simp: frame)
  qed
qed


lemma Node_Stop_outcome:
  assumes "nn_state l = nodeStateRunning" "underway (nn_serviceOrder l) l" "distinct (nn_serviceOrder l)" "Node_Stop w l = (err, m)"
  shows "undone m \<and> loops_closed m = rev (nn_serviceOrder l) \<and>
     err = errors_Join (removal_errors w (rev (nn_serviceOrder l)) @ stop_errors w (rev (nn_serviceOrder l)))"
proof -
  let ?l = "l\<lparr>nn_state := nodeStateStopping\<rparr>"
  obtain es where t: "teardown w ?l = (es, m)" "err = errors_Join es"
    using assms(1,4) by (auto simp: Node_Stop_def split: prod.splits)
  have u: "\<And>k. started l k \<longleftrightarrow> k \<in> set (nn_serviceOrder l)" "\<And>k. registered l k \<longleftrightarrow> k \<in> set (nn_serviceOrder l)"
    "loops_started l = nn_serviceOrder l" "loops_closed l = []" "registrations l = nn_serviceOrder l" "removals l = []"
    using assms(2) by (simp_all add: underway_def)
  have f: "filter (started l) (nn_serviceOrder l) = nn_serviceOrder l" "filter (registered l) (nn_serviceOrder l) = nn_serviceOrder l"
    using u(1,2) by (simp_all add: filter_id_conv)
  have "\<And>k. started ?l k \<Longrightarrow> k \<in> set (nn_serviceOrder ?l)" "\<And>k. registered ?l k \<Longrightarrow> k \<in> set (nn_serviceOrder ?l)"
    "distinct (nn_serviceOrder ?l)" using u(1,2) assms(3) by simp_all
  from teardown_eq [OF t(1) this(3,1,2)] u(3-6) f t(2) show ?thesis by (simp add: undone_def)
qed

text \<open>
  C22. \<^verbatim>\<open>Stop\<close> takes a running node down completely, whatever fails on the way: every service is
  removed from the main node and stopped and its loop closed, in exactly the reverse of the order
  they were started in, the control loop is stopped and the logger released, and the returned error joins exactly the errors that occurred, except that a
  service the main node no longer knows is not one.
\<close>

theorem stop_undoes_start:
  assumes "NewNode cenv mk df config nodeID opts pr = (Inr node, pr')" "Node_Start w (as_lifecycle node) = (None, l)"
    "Node_Stop w' l = (err, m)"
  shows "nn_state m = nodeStateStopped \<and> (\<forall>key. \<not> started m key \<and> \<not> registered m key) \<and>
     loops_closed m = rev (loops_started m) \<and> removals m = rev (registrations m) \<and> \<not> lf_control m \<and> lf_released m \<and>
     loops_closed m = rev (nn_serviceOrder node) \<and>
     err = errors_Join (removal_errors w' (rev (nn_serviceOrder node)) @ stop_errors w' (rev (nn_serviceOrder node)))"
proof -
  have r: "ready (as_lifecycle node)"
    using NewNode_ready [OF assms(1)] unfolding ready_def as_lifecycle_fields by blast
  from Node_Start_outcome [OF r assms(2)] have l: "nn_state l = nodeStateRunning" "nn_serviceOrder l = nn_serviceOrder node"
    "underway (nn_serviceOrder l) l" by simp_all
  have "distinct (nn_serviceOrder l)" using r l(2) by (simp add: ready_def)
  from Node_Stop_outcome [OF l(1,3) this assms(3)] l(2) show ?thesis unfolding undone_def by metis
qed

section \<open>A node of the sample configuration\<close>

definition demo_new :: "new_node result \<times> process" where
  "demo_new = NewNode sample_env (\<lambda>_. Inr 5) sample_factories (Some (sample_config ''a'' ''b'')) 2 []
     \<lparr>pr_logger = None, pr_made = [], pr_closed = []\<rparr>"

definition demo_made :: new_node where
  "demo_made = projr (fst demo_new)"

lemma demo_made_new:
  "NewNode sample_env (\<lambda>_. Inr 5) sample_factories (Some (sample_config ''a'' ''b'')) 2 []
     \<lparr>pr_logger = None, pr_made = [], pr_closed = []\<rparr> = (Inr demo_made, snd demo_new)"
proof -
  have ok: "is_ok (fst demo_new)" by code_simp
  then obtain node where "fst demo_new = Inr node" by (rule is_okE)
  then have "demo_new = (Inr demo_made, snd demo_new)" by (simp add: demo_made_def prod_eq_iff)
  then show ?thesis by (simp only: demo_new_def)
qed

text \<open>All goes well, the subscription of the service fails, and the service fails to stop.\<close>

definition fair :: world where
  "fair = \<lparr>w_server = True, w_main = None, w_start = (\<lambda>_. CallReturns None), w_stop = (\<lambda>_. CallReturns None), w_register = (\<lambda>_. None),
     w_subscribe = (\<lambda>_. None), w_unregister = (\<lambda>_. None)\<rparr>"

definition unfair :: world where
  "unfair = fair\<lparr>w_subscribe := (\<lambda>_. Some (Foreign ''timeout'')), w_stop := (\<lambda>_. CallReturns (Some (Foreign ''stuck'')))\<rparr>"


theorem stop_undoes_start_witness:
  "fst (Node_Start fair (as_lifecycle demo_made)) = None \<and>
   fst (Node_Stop unfair (snd (Node_Start fair (as_lifecycle demo_made)))) = Some (Joined [Foreign ''stuck'']) \<and>
   nn_state (snd (Node_Stop unfair (snd (Node_Start fair (as_lifecycle demo_made))))) = nodeStateStopped"
proof -
  let ?l = "snd (Node_Start fair (as_lifecycle demo_made))"
  have "fst (Node_Start fair (as_lifecycle demo_made)) = None" by code_simp
  moreover from this have s: "Node_Start fair (as_lifecycle demo_made) = (None, ?l)" by (metis prod.collapse)
  moreover have "errors_Join (removal_errors unfair (rev (nn_serviceOrder demo_made)) @
      stop_errors unfair (rev (nn_serviceOrder demo_made))) = Some (Joined [Foreign ''stuck''])" by code_simp
  ultimately show ?thesis
    using stop_undoes_start [OF demo_made_new s prod.collapse [symmetric], of unfair] by simp
qed

end
