(* ===== verification/Node_Creation.thy ===== *)
theory Node_Creation
  imports New_Node
begin

text \<open>
  When \<^verbatim>\<open>NewNode\<close> succeeds: \<^verbatim>\<open>newXTNetLogger\<close> of \<^verbatim>\<open>logger.go\<close>, and the exact conditions on the
  configuration, the options and the factories.
\<close>

section \<open>The logger of a node\<close>

text \<open>\<open>new\<close> is \<^verbatim>\<open>xtlog.NewLogger\<close> followed by \<^verbatim>\<open>SetLogLevel\<close>.\<close>

definition newXTNetLogger ::
    "(string \<Rightarrow> string) \<Rightarrow> (string \<Rightarrow> int \<Rightarrow> bool \<Rightarrow> bool \<Rightarrow> log_level \<Rightarrow> nat) \<Rightarrow> LoggerConfig \<Rightarrow> nat result" where
  "newXTNetLogger lower new config =
     (case parseLogLevel lower (lc_Level config) of
        Inl err \<Rightarrow> Inl err
      | Inr level \<Rightarrow> Inr (new (lc_Dir config) (lc_FileSize config) (lc_Screen config) (lc_Async config) level))"

lemma newXTNetLogger_ok: "is_ok (newXTNetLogger lower new lc) \<longleftrightarrow> is_ok (parseLogLevel lower (lc_Level lc))"
  by (simp add: newXTNetLogger_def is_ok_def split: sum.split)

text \<open>The logger of a validated configuration can always be made.\<close>

lemma validated_logger:
  assumes "config_ok cenv c" "find (\<lambda>n. nc_ID n = i) (Nodes (norm_config cenv c)) = Some nodeConfig" "nc_Logger nodeConfig = Some lc"
  shows "is_ok (newXTNetLogger (unicodeLower cenv) new lc)"
proof -
  from assms(2) have "nodeConfig \<in> set (Nodes (norm_config cenv c))" by (metis find_Some_iff nth_mem)
  then obtain n where n: "n \<in> set (Nodes c)" "nodeConfig = norm_node cenv n" by (auto simp: norm_config_def)
  with assms(3) obtain lg where lg: "nc_Logger n = Some lg" "lc = norm_logger cenv lg" by (auto simp: norm_node_def)
  from assms(1) n(1) lg(1) have "logger_ok cenv lg" by (auto simp: config_ok_def list_all_iff node_ok_def)
  then show ?thesis by (simp add: newXTNetLogger_ok logger_ok_def lg(2))
qed

section \<open>The services of a node\<close>

text \<open>\<^verbatim>\<open>RegisterServiceFactory\<close> registers in the factories of the process, which a node uses by default.\<close>

definition RegisterServiceFactory :: "string \<Rightarrow> factory option \<Rightarrow> FactoryRegistry \<Rightarrow> gerror option \<times> FactoryRegistry" where
  "RegisterServiceFactory name factory defaultFactories = factory_Register name factory defaultFactories"


text \<open>The service a factory creates for a configuration, if \<^verbatim>\<open>NewNode\<close> can take it.\<close>

definition service_of :: "FactoryRegistry \<Rightarrow> ServiceConfig \<Rightarrow> service option" where
  "service_of r sc =
     (case factory_Get (sc_Name sc) r of
        None \<Rightarrow> None
      | Some factory \<Rightarrow>
          (case factory sc of
             Inr (Some svc) \<Rightarrow>
               if se_Loop svc \<noteq> None \<and> se_Name svc = sc_Name sc \<and> se_ID svc = sc_ID sc then Some svc else None
           | _ \<Rightarrow> None))"

definition loop_of :: "FactoryRegistry \<Rightarrow> ServiceConfig \<Rightarrow> nat" where
  "loop_of r sc = the (se_Loop (the (service_of r sc)))"

definition creatable :: "FactoryRegistry \<Rightarrow> ServiceConfig list \<Rightarrow> bool" where
  "creatable r scs \<longleftrightarrow> list_all (\<lambda>sc. service_of r sc \<noteq> None) scs \<and> distinct (map (loop_of r) scs)"

lemma create_services_step:
  "create_services r loops local order (sc # scs) =
     (case service_of r sc of
        Some svc \<Rightarrow>
          if go_get loops (loop_of r sc) = None
          then create_services r (go_put (loop_of r sc) (cfg_key sc) loops) (go_put (cfg_key sc) (new_runtime svc) local)
            (order @ [cfg_key sc]) scs
          else create_services r loops local order (sc # scs)
      | None \<Rightarrow> create_services r loops local order (sc # scs))"
  by (auto simp: service_of_def loop_of_def Let_def split: option.splits sum.splits if_splits)

lemma create_services_bad:
  assumes "service_of r sc = None \<or> go_get loops (loop_of r sc) \<noteq> None"
  shows "\<not> is_ok (create_services r loops local order (sc # scs))"
  using assms by (auto simp: service_of_def loop_of_def Let_def split: option.splits sum.splits if_splits)

lemma create_services_exact:
  "is_ok (create_services r loops local order scs) \<longleftrightarrow>
     creatable r scs \<and> (\<forall>sc \<in> set scs. go_get loops (loop_of r sc) = None)"
proof (induction scs arbitrary: loops local order)
  case (Cons sc scs)
  show ?case
  proof (cases "service_of r sc = None \<or> go_get loops (loop_of r sc) \<noteq> None")
    case True
    with create_services_bad [OF True] show ?thesis by (auto simp: creatable_def)
  next
    case False
    then obtain svc where "service_of r sc = Some svc" "go_get loops (loop_of r sc) = None" by auto
    moreover from this have "is_ok (create_services r loops local order (sc # scs)) \<longleftrightarrow>
        creatable r scs \<and> (\<forall>sc' \<in> set scs. go_get (go_put (loop_of r sc) (cfg_key sc) loops) (loop_of r sc') = None)"
      by (subst create_services_step) (simp add: Cons)
    ultimately show ?thesis by (simp add: creatable_def image_iff) metis
  qed
qed (simp add: creatable_def)

text \<open>
  C24. \<^verbatim>\<open>NewNode\<close> succeeds exactly under these conditions: the configuration is valid and contains the
  node, the options pass their checks, a logger is given or configured, and for every configured
  service there is a factory, which returns a service of that name and id with a loop, no two of them
  with the same one. In particular making the logger of a validated configuration cannot fail.
\<close>

theorem new_node_exact:
  "is_ok (fst (NewNode cenv (newXTNetLogger (unicodeLower cenv) new) df config nodeID opts pr)) \<longleftrightarrow>
     (\<exists>c nodeConfig. config = Some c \<and> config_ok cenv c \<and> Config_Node (Some (norm_config cenv c)) nodeID = Some nodeConfig \<and>
        check_options (apply_options opts (default_options df)) = None \<and>
        \<not> (op_logger (apply_options opts (default_options df)) = None \<and> nc_Logger nodeConfig = None) \<and>
        creatable (the (op_factories (apply_options opts (default_options df)))) (nc_Services nodeConfig))"
proof (cases "Config_Validate cenv config")
  case (Pair config' err)
  let ?o = "apply_options opts (default_options df)"
  let ?mk = "newXTNetLogger (unicodeLower cenv) new"
  show ?thesis
  proof (cases err)
    case (Some e)
    with Pair have "\<not> (\<exists>c. config = Some c \<and> config_ok cenv c)"
      using Config_Validate_Some [of cenv, THEN iffD2, OF conjI, OF _ refl] by fastforce
    moreover have "NewNode cenv ?mk df config nodeID opts pr = (Inl e, pr)" using Pair Some by (simp add: NewNode_def)
    ultimately show ?thesis by auto
  next
    case None
    with Pair obtain c where c: "config = Some c" "config_ok cenv c" "config' = Some (norm_config cenv c)"
      using validated by blast
    show ?thesis
    proof (cases "Config_Node (Some (norm_config cenv c)) nodeID")
      case found: (Some nodeConfig)
      have log: "is_ok (choose_logger ?mk nodeID nodeConfig ?o) \<longleftrightarrow> op_logger ?o \<noteq> None \<or> nc_Logger nodeConfig \<noteq> None"
      proof -
        from found have f: "find (\<lambda>n. nc_ID n = nodeID) (Nodes (norm_config cenv c)) = Some nodeConfig"
          by (simp add: Config_Node_def)
        have "\<exists>lg. ?mk lc = Inr lg" if "nc_Logger nodeConfig = Some lc" for lc
          using validated_logger [OF c(2) f that, of new] by (auto elim: is_okE)
        then show ?thesis by (force simp: choose_logger_def split: option.split sum.split)
      qed
      show ?thesis
        using Pair None c found log create_services_exact [of "the (op_factories ?o)" "[]" "[]" "[]" "nc_Services nodeConfig"]
        by (auto simp: NewNode_def is_ok_def Let_def split: option.splits sum.splits prod.splits)
    qed (use Pair None c in \<open>simp add: NewNode_def\<close>)
  qed
qed

end
