(* ===== verification/Call_Properties.thy ===== *)
theory Call_Properties
  imports Service_Call Node_Runs
begin

text \<open>
  Every request handed to a service is answered at most once, and every call of a service gets at
  most one result, whoever wins between the service, the timer and the shutdown of the node.
\<close>

section \<open>Calls\<close>

definition call_ok :: "local_call \<Rightarrow> bool" where
  "call_ok c \<longleftrightarrow> ca_timer c = (\<not> ca_completed c) \<and> (ca_winner c \<noteq> None \<longrightarrow> ca_completed c \<and> ca_results c = []) \<and>
     length (ca_results c) \<le> 1 \<and> (ca_results c \<noteq> [] \<longrightarrow> ca_completed c) \<and>
     (\<forall>r. ca_returned c = Some r \<longrightarrow> r \<in> set (ca_results c) \<or> snd r = Some (Sentinel ErrNodeStopped) \<and> ca_completed c)"

definition calls_ok :: "call_node \<Rightarrow> bool" where
  "calls_ok s \<longleftrightarrow> (\<forall>c \<in> set (c_calls s). call_ok c)"

lemma calls_upd:
  assumes "calls_ok s" "k < length (c_calls s)" "call_ok (c_calls s ! k) \<Longrightarrow> call_ok (f (c_calls s ! k))"
  shows "calls_ok (upd_call k f s)"
  using assms set_update_subset_insert [of "c_calls s" k] by (fastforce simp: calls_ok_def upd_call_def)

lemma calls_frame: "calls_ok s \<Longrightarrow> c_calls t = c_calls s \<Longrightarrow> calls_ok t"
  by (simp add: calls_ok_def)

lemma c_report_simps [simp]:
  "c_calls (c_report e s) = c_calls s" "c_queue (c_report e s) = c_queue s" "c_live (c_report e s) = c_live s"
  "c_posted (c_report e s) = c_posted s" "c_invoked (c_report e s) = c_invoked s" "c_state (c_report e s) = c_state s"
  "c_wheel (c_report e s) = c_wheel s" "c_callStop (c_report e s) = c_callStop s"
  by (simp_all add: c_report_def)

lemma upd_call_simps [simp]:
  "c_queue (upd_call k f s) = c_queue s" "c_live (upd_call k f s) = c_live s"
  "c_posted (upd_call k f s) = c_posted s" "c_invoked (upd_call k f s) = c_invoked s"
  "length (c_calls (upd_call k f s)) = length (c_calls s)"
  by (simp_all add: upd_call_def)

lemma calls_report [simp]: "calls_ok (c_report e s) = calls_ok s"
  by (simp add: calls_ok_def)

lemma cancel_simps [simp]:
  "c_queue (cancel_call k s) = c_queue s" "c_live (cancel_call k s) = c_live s"
  "c_posted (cancel_call k s) = c_posted s" "c_invoked (cancel_call k s) = c_invoked s"
  "length (c_calls (cancel_call k s)) = length (c_calls s)"
  by (simp_all add: cancel_call_def)

lemma calls_cancel: "calls_ok s \<Longrightarrow> k < length (c_calls s) \<Longrightarrow> calls_ok (cancel_call k s)"
  by (auto simp: cancel_call_def call_ok_def intro!: calls_upd)

text \<open>The effect of an invocation of a responder, apart from the node and the call.\<close>

lemma invoke_simps:
  assumes "invoke env r x s = (err, t)"
  shows "c_queue t = c_queue s" "c_live t = c_live s" "c_posted t = c_posted s" "c_invoked t = c_invoked s @ [r]"
    "length (c_calls t) = length (c_calls s)"
  using assms
  by (cases r; force simp: invoke_def Let_def call_responder_def split: prod.splits option.splits if_splits)+

lemma calls_invoke:
  assumes "invoke env r x s = (err, t)" "calls_ok s" "\<And>k. r = CallResponder k \<Longrightarrow> k < length (c_calls s)"
  shows "calls_ok t"
proof (cases r)
  case (CallResponder k)
  let ?s = "s\<lparr>c_invoked := c_invoked s @ [CallResponder k]\<rparr>"
  have "calls_ok ?s" using assms(2) by (simp add: calls_ok_def)
  then show ?thesis
    using assms(1,3) CallResponder
    by (auto simp: invoke_def Let_def call_responder_def call_ok_def split: if_splits intro!: calls_upd)
next
  case (RpcResponder session contextID)
  with assms(1) have "c_calls t = c_calls s"
    by (force simp: invoke_def Let_def split: prod.splits option.splits)
  with assms(2) show ?thesis by (rule calls_frame)
qed

section \<open>Responders\<close>

definition resp :: "service_task \<Rightarrow> localResponder multiset" where
  "resp task = (case task_responder task of None \<Rightarrow> {#} | Some r \<Rightarrow> {#r#})"

definition open_resp :: "service_task \<times> bool \<Rightarrow> localResponder multiset" where
  "open_resp x = (if snd x then {#} else resp (fst x))"

text \<open>
  The responders that are waiting: in closures that have not run, and in requests that have not
  been answered.
\<close>

definition outstanding :: "call_node \<Rightarrow> localResponder multiset" where
  "outstanding s = sum_list (map resp (c_queue s)) + sum_list (map open_resp (c_live s))"

definition is_async :: "service_task \<Rightarrow> bool" where
  "is_async task \<longleftrightarrow> (case task of AsyncTask source target messageID payload r \<Rightarrow> True | _ \<Rightarrow> False)"

text \<open>
  The invariant, with the responders \<open>x\<close> of a closure that is running: every responder handed to a
  service is waiting or has been invoked once, and that of a local call belongs to a call.
\<close>

definition own_ok :: "localResponder list \<Rightarrow> nat \<Rightarrow> bool" where
  "own_ok rs n \<longleftrightarrow> (\<forall>k. count (mset rs) (CallResponder k) \<le> (if k < n then 1 else 0))"

definition call_inv :: "localResponder multiset \<Rightarrow> call_node \<Rightarrow> bool" where
  "call_inv x s \<longleftrightarrow> calls_ok s \<and> (\<forall>y \<in> set (c_live s). is_async (fst y)) \<and>
     mset (c_posted s) = x + outstanding s + mset (c_invoked s) \<and>
     own_ok (c_posted s) (length (c_calls s))"

lemma call_inv_index:
  assumes "call_inv x s" "CallResponder k \<in># x + outstanding s"
  shows "k < length (c_calls s)"
proof (rule ccontr)
  assume "\<not> k < length (c_calls s)"
  with assms(1) have "count (mset (c_posted s)) (CallResponder k) = 0" unfolding call_inv_def own_ok_def by (metis le_zero_eq)
  moreover have "count (x + outstanding s) (CallResponder k) \<le> count (mset (c_posted s)) (CallResponder k)"
    using assms(1) by (simp add: call_inv_def)
  moreover have "0 < count (x + outstanding s) (CallResponder k)" using assms(2) by (simp only: count_greater_zero_iff)
  ultimately show False by linarith
qed

lemma sum_list_upd:
  fixes f :: "'a \<Rightarrow> 'b multiset"
  assumes "i < length xs"
  shows "sum_list (map f (xs[i := y])) + f (xs ! i) = sum_list (map f xs) + f y"
proof -
  have "sum_list (map f (take i xs)) + f y + sum_list (map f (drop (Suc i) xs)) + f (xs ! i) =
      sum_list (map f (take i xs)) + f (xs ! i) + sum_list (map f (drop (Suc i) xs)) + f y"
    by (simp add: union_ac)
  then show ?thesis
    using arg_cong [OF id_take_nth_drop [OF assms], of "\<lambda>xs. sum_list (map f xs)"]
    by (simp add: upd_conv_take_nth_drop [OF assms] union_ac)
qed

lemma sum_list_drop_nth:
  fixes f :: "'a \<Rightarrow> 'b multiset"
  assumes "i < length xs"
  shows "sum_list (map f xs) = f (xs ! i) + sum_list (map f (drop_nth i xs))"
  by (subst id_take_nth_drop [OF assms]) (simp add: drop_nth_def union_ac)

lemma call_inv_report [simp]: "call_inv x (c_report e s) = call_inv x s"
  by (simp add: call_inv_def outstanding_def)

lemma call_inv_invoke:
  assumes "call_inv (x + {#r#}) s" "invoke env r y s = (err, t)"
  shows "call_inv x t"
proof -
  note f = invoke_simps [OF assms(2)]
  have "k < length (c_calls s)" if "r = CallResponder k" for k
    using call_inv_index [OF assms(1), of k] that by simp
  with calls_invoke [OF assms(2)] assms(1) have "calls_ok t" by (simp add: call_inv_def)
  with assms(1) f show ?thesis by (simp add: call_inv_def outstanding_def)
qed

lemma call_inv_respondOnce:
  assumes "call_inv x s" "i < length (c_live s)"
  shows "call_inv x (respondOnce env i r s) \<and> length (c_live (respondOnce env i r s)) = length (c_live s)"
proof -
  have "is_async (fst (c_live s ! i))" using assms by (simp add: call_inv_def)
  then obtain source target messageID payload responder responded where
    l: "c_live s ! i = (AsyncTask source target messageID payload responder, responded)"
    by (cases "c_live s ! i"; cases "fst (c_live s ! i)") (auto simp: is_async_def)
  show ?thesis
  proof (cases responded)
    case True
    with assms l show ?thesis by (simp add: respondOnce_def)
  next
    case False
    let ?task = "AsyncTask source target messageID payload responder"
    let ?s = "s\<lparr>c_live := (c_live s)[i := (?task, True)]\<rparr>"
    obtain err t where t: "invoke env responder r ?s = (err, t)" by force
    have "outstanding s = outstanding ?s + {#responder#}"
      using sum_list_upd [OF assms(2), of open_resp "(?task, True)"] l False
      by (simp add: outstanding_def open_resp_def resp_def)
    moreover have "\<forall>y \<in> set ((c_live s)[i := (?task, True)]). is_async (fst y)"
      using assms(1) set_update_subset_insert [of "c_live s" i "(?task, True)"]
      by (auto simp: call_inv_def is_async_def)
    ultimately have "call_inv (x + {#responder#}) ?s"
      using assms(1) by (auto simp: call_inv_def calls_ok_def)
    from call_inv_invoke [OF this t] invoke_simps(2) [OF t] show ?thesis
      by (simp add: respondOnce_def l False t)
  qed
qed

lemma call_inv_fold:
  "call_inv x s \<Longrightarrow> i < length (c_live s) \<Longrightarrow>
     call_inv x (fold (respondOnce env i) rs s) \<and> length (c_live (fold (respondOnce env i) rs s)) = length (c_live s)"
  by (induction rs arbitrary: s) (simp_all add: call_inv_respondOnce)

lemma call_inv_run:
  assumes "call_inv (resp task) s"
  shows "call_inv {#} (run_task env made res task s)"
proof (cases task)
  case (SyncTask source target messageID payload r)
  obtain err t where t: "invoke env r
      (case res of Panics v stack \<Rightarrow> ('''', Some (panic_error target v stack)) | Returns p err \<Rightarrow> (p, err)) s = (err, t)"
    by force
  from assms have "call_inv ({#} + {#r#}) s" by (simp add: SyncTask resp_def)
  from call_inv_invoke [OF this t] t show ?thesis by (simp add: SyncTask run_task_def)
next
  case (AsyncTask source target messageID payload r)
  let ?s = "s\<lparr>c_live := c_live s @ [(task, False)]\<rparr>"
  have s: "call_inv {#} ?s"
    using assms by (auto simp: call_inv_def outstanding_def open_resp_def is_async_def AsyncTask calls_ok_def)
  note f = call_inv_fold [OF this, of "length (c_live s)" env made]
  with call_inv_respondOnce [of "{#}" "fold (respondOnce env (length (c_live s))) made ?s" "length (c_live s)" env]
  show ?thesis by (simp add: AsyncTask run_task_def Let_def split: outcome.split)
next
  case (DirectTask source target messageID payload)
  with assms show ?thesis by (simp add: run_task_def resp_def split: outcome.split option.split)
next
  case (DiscoveryTask subscriber name event svcs)
  with assms show ?thesis by (simp add: run_task_def resp_def split: outcome.split)
qed

lemma known_valid: "messageID_validate i = None \<Longrightarrow> known_kind i"
  by (auto simp: validate_None_iff known_kind_def)

text \<open>The closure a call posts.\<close>

definition call_task :: "bool \<Rightarrow> ServiceKey \<Rightarrow> ServiceKey \<Rightarrow> serviceMessageID \<Rightarrow> string \<Rightarrow> nat \<Rightarrow> service_task" where
  "call_task sync source target messageID payload k =
     (if sync then SyncTask source target messageID payload (CallResponder k)
      else AsyncTask source target messageID payload (CallResponder k))"

definition begun :: "bool \<Rightarrow> ServiceKey \<Rightarrow> ServiceKey \<Rightarrow> serviceMessageID \<Rightarrow> string \<Rightarrow> call_node \<Rightarrow> call_node" where
  "begun sync source target messageID payload s =
     (let task = call_task sync source target messageID payload (length (c_calls s)) in
      post_service task (s\<lparr>c_calls := c_calls s @ [new_call target sync],
        c_node := emit (PostService target task) (c_node s)\<rparr>))"

lemma call_local_accepted:
  assumes "operational s" "c_wheel s" "go_get (n_localServices (c_node s)) target \<noteq> None" "known_kind messageID"
  shows "call_local sync source target messageID payload s = (None, begun sync source target messageID payload s)"
  using assms
  by (auto simp: call_local_def newServiceCallTimer_def Let_def begun_def call_task_def dispatchLocalRequestSync_def
      dispatchLocalRequestAsync_def dispatch_local_def split: option.splits)

definition refusal :: "bool \<Rightarrow> bool \<Rightarrow> serviceMessageID \<Rightarrow> call_node \<Rightarrow> gerror option" where
  "refusal sync callback messageID s =
     (if \<not> operational s then Some (Sentinel ErrNodeStopped)
      else if messageID_validate messageID \<noteq> None then messageID_validate messageID
      else if \<not> sync \<and> \<not> callback then Some (Errorf ''service call callback is nil'' []) else None)"

lemma call_checked_local:
  assumes "go_get (n_localServices (c_node s)) target \<noteq> None" "operational s \<Longrightarrow> c_wheel s"
  shows "call_checked sync callback source target messageID payload remote s =
     (refusal sync callback messageID s, if refusal sync callback messageID s = None
        then begun sync source target messageID payload s else s)"
proof (cases "operational s \<and> messageID_validate messageID = None \<and> (sync \<or> callback)")
  case True
  with assms call_local_accepted [of s target messageID sync source payload] known_valid [of messageID] show ?thesis
    by (auto simp: call_checked_def refusal_def)
next
  case False
  then show ?thesis by (auto simp: call_checked_def refusal_def split: option.split)
qed

definition wheel_ok :: "call_node \<Rightarrow> bool" where
  "wheel_ok s \<longleftrightarrow> (operational s \<longrightarrow> c_wheel s)"

lemma own_snoc:
  assumes "own_ok rs n"
  shows "own_ok (rs @ [CallResponder n]) (Suc n)"
  unfolding own_ok_def
proof
  fix k
  have "count (mset rs) (CallResponder k) \<le> (if k < n then 1 else 0)" using assms unfolding own_ok_def by blast
  then show "count (mset (rs @ [CallResponder n])) (CallResponder k) \<le> (if k < Suc n then 1 else 0)"
    by (cases "k = n") (auto split: if_splits)
qed

lemma own_other:
  assumes "own_ok rs n" "\<And>k. r \<noteq> CallResponder k"
  shows "own_ok (rs @ [r]) n"
  using assms by (simp add: own_ok_def)

lemma call_inv_begun:
  assumes "call_inv {#} s"
  shows "call_inv {#} (begun sync source target messageID payload s)"
proof -
  let ?k = "length (c_calls s)"
  have "own_ok (c_posted s @ [CallResponder ?k]) (Suc ?k)" using assms by (simp add: call_inv_def own_snoc)
  with assms show ?thesis
    by (auto simp: call_inv_def begun_def Let_def post_service_def call_task_def calls_ok_def outstanding_def resp_def
        call_ok_def new_call_def)
qed

lemma call_inv_call:
  assumes "call_inv {#} s" "k < length (c_calls s)" "call_ok (c_calls s ! k) \<Longrightarrow> call_ok (f (c_calls s ! k))"
  shows "call_inv {#} (upd_call k f s)"
  using assms calls_upd [of s k f] by (simp add: call_inv_def outstanding_def)

lemma call_inv_cancel: "call_inv {#} s \<Longrightarrow> k < length (c_calls s) \<Longrightarrow> call_inv {#} (cancel_call k s)"
  by (auto simp: cancel_call_def call_ok_def intro!: call_inv_call)

lemma call_inv_step:
  assumes "call_inv {#} s" "wheel_ok s" "call_step env s e t"
  shows "call_inv {#} t"
  using assms(3)
proof (cases rule: call_step.cases)
  case (call_CallLocal target sync callback source messageID payload err)
  from call_CallLocal(2,3) assms(2) call_checked_local [of s target sync callback source messageID payload]
  have "t = s \<or> t = begun sync source target messageID payload s" by (auto simp: wheel_ok_def split: if_splits)
  with assms(1) call_inv_begun [OF assms(1)] show ?thesis by metis
next
  case (call_Arrive task)
  have "own_ok (c_posted s @ (case task_responder task of None \<Rightarrow> [] | Some r \<Rightarrow> [r])) (length (c_calls s))"
    using assms(1) call_Arrive(3) by (auto simp: call_inv_def own_other split: option.split)
  with assms(1) show ?thesis
    by (auto simp: call_Arrive(2) call_inv_def post_service_def calls_ok_def outstanding_def resp_def split: option.splits)
next
  case (call_RunTask i made res)
  let ?s = "s\<lparr>c_queue := drop_nth i (c_queue s)\<rparr>"
  have "outstanding s = resp (c_queue s ! i) + outstanding ?s"
    using sum_list_drop_nth [OF call_RunTask(3), of resp] by (simp add: outstanding_def union_ac)
  with assms(1) have "call_inv (resp (c_queue s ! i)) ?s" by (auto simp: call_inv_def calls_ok_def)
  then show ?thesis unfolding call_RunTask(2) by (rule call_inv_run)
next
  case (call_RespondLater i r)
  with call_inv_respondOnce [OF assms(1)] show ?thesis by simp
next
  case (call_TimerFires k)
  with assms(1) show ?thesis by (auto simp: timer_fire_def Let_def call_ok_def intro!: call_inv_call)
next
  case (call_Deliver k r)
  with assms(1) show ?thesis by (auto simp: deliver_def call_ok_def intro!: call_inv_call)
next
  case (call_Receive k r rs)
  with assms(1) show ?thesis by (auto simp: sync_receive_def call_ok_def intro!: call_inv_call)
next
  case (call_StoppedWait k)
  have "call_inv {#} (cancel_call k s)" "ca_completed (c_calls (cancel_call k s) ! k)"
    using call_inv_cancel [OF assms(1) call_StoppedWait(3)] call_StoppedWait(3) by (auto simp: cancel_call_def upd_call_def)
  with call_StoppedWait show ?thesis by (auto simp: sync_stopped_def call_ok_def intro!: call_inv_call)
qed (use assms(1) in \<open>simp_all add: call_inv_def calls_ok_def outstanding_def\<close>)

lemma invoke_state:
  "invoke env r x s = (err, t) \<Longrightarrow> c_state t = c_state s \<and> c_wheel t = c_wheel s"
  by (cases r) (force simp: invoke_def Let_def call_responder_def upd_call_def split: prod.splits option.splits if_splits)+

lemma respondOnce_state: "c_state (respondOnce env i r s) = c_state s \<and> c_wheel (respondOnce env i r s) = c_wheel s"
  by (auto simp: respondOnce_def split: prod.split service_task.split dest!: invoke_state)

lemma fold_state:
  "c_state (fold (respondOnce env i) rs s) = c_state s \<and> c_wheel (fold (respondOnce env i) rs s) = c_wheel s"
  by (induction rs arbitrary: s) (simp_all add: respondOnce_state)

lemma run_state: "c_state (run_task env made res task s) = c_state s \<and> c_wheel (run_task env made res task s) = c_wheel s"
  by (cases task)
    (auto simp: run_task_def Let_def respondOnce_state fold_state split: outcome.split option.split prod.split dest!: invoke_state)

definition call_all :: "call_node \<Rightarrow> bool" where
  "call_all s \<longleftrightarrow> call_inv {#} s \<and> (c_state s \<noteq> nodeStateInitial \<longrightarrow> c_wheel s)"

lemma call_all_wheel: "call_all s \<Longrightarrow> wheel_ok s"
  by (auto simp: call_all_def wheel_ok_def operational_def)

lemma wheel_step:
  assumes "call_all s" "call_step env s e t" "c_state t \<noteq> nodeStateInitial"
  shows "c_wheel t"
  using assms(2)
proof (cases rule: call_step.cases)
  case (call_CallLocal target sync callback source messageID payload err)
  from call_CallLocal(2,3) call_all_wheel [OF assms(1)] call_checked_local [of s target sync callback source messageID payload]
  have "t = s \<or> t = begun sync source target messageID payload s" by (auto simp: wheel_ok_def split: if_splits)
  with assms(1,3) show ?thesis by (auto simp: call_all_def begun_def Let_def post_service_def)
qed (use assms(1,3) in \<open>auto simp: call_all_def run_state respondOnce_state post_service_def timer_fire_def Let_def
    deliver_def sync_receive_def sync_stopped_def cancel_call_def upd_call_def split: if_splits\<close>)

interpretation calls: inductive_invariant call_init "call_step env" call_all for env
proof unfold_locales
  show "call_init s \<Longrightarrow> call_all s" for s
    by (simp add: call_init_def call_all_def call_inv_def calls_ok_def outstanding_def own_ok_def)
  show "call_all s \<Longrightarrow> call_step env s e t \<Longrightarrow> call_all t" for s e t
    using call_inv_step [of s env e t] call_all_wheel [of s] wheel_step [of s env e t] by (auto simp: call_all_def)
qed

section \<open>A run\<close>

text \<open>
  A service calls another one asynchronously: the timer fires first, then the service answers; a
  second, synchronous call is answered at once.
\<close>

fun call_exec :: "go_env \<Rightarrow> call_node \<Rightarrow> call_event \<Rightarrow> call_node option" where
  "call_exec env s (CallLocal sync callback source target messageID payload) =
     (if go_get (n_localServices (c_node s)) target \<noteq> None
      then Some (snd (call_checked sync callback source target messageID payload (\<lambda>s. (None, s)) s)) else None)"
| "call_exec env s (RunTask i made res) =
     (if i < length (c_queue s) \<and> list_all (\<lambda>j. task_target (c_queue s ! j) \<noteq> task_target (c_queue s ! i)) [0..<i]
      then Some (run_task env made res (c_queue s ! i) (s\<lparr>c_queue := drop_nth i (c_queue s)\<rparr>)) else None)"
| "call_exec env s (RespondLater i r) = (if i < length (c_live s) then Some (respondOnce env i r s) else None)"
| "call_exec env s (TimerFires k) =
     (if k < length (c_calls s) \<and> ca_timer (c_calls s ! k) \<and> \<not> c_callStop s then Some (timer_fire k s) else None)"
| "call_exec env s (Deliver k) =
     (if k < length (c_calls s) then
        (case ca_winner (c_calls s ! k) of Some r \<Rightarrow> Some (deliver k r s) | None \<Rightarrow> None)
      else None)"
| "call_exec env s (Receive k) =
     (if k < length (c_calls s) \<and> ca_sync (c_calls s ! k) \<and> ca_returned (c_calls s ! k) = None then
        (case ca_results (c_calls s ! k) of r # rs \<Rightarrow> Some (sync_receive k r s) | [] \<Rightarrow> None)
      else None)"
| "call_exec env s NodeStarts =
     (if c_state s = nodeStateInitial then Some (s\<lparr>c_wheel := True, c_state := nodeStateStarting\<rparr>) else None)"
| "call_exec env s NodeRuns =
     (if c_state s = nodeStateStarting \<and> \<not> c_callStop s then Some (s\<lparr>c_state := nodeStateRunning\<rparr>) else None)"
| "call_exec env s _ = None"

lemma call_exec_step: "call_exec env s e = Some t \<Longrightarrow> call_step env s e t"
proof (induction env s e rule: call_exec.induct)
  case (1 env s sync callback source target messageID payload)
  then show ?case by (auto split: if_splits intro!: call_step.call_CallLocal prod.collapse [symmetric])
qed (auto split: if_splits option.splits list.splits simp: list_all_iff intro: call_step.intros)

fun call_run :: "go_env \<Rightarrow> call_node \<Rightarrow> call_event list \<Rightarrow> call_node option" where
  "call_run env s [] = Some s"
| "call_run env s (e # es) = (case call_exec env s e of Some t \<Rightarrow> call_run env t es | None \<Rightarrow> None)"

lemma call_run_reach: "call_reach env s \<Longrightarrow> call_run env s es = Some t \<Longrightarrow> call_reach env t"
proof (induction env s es rule: call_run.induct)
  case (2 env s e es)
  from 2(3) obtain u where u: "call_exec env s e = Some u" "call_run env u es = Some t" by (auto split: option.splits)
  from reach_step [OF 2(2) call_exec_step [OF u(1)]] 2(1) [OF u(1)] u(2) show ?case by blast
qed simp

definition demo_calls :: call_node where
  "demo_calls = \<lparr>c_node = demo_main\<lparr>n_localServices := [(ServiceKey ''room'' 1,
       \<lparr>rt_handler = False, rt_started = True, rt_registered = True, rt_subscriptions = []\<rparr>)]\<rparr>,
     c_state = nodeStateInitial, c_wheel = False, c_callStop = False, c_timeout = ''3s'', c_calls = [], c_queue = [],
     c_live = [], c_posted = [], c_invoked = []\<rparr>"

definition demo_call_events :: "call_event list" where
  "demo_call_events = [NodeStarts, NodeRuns,
     CallLocal False True (ServiceKey ''gate'' 1) (ServiceKey ''room'' 1) (numericServiceMessageID 7) ''join'',
     RunTask 0 [] (Returns '''' None), TimerFires 0, Deliver 0, RespondLater 0 (''late'', None),
     CallLocal True False (ServiceKey ''gate'' 1) (ServiceKey ''room'' 1) (stringServiceMessageID ''who'') ''x'',
     RunTask 0 [] (Returns ''me'' None), Deliver 1, Receive 1]"

definition demo_called :: call_node where
  "demo_called = the (call_run demo_env demo_calls demo_call_events)"

lemma demo_called_reach: "call_reach demo_env demo_called"
proof -
  have "call_run demo_env demo_calls demo_call_events \<noteq> None" by code_simp
  then have "call_run demo_env demo_calls demo_call_events = Some demo_called" by (auto simp: demo_called_def)
  then show ?thesis
    by (rule call_run_reach [rotated]) (auto intro: reach_init simp: call_init_def demo_calls_def)
qed

section \<open>Properties\<close>



text \<open>
  C17. Every request handed to a service is answered at most once: at every moment the responders
  handed over are exactly the ones whose closure has not run, the ones whose handler has not
  responded yet, and the ones that have been invoked, each as often as it was handed over. A
  handler that responds twice or panics after its response does not answer twice.
\<close>

theorem responder_balance:
  assumes "call_reach env s"
  shows "mset (c_posted s) = sum_list (map resp (c_queue s)) + sum_list (map open_resp (c_live s)) + mset (c_invoked s)"
  using calls.reach_inv [OF assms] by (simp add: call_all_def call_inv_def outstanding_def)

theorem responder_balance_witness:
  "mset (c_posted demo_called) =
     sum_list (map resp (c_queue demo_called)) + sum_list (map open_resp (c_live demo_called)) + mset (c_invoked demo_called) \<and>
   c_posted demo_called = [CallResponder 0, CallResponder 1]"
proof -
  have "c_posted demo_called = [CallResponder 0, CallResponder 1]" by code_simp
  with responder_balance [OF demo_called_reach] show ?thesis by simp
qed

text \<open>
  A local call is refused exactly when the node is not operational, the message id is invalid
  or the callback of an asynchronous call is missing, in this order, and then nothing has happened:
  no timer is armed and the callback will not be invoked. Otherwise the call is accepted, its timer
  is armed and its closure posted to the service.
\<close>

theorem call_accepted:
  assumes "call_reach env s" "go_get (n_localServices (c_node s)) target \<noteq> None"
  shows "call_checked sync callback source target messageID payload remote s =
     (refusal sync callback messageID s, if refusal sync callback messageID s = None
        then begun sync source target messageID payload s else s)"
  using calls.reach_inv [OF assms(1)] call_all_wheel [of s] by (intro call_checked_local assms(2)) (simp add: wheel_ok_def)

theorem call_accepted_witness:
  "call_checked False True (ServiceKey ''gate'' 1) (ServiceKey ''room'' 1) (numericServiceMessageID 0) ''p'' (\<lambda>s. (None, s)) demo_called =
     (Some (wrapf ErrInvalidMessage ''numeric message id is zero'' []), demo_called)"
proof -
  have "go_get (n_localServices (c_node demo_called)) (ServiceKey ''room'' 1) \<noteq> None" by code_simp
  moreover have "refusal False True (numericServiceMessageID 0) demo_called =
      Some (wrapf ErrInvalidMessage ''numeric message id is zero'' [])" by code_simp
  ultimately show ?thesis using call_accepted [OF demo_called_reach] by simp
qed

end
