(* ===== verification/Restore.thy ===== *)
theory Restore
  imports Call_Properties "HOL-Library.Sublist"
begin

text \<open>
  What a node asks of the main node for its services: \<^verbatim>\<open>subscribeService\<close> and
  \<^verbatim>\<open>runtimeSubscriptionNames\<close> of \<^verbatim>\<open>service_subscription.go\<close>, and \<^verbatim>\<open>restoreMainNodeState\<close> of
  \<^verbatim>\<open>main_recovery.go\<close>, which registers the services again and renews their subscriptions over a new
  connection.
\<close>

section \<open>Subscriptions\<close>

datatype main_request = RegisterAt ServiceLocation | UnregisterAt ServiceKey | SubscribeAt ServiceKey string

text \<open>\<^verbatim>\<open>subscribeService\<close>: the subscription is kept, and requested now if the service is registered.\<close>

definition subscribeService ::
    "(main_request \<Rightarrow> gerror option) \<Rightarrow> ServiceKey \<Rightarrow> string \<Rightarrow> call_node \<Rightarrow> gerror option \<times> call_node" where
  "subscribeService main_answer subscriber serviceName s =
     (if \<not> operational s then (Some (Sentinel ErrNodeStopped), s)
      else case normalizeSubscribedServiceName serviceName of
        Inl err \<Rightarrow> (Some (wrapf ErrInvalidMessage ''%v'' [ArgV err]), s)
      | Inr name \<Rightarrow>
          (case go_get (n_localServices (c_node s)) subscriber of
             None \<Rightarrow> (Some (wrapf ErrServiceNotFound ''subscriber %s'' [ArgS (key_String subscriber)]), s)
           | Some runtime \<Rightarrow>
               let runtime = runtime\<lparr>rt_subscriptions := go_put name () (rt_subscriptions runtime)\<rparr>;
                   s = s\<lparr>c_node := (c_node s)\<lparr>n_localServices := go_put subscriber runtime (n_localServices (c_node s))\<rparr>\<rparr>
               in if \<not> rt_registered runtime then (None, s) else (main_answer (SubscribeAt subscriber name), s)))"

definition runtimeSubscriptionNames :: "serviceRuntime \<Rightarrow> string list" where
  "runtimeSubscriptionNames runtime = sort (map fst (rt_subscriptions runtime))"

section \<open>Restoring\<close>

text \<open>
  \<open>main_answer\<close> answers a request over the new client; \<open>runs\<close> says for every check whether the node is
  still running. The result holds the requests made.
\<close>

definition register_request :: "server_node \<Rightarrow> ServiceKey \<Rightarrow> main_request" where
  "register_request n key = RegisterAt \<lparr>ServiceName = key_Name key, ServiceID = key_ID key, NodeID = n_id n, NodeAddr = n_listenAddr n\<rparr>"

text \<open>\<^verbatim>\<open>subscribeRuntimeWithClient\<close>.\<close>

fun subscribe_runtime :: "(main_request \<Rightarrow> gerror option) \<Rightarrow> ServiceKey \<Rightarrow> string list \<Rightarrow> main_request list \<times> gerror option" where
  "subscribe_runtime main_answer subscriber [] = ([], None)"
| "subscribe_runtime main_answer subscriber (name # names) =
     (case main_answer (SubscribeAt subscriber name) of
        Some err \<Rightarrow> ([SubscribeAt subscriber name], Some (Errorf ''%s: %w'' [ArgS name, ArgW err]))
      | None \<Rightarrow> (case subscribe_runtime main_answer subscriber names of (made, err) \<Rightarrow> (SubscribeAt subscriber name # made, err)))"

text \<open>
  The two loops over \<^verbatim>\<open>serviceOrder\<close>; \<open>body\<close> is what they do for a registered service. A node has a
  runtime for every key of \<^verbatim>\<open>serviceOrder\<close>, so the lookup does not fail.
\<close>

fun restore_loop ::
    "(nat \<Rightarrow> bool) \<Rightarrow> (ServiceKey \<Rightarrow> serviceRuntime \<Rightarrow> main_request list \<times> gerror option) \<Rightarrow>
     (ServiceKey, serviceRuntime) gomap \<Rightarrow> nat \<Rightarrow> ServiceKey list \<Rightarrow> main_request list \<times> gerror option" where
  "restore_loop runs body svcs i [] = ([], None)"
| "restore_loop runs body svcs i (key # keys) =
     (if \<not> runs i then ([], Some (Sentinel ErrNodeStopped))
      else case go_get svcs key of
        None \<Rightarrow> restore_loop runs body svcs (Suc i) keys
      | Some runtime \<Rightarrow>
          if \<not> rt_registered runtime then restore_loop runs body svcs (Suc i) keys
          else
            (case body key runtime of
               (made, Some err) \<Rightarrow> (made, Some err)
             | (made, None) \<Rightarrow>
                 (case restore_loop runs body svcs (Suc i) keys of (later, err) \<Rightarrow> (made @ later, err))))"

definition restoreMainNodeState ::
    "(nat \<Rightarrow> bool) \<Rightarrow> (main_request \<Rightarrow> gerror option) \<Rightarrow> ServiceKey list \<Rightarrow> server_node \<Rightarrow> main_request list \<times> gerror option" where
  "restoreMainNodeState runs main_answer serviceOrder n =
     (let register = (\<lambda>key runtime.
            ([register_request n key],
             case main_answer (register_request n key) of None \<Rightarrow> None
             | Some err \<Rightarrow> Some (Errorf ''register service %s: %w'' [ArgS (key_String key), ArgW err])));
          subscribe = (\<lambda>key runtime.
            (case subscribe_runtime main_answer key (runtimeSubscriptionNames runtime) of
               (made, None) \<Rightarrow> (made, None)
             | (made, Some err) \<Rightarrow> (made, Some (Errorf ''subscribe service %s: %w'' [ArgS (key_String key), ArgW err]))))
      in case restore_loop runs register (n_localServices n) 0 serviceOrder of
           (made, Some err) \<Rightarrow> (made, Some err)
         | (made, None) \<Rightarrow>
             (case restore_loop runs subscribe (n_localServices n) (length serviceOrder) serviceOrder of
                (later, err) \<Rightarrow> (made @ later, err)))"

section \<open>What is requested\<close>

text \<open>
  \<open>asked live main_answer full r\<close>: the requests \<open>full\<close> were made one after the other until one failed or the
  node was stopped.
\<close>

definition asked :: "bool \<Rightarrow> (main_request \<Rightarrow> gerror option) \<Rightarrow> main_request list \<Rightarrow> main_request list \<times> gerror option \<Rightarrow> bool" where
  "asked live main_answer full r \<longleftrightarrow>
     prefix (fst r) full \<and> (snd r = None \<longleftrightarrow> live \<and> (\<forall>q\<in>set full. main_answer q = None)) \<and> (snd r = None \<longrightarrow> fst r = full)"

lemma asked_nil: "asked True main_answer [] ([], None)"
  by (simp add: asked_def)

lemma asked_stopped: "asked False main_answer full ([], Some err)"
  by (simp add: asked_def)

lemma asked_one: "(snd r = None \<longleftrightarrow> main_answer q = None) \<Longrightarrow> fst r = [q] \<Longrightarrow> asked True main_answer [q] r"
  by (simp add: asked_def)

lemma asked_live: "asked live main_answer full r \<Longrightarrow> live = live' \<Longrightarrow> asked live' main_answer full r"
  by simp

lemma asked_error: "asked live main_answer full (made, Some err) \<Longrightarrow> asked live main_answer full (made, Some err')"
  by (simp add: asked_def)

lemma asked_append:
  assumes "asked live1 main_answer full1 (made1, err1)" "asked live2 main_answer full2 (made2, err2)"
  shows "asked (live1 \<and> live2) main_answer (full1 @ full2)
           (case err1 of Some err \<Rightarrow> (made1, Some err) | None \<Rightarrow> (made1 @ made2, err2))"
  using assms by (cases err1) (auto simp: asked_def prefix_append)

lemma subscribe_runtime_asked:
  "asked True main_answer (map (SubscribeAt subscriber) names) (subscribe_runtime main_answer subscriber names)"
proof (induction names)
  case (Cons name names)
  obtain made err where rest: "subscribe_runtime main_answer subscriber names = (made, err)" by (rule prod.exhaust)
  have "asked True main_answer [SubscribeAt subscriber name]
          ([SubscribeAt subscriber name], map_option (\<lambda>err. Errorf ''%s: %w'' [ArgS name, ArgW err]) (main_answer (SubscribeAt subscriber name)))"
    by (simp add: asked_def)
  from asked_append [OF this, of True "map (SubscribeAt subscriber) names" made err] Cons rest show ?case
    by (auto split: option.splits)
qed (simp add: asked_nil)

definition of_registered :: "(ServiceKey \<Rightarrow> serviceRuntime \<Rightarrow> 'a list) \<Rightarrow> (ServiceKey, serviceRuntime) gomap \<Rightarrow> ServiceKey list \<Rightarrow> 'a list" where
  "of_registered f svcs keys =
     concat (map (\<lambda>key. case go_get svcs key of None \<Rightarrow> [] | Some rt \<Rightarrow> if rt_registered rt then f key rt else []) keys)"

lemma all_less_Suc_shift: "(\<forall>j<Suc m. P (i + j)) \<longleftrightarrow> P i \<and> (\<forall>j<m. P (Suc i + j))"
  by (auto simp: less_Suc_eq_0_disj)

lemma restore_loop_asked:
  assumes "\<And>key rt. asked True main_answer (req key rt) (body key rt)"
  shows "asked (\<forall>j<length keys. runs (i + j)) main_answer (of_registered req svcs keys) (restore_loop runs body svcs i keys)"
proof (induction keys arbitrary: i)
  case Nil
  show ?case by (simp add: asked_def of_registered_def)
next
  case (Cons key keys)
  show ?case
  proof (cases "runs i")
    case False
    then have "(\<forall>j<length (key # keys). runs (i + j)) = False" by (auto intro: exI [of _ 0])
    then show ?thesis by (simp only: restore_loop.simps False not_False_eq_True if_True asked_stopped)
  next
    case True
    then have live: "(\<forall>j<length (key # keys). runs (i + j)) \<longleftrightarrow> (\<forall>j<length keys. runs (Suc i + j))"
      by (simp add: all_less_Suc_shift del: add_Suc)
    obtain made err where rest: "restore_loop runs body svcs (Suc i) keys = (made, err)" by (rule prod.exhaust)
    show ?thesis
    proof (cases "\<exists>rt. go_get svcs key = Some rt \<and> rt_registered rt")
      case False
      then show ?thesis unfolding live using Cons [of "Suc i"] True by (auto simp: of_registered_def split: option.splits)
    next
      case reg: True
      then obtain rt where rt: "go_get svcs key = Some rt" "rt_registered rt" by blast
      obtain made1 err1 where b: "body key rt = (made1, err1)" by (rule prod.exhaust)
      show ?thesis unfolding live
        using asked_append [OF assms [of key rt, unfolded b] Cons [of "Suc i", unfolded rest]] True rt b rest
        by (auto simp: of_registered_def split: option.splits)
    qed
  qed
qed

text \<open>The requests of a complete restoration.\<close>

definition restore_requests :: "ServiceKey list \<Rightarrow> server_node \<Rightarrow> main_request list" where
  "restore_requests serviceOrder n =
     of_registered (\<lambda>key rt. [register_request n key]) (n_localServices n) serviceOrder @
     of_registered (\<lambda>key rt. map (SubscribeAt key) (runtimeSubscriptionNames rt)) (n_localServices n) serviceOrder"

lemma restore_asked:
  "asked (\<forall>i<2 * length serviceOrder. runs i) main_answer (restore_requests serviceOrder n) (restoreMainNodeState runs main_answer serviceOrder n)"
proof -
  let ?reg = "\<lambda>key (runtime :: serviceRuntime). ([register_request n key],
      case main_answer (register_request n key) of None \<Rightarrow> None
      | Some err \<Rightarrow> Some (Errorf ''register service %s: %w'' [ArgS (key_String key), ArgW err]))"
  let ?sub = "\<lambda>key runtime. (case subscribe_runtime main_answer key (runtimeSubscriptionNames runtime) of
      (made, None) \<Rightarrow> (made, None)
    | (made, Some err) \<Rightarrow> (made, Some (Errorf ''subscribe service %s: %w'' [ArgS (key_String key), ArgW err])))"
  have r: "asked True main_answer [register_request n key] (?reg key rt)" for key rt
    by (auto simp: asked_def split: option.splits)
  have s: "asked True main_answer (map (SubscribeAt key) (runtimeSubscriptionNames rt)) (?sub key rt)" for key rt
    using subscribe_runtime_asked [of main_answer key "runtimeSubscriptionNames rt"]
    by (auto simp: asked_error split: prod.splits option.splits)
  obtain m1 e1 where l1: "restore_loop runs ?reg (n_localServices n) 0 serviceOrder = (m1, e1)" by (rule prod.exhaust)
  obtain m2 e2 where l2: "restore_loop runs ?sub (n_localServices n) (length serviceOrder) serviceOrder = (m2, e2)" by (rule prod.exhaust)
  have live: "(\<forall>j<k. runs (0 + j)) \<and> (\<forall>j<k. runs (k + j)) \<longleftrightarrow> (\<forall>i<2 * k. runs i)" for k
    by (auto simp: mult_2) (metis add.commute add_less_cancel_left le_add_diff_inverse linorder_not_less)
  from asked_append [OF restore_loop_asked [where req = "\<lambda>key rt. [register_request n key]" and body = ?reg and keys = serviceOrder and runs = runs and i = 0 and svcs = "n_localServices n", OF r, unfolded l1]
      restore_loop_asked [where body = ?sub and keys = serviceOrder and runs = runs and i = "length serviceOrder" and svcs = "n_localServices n", OF s, unfolded l2]]
  show ?thesis
    unfolding live restore_requests_def [symmetric] restoreMainNodeState_def Let_def l1 l2
    by (auto split: option.splits)
qed

lemma runtimeSubscriptionNames_set: "set (runtimeSubscriptionNames rt) = goset_of (rt_subscriptions rt)"
  by (auto simp: runtimeSubscriptionNames_def go_get_def map_of_eq_None_iff)

text \<open>
  C16. Restoring the state at the main node reports success exactly when the node ran at all of its checks
  and no request failed. It has then made exactly these requests in this order: one registration for
  every registered service in the order of the configuration, and after all of them the subscriptions
  of each registered service, by name. When it fails it has made a prefix of them, and subscribes only
  after every service is registered.
\<close>

theorem restore_complete:
  "(snd (restoreMainNodeState runs main_answer serviceOrder n) = None \<longleftrightarrow>
     (\<forall>i<2 * length serviceOrder. runs i) \<and> (\<forall>q\<in>set (restore_requests serviceOrder n). main_answer q = None)) \<and>
   prefix (fst (restoreMainNodeState runs main_answer serviceOrder n)) (restore_requests serviceOrder n) \<and>
   (snd (restoreMainNodeState runs main_answer serviceOrder n) = None \<longrightarrow>
      fst (restoreMainNodeState runs main_answer serviceOrder n) = restore_requests serviceOrder n)"
  using restore_asked [of serviceOrder runs main_answer n] by (simp add: asked_def)


definition demo_restoring :: server_node where
  "demo_restoring = (c_node demo_calls)\<lparr>n_localServices :=
     [(ServiceKey ''gate'' 1, \<lparr>rt_handler = True, rt_started = True, rt_registered = True, rt_subscriptions = [(''room'', ()), (''chat'', ())]\<rparr>),
      (ServiceKey ''idle'' 1, \<lparr>rt_handler = True, rt_started = True, rt_registered = False, rt_subscriptions = [(''gate'', ())]\<rparr>),
      (ServiceKey ''room'' 1, \<lparr>rt_handler = True, rt_started = True, rt_registered = True, rt_subscriptions = []\<rparr>)]\<rparr>"

definition demo_order :: "ServiceKey list" where
  "demo_order = [ServiceKey ''gate'' 1, ServiceKey ''idle'' 1, ServiceKey ''room'' 1]"

lemma demo_requests:
  "restore_requests demo_order demo_restoring =
     [register_request demo_restoring (ServiceKey ''gate'' 1), register_request demo_restoring (ServiceKey ''room'' 1),
      SubscribeAt (ServiceKey ''gate'' 1) ''chat'', SubscribeAt (ServiceKey ''gate'' 1) ''room'']"
  by code_simp

theorem restore_complete_witness:
  "fst (restoreMainNodeState (\<lambda>i. True) (\<lambda>q. None) demo_order demo_restoring) =
     [register_request demo_restoring (ServiceKey ''gate'' 1), register_request demo_restoring (ServiceKey ''room'' 1),
      SubscribeAt (ServiceKey ''gate'' 1) ''chat'', SubscribeAt (ServiceKey ''gate'' 1) ''room'']"
  using restore_complete [of "\<lambda>i. True" "\<lambda>q. None" demo_order demo_restoring] by (simp add: demo_requests)

text \<open>
  C36. Subscribing on an operational node keeps the normalised name for the service and loses no other
  subscription of any service, whatever the main node answers, so that a later restoration of a
  registered service asks for it again; the main node is asked at once exactly when the service is
  registered.
\<close>

theorem subscription_kept:
  assumes "operational s" "normalizeSubscribedServiceName serviceName = Inr name"
    "go_get (n_localServices (c_node s)) subscriber = Some rt"
    "subscribeService main_answer subscriber serviceName s = (err, t)"
  shows "(\<exists>rt'. n_localServices (c_node t) = go_put subscriber rt' (n_localServices (c_node s)) \<and>
            rt_registered rt' = rt_registered rt \<and> rt_started rt' = rt_started rt \<and>
            set (runtimeSubscriptionNames rt') = insert name (set (runtimeSubscriptionNames rt))) \<and>
         err = (if rt_registered rt then main_answer (SubscribeAt subscriber name) else None) \<and>
         (rt_registered rt \<and> subscriber \<in> set serviceOrder \<longrightarrow>
            SubscribeAt subscriber name \<in> set (restore_requests serviceOrder (c_node t)))"
proof -
  let ?rt = "rt\<lparr>rt_subscriptions := go_put name () (rt_subscriptions rt)\<rparr>"
  have t: "c_node t = (c_node s)\<lparr>n_localServices := go_put subscriber ?rt (n_localServices (c_node s))\<rparr>"
    and err: "err = (if rt_registered rt then main_answer (SubscribeAt subscriber name) else None)"
    using assms by (auto simp: subscribeService_def Let_def split: if_splits)
  have names: "set (runtimeSubscriptionNames ?rt) = insert name (set (runtimeSubscriptionNames rt))"
    by (auto simp: runtimeSubscriptionNames_set)
  have "SubscribeAt subscriber name \<in> set (restore_requests serviceOrder (c_node t))"
    if "rt_registered rt" "subscriber \<in> set serviceOrder"
    using that names by (auto simp: t restore_requests_def of_registered_def intro!: bexI [of _ subscriber])
  with t err names show ?thesis by (auto intro!: exI [of _ ?rt])
qed

definition demo_subscribing :: call_node where
  "demo_subscribing = demo_calls\<lparr>c_node := demo_restoring, c_state := nodeStateRunning\<rparr>"

theorem subscription_kept_witness:
  "fst (subscribeService (\<lambda>q. Some (Sentinel ErrRPCDisconnected)) (ServiceKey ''room'' 1) '' mail '' demo_subscribing) =
     Some (Sentinel ErrRPCDisconnected) \<and>
   SubscribeAt (ServiceKey ''room'' 1) ''mail'' \<in>
     set (restore_requests demo_order
       (c_node (snd (subscribeService (\<lambda>q. Some (Sentinel ErrRPCDisconnected)) (ServiceKey ''room'' 1) '' mail '' demo_subscribing))))"
proof -
  have op: "operational demo_subscribing" by code_simp
  have name: "normalizeSubscribedServiceName '' mail '' = Inr ''mail''" by code_simp
  have rt: "go_get (n_localServices (c_node demo_subscribing)) (ServiceKey ''room'' 1) =
      Some \<lparr>rt_handler = True, rt_started = True, rt_registered = True, rt_subscriptions = []\<rparr>" by code_simp
  have order: "ServiceKey ''room'' 1 \<in> set demo_order" by (simp add: demo_order_def)
  show ?thesis
    using subscription_kept [OF op name rt prod.collapse [symmetric], of "\<lambda>q. Some (Sentinel ErrRPCDisconnected)" demo_order] order
    by simp
qed

end
