(* ===== verification/Control_Requests.thy ===== *)
theory Control_Requests
  imports Restore Rpc_Client
begin

text \<open>
  What a node asks of the main node: \<^verbatim>\<open>registerService\<close>, \<^verbatim>\<open>unregisterService\<close> and \<^verbatim>\<open>lookupService\<close> of
  \<^verbatim>\<open>node.go\<close> and \<^verbatim>\<open>requestServiceSubscription\<close> of \<^verbatim>\<open>service_subscription.go\<close>, on the main node itself and
  over RPC on any other, and \<^verbatim>\<open>connectRPCClient\<close>, by which a node makes itself known to another. The
  requests are followed through the handler and the control loop of the main node and back.
\<close>

section \<open>Requests over a client\<close>

text \<open>A client: whether it is connected and has a session, and \<^verbatim>\<open>RequestSync\<close> of its transport.\<close>

type_synonym client = "bool \<times> (string \<Rightarrow> string result)"

fun request_op :: "main_request \<Rightarrow> int" where
  "request_op (RegisterAt location) = opRegister"
| "request_op (UnregisterAt key) = opUnregister"
| "request_op (SubscribeAt subscriber serviceName) = opSubscribe"

fun request_message :: "main_request \<Rightarrow> pb_message" where
  "request_message (RegisterAt location) = PbRegisterRequest \<lparr>rr_Location = Some (serviceLocationToProto location)\<rparr>"
| "request_message (UnregisterAt key) = PbUnregisterRequest \<lparr>ur_Target = Some (serviceKeyToProto key)\<rparr>"
| "request_message (SubscribeAt subscriber serviceName) =
     PbSubscribeRequest \<lparr>sq_Subscriber = Some (serviceKeyToProto subscriber), sq_ServiceName = serviceName\<rparr>"

fun read_ack :: "proto_api \<Rightarrow> main_request \<Rightarrow> string \<Rightarrow> unit result" where
  "read_ack pr (RegisterAt location) = un_RegisterResponse pr"
| "read_ack pr (UnregisterAt key) = un_UnregisterResponse pr"
| "read_ack pr (SubscribeAt subscriber serviceName) = un_SubscribeResponse pr"

text \<open>
  \<^verbatim>\<open>registerServiceWithClient\<close>, \<^verbatim>\<open>requestServiceSubscriptionWithClient\<close> and the request of
  \<^verbatim>\<open>unregisterService\<close>.
\<close>

definition request_with_client :: "go_env \<Rightarrow> client \<Rightarrow> main_request \<Rightarrow> gerror option" where
  "request_with_client env client q =
     (case requestSync env (fst client) (snd client) (request_op q) (Msg (request_message q)) (read_ack (proto env) q) of
        Inl err \<Rightarrow> Some err
      | Inr _ \<Rightarrow> None)"

section \<open>Requests of a node\<close>

text \<open>\<open>get\<close> is \<^verbatim>\<open>getRPCClient\<close>.\<close>

definition mainClient :: "(int \<Rightarrow> string \<Rightarrow> client result) \<Rightarrow> server_node \<Rightarrow> client result" where
  "mainClient get n =
     (case Config_Node (Some (n_config n)) (n_mainNodeID n) of
        None \<Rightarrow> Inl (wrapf ErrNodeNotFound ''main node %d'' [ArgD (n_mainNodeID n)])
      | Some mainConfig \<Rightarrow> get (nc_ID mainConfig) (nc_ListenAddr mainConfig))"

definition ask_main :: "go_env \<Rightarrow> (int \<Rightarrow> string \<Rightarrow> client result) \<Rightarrow> main_request \<Rightarrow> server_node \<Rightarrow> gerror option" where
  "ask_main env get q n =
     (case mainClient get n of Inl err \<Rightarrow> Some err | Inr client \<Rightarrow> request_with_client env client q)"

definition registerService ::
    "go_env \<Rightarrow> (int \<Rightarrow> string \<Rightarrow> client result) \<Rightarrow> ServiceKey \<Rightarrow> server_node \<Rightarrow> gerror option \<times> server_node" where
  "registerService env get key n =
     (if IsMainNode n then register_on_main env (local_location n key) n
      else (ask_main env get (register_request n key) n, n))"

definition unregisterService ::
    "go_env \<Rightarrow> (int \<Rightarrow> string \<Rightarrow> client result) \<Rightarrow> ServiceKey \<Rightarrow> server_node \<Rightarrow> gerror option \<times> server_node" where
  "unregisterService env get key n =
     (if IsMainNode n then unregister_on_main env key (n_id n) n
      else (ask_main env get (UnregisterAt key) n, n))"

definition requestServiceSubscription ::
    "go_env \<Rightarrow> (int \<Rightarrow> string \<Rightarrow> client result) \<Rightarrow> ServiceKey \<Rightarrow> string \<Rightarrow> server_node \<Rightarrow> gerror option \<times> server_node" where
  "requestServiceSubscription env get subscriber serviceName n =
     (if IsMainNode n then subscribe_on_main env subscriber (n_id n) serviceName n
      else (ask_main env get (SubscribeAt subscriber serviceName) n, n))"

fun subscribe_names ::
    "go_env \<Rightarrow> (int \<Rightarrow> string \<Rightarrow> client result) \<Rightarrow> ServiceKey \<Rightarrow> string list \<Rightarrow> server_node \<Rightarrow> gerror option \<times> server_node" where
  "subscribe_names env get subscriber [] n = (None, n)"
| "subscribe_names env get subscriber (serviceName # names) n =
     (case requestServiceSubscription env get subscriber serviceName n of
        (Some err, n) \<Rightarrow> (Some (Errorf ''%s: %w'' [ArgS serviceName, ArgW err]), n)
      | (None, n) \<Rightarrow> subscribe_names env get subscriber names n)"

definition subscribeRuntime ::
    "go_env \<Rightarrow> (int \<Rightarrow> string \<Rightarrow> client result) \<Rightarrow> ServiceKey \<Rightarrow> serviceRuntime \<Rightarrow> server_node \<Rightarrow> gerror option \<times> server_node" where
  "subscribeRuntime env get subscriber runtime n = subscribe_names env get subscriber (runtimeSubscriptionNames runtime) n"

text \<open>On another node it asks for what \<^verbatim>\<open>subscribeRuntimeWithClient\<close> asks for, with the same result.\<close>

lemma subscribeRuntime_remote:
  assumes "\<not> IsMainNode n"
  shows "subscribeRuntime env get subscriber runtime n =
    (snd (subscribe_runtime (\<lambda>q. ask_main env get q n) subscriber (runtimeSubscriptionNames runtime)), n)"
proof -
  have "subscribe_names env get subscriber names n = (snd (subscribe_runtime (\<lambda>q. ask_main env get q n) subscriber names), n)" for names
    by (induction names) (auto simp: requestServiceSubscription_def assms split: option.split prod.split)
  then show ?thesis by (simp add: subscribeRuntime_def)
qed

text \<open>\<^verbatim>\<open>lookupService\<close>; \<open>cached\<close> is \<^verbatim>\<open>routeCache.lookup\<close> with the query at the main node.\<close>

definition lookupService :: "(ServiceKey \<Rightarrow> ServiceLocation result) \<Rightarrow> ServiceKey \<Rightarrow> server_node \<Rightarrow> ServiceLocation result" where
  "lookupService cached key n =
     (if IsMainNode n
      then (case registry_Lookup (n_registry n) key of
              Some location \<Rightarrow> Inr location
            | None \<Rightarrow> Inl (wrapf ErrServiceNotFound ''%s'' [ArgS (key_String key)]))
      else cached key)"

text \<open>
  \<^verbatim>\<open>connectRPCClient\<close>; \<open>dial\<close> is \<^verbatim>\<open>newRPCClient\<close>. The second component is whether the transport has
  been closed again.
\<close>

definition connectRPCClient ::
    "go_env \<Rightarrow> (int \<Rightarrow> string \<Rightarrow> client result) \<Rightarrow> int \<Rightarrow> string \<Rightarrow> server_node \<Rightarrow> client result \<times> bool" where
  "connectRPCClient env dial nodeID addr n =
     (case dial nodeID addr of
        Inl err \<Rightarrow> (Inl err, False)
      | Inr client \<Rightarrow>
          (case requestSync env (fst client) (snd client) opRegisterNode
                  (Msg (PbRegisterNodeRequest \<lparr>rn_NodeId = n_id n, rn_NodeAddr = n_listenAddr n\<rparr>))
                  (un_RegisterNodeResponse (proto env)) of
             Inl err \<Rightarrow> (Inl (Errorf ''register node %d with node %d: %w'' [ArgD (n_id n), ArgD nodeID, ArgW err]), True)
           | Inr _ \<Rightarrow> (Inr client, False)))"

section \<open>The main node as a transport\<close>

text \<open>An idle control loop runs a closure.\<close>

definition run_control :: "go_env \<Rightarrow> control_task \<Rightarrow> server_node \<Rightarrow> server_node" where
  "run_control env task n =
     (let n1 = task_begin env task n
      in case n_running n1 of None \<Rightarrow> n1 | Some t \<Rightarrow> (task_commit env t n1)\<lparr>n_running := None\<rparr>)"

definition serve_request :: "go_env \<Rightarrow> session \<Rightarrow> int \<Rightarrow> string \<Rightarrow> server_node \<Rightarrow> server_node" where
  "serve_request env session contextID w n =
     (let n1 = handleRPCRequest env None session contextID w n
      in fold (run_control env) (n_posting n1) (n1\<lparr>n_posting := []\<rparr>))"

fun response_to :: "session \<Rightarrow> int \<Rightarrow> effect \<Rightarrow> string option" where
  "response_to session contextID (Respond s c w) = (if s = session \<and> c = contextID then Some w else None)"
| "response_to session contextID _ = None"

definition answer_in :: "session \<Rightarrow> int \<Rightarrow> effect list \<Rightarrow> string result" where
  "answer_in session contextID xs =
     (case List.map_filter (response_to session contextID) xs of
        [w] \<Rightarrow> Inr w
      | _ \<Rightarrow> Inl (Foreign ''rpc request timeout''))"

definition serving :: "go_env \<Rightarrow> session \<Rightarrow> int \<Rightarrow> server_node \<Rightarrow> string \<Rightarrow> string result" where
  "serving env session contextID n w =
     answer_in session contextID (drop (length (n_out n)) (n_out (serve_request env session contextID w n)))"

lemma serve_post:
  assumes "handleRPCRequest env None s c w n = post_control t n'" "n_posting n' = []"
  shows "serve_request env s c w n = run_control env t n'"
proof -
  have "(post_control t n')\<lparr>n_posting := []\<rparr> = n'" using assms(2) by (simp add: post_control_def)
  with assms show ?thesis by (simp add: serve_request_def Let_def) (simp add: post_control_def)
qed

lemma no_reply: "replies xs = {#} \<Longrightarrow> List.map_filter (response_to s c) xs = []"
proof (induction xs)
  case (Cons x xs)
  then have "replies xs = {#}" "effect_request x = None" by (auto split: option.splits)
  with Cons(1) show ?case by (cases x) (simp_all add: map_filter_simps)
qed (simp add: map_filter_simps)

lemma answer_in_reply: "replies xs = {#} \<Longrightarrow> answer_in s c (xs @ [Respond s c w]) = Inr w"
  using no_reply [of xs s c] by (simp add: answer_in_def List.map_filter_def)

section \<open>The closure on the control loop\<close>

text \<open>What the main node itself does for a request of node \<open>i\<close>.\<close>

fun answer_on_main :: "go_env \<Rightarrow> int \<Rightarrow> main_request \<Rightarrow> server_node \<Rightarrow> gerror option \<times> server_node" where
  "answer_on_main env i (RegisterAt location) n = register_on_main env location n"
| "answer_on_main env i (UnregisterAt key) n = unregister_on_main env key i n"
| "answer_on_main env i (SubscribeAt subscriber serviceName) n = subscribe_on_main env subscriber i serviceName n"

fun request_task :: "session \<Rightarrow> int \<Rightarrow> int \<Rightarrow> main_request \<Rightarrow> control_task" where
  "request_task s c i (RegisterAt location) = RegisterTask s c s i location"
| "request_task s c i (UnregisterAt key) = UnregisterTask s c s i key"
| "request_task s c i (SubscribeAt subscriber serviceName) = SubscribeTask s c s i subscriber serviceName"

fun ack_message :: "main_request \<Rightarrow> pb_message" where
  "ack_message (RegisterAt location) = PbRegisterResponse"
| "ack_message (UnregisterAt key) = PbUnregisterResponse"
| "ack_message (SubscribeAt subscriber serviceName) = PbSubscribeResponse"

lemma answers_request: "answers_main n (answer_on_main env i q n)"
  by (cases q) (simp_all add: answers_main_ops)

text \<open>The operations do not look at the closure that is running.\<close>

lemma discovery_running [simp]: "discovery_out env (n\<lparr>n_running := t\<rparr>) = discovery_out env n"
proof -
  have "fst (dispatchLocalServiceDiscovery k nm ev ks (n\<lparr>n_running := t\<rparr>)) =
      fst (dispatchLocalServiceDiscovery k nm ev ks n)" for k nm ev ks
    by (simp add: dispatchLocalServiceDiscovery_def split: option.splits)
  then show ?thesis
    by (simp add: fun_eq_iff discovery_out_def local_discovery_out_def remote_session_def split: option.split sum.split)
qed

lemma outs_running [simp]:
  "route_out env (n\<lparr>n_running := t\<rparr>) = route_out env n" "announce_out env (n\<lparr>n_running := t\<rparr>) = announce_out env n"
  by (simp_all add: fun_eq_iff route_out_def announce_out_def IsMainNode_def node_sessions_def remote_session_def)

lemma changed_running [simp]:
  "registered_out env (n\<lparr>n_running := t\<rparr>) = registered_out env n" "unregistered_out env (n\<lparr>n_running := t\<rparr>) = unregistered_out env n"
  by (simp_all add: fun_eq_iff registered_out_def unregistered_out_def)

lemma out_running: "out xs (n\<lparr>n_running := t\<rparr>) = (out xs n)\<lparr>n_running := t\<rparr>"
  by (simp add: out_def)

lemma state_running:
  "n\<lparr>n_running := t, n_registry := r\<rparr> = n\<lparr>n_registry := r, n_running := t\<rparr>"
  "unregister_state ks r (n\<lparr>n_running := t\<rparr>) = (unregister_state ks r n)\<lparr>n_running := t\<rparr>"
  "subscribe_state k nm (n\<lparr>n_running := t\<rparr>) = (subscribe_state k nm n)\<lparr>n_running := t\<rparr>"
  by (simp_all add: unregister_state_def drop_subscribers_def subscribe_state_def)

lemma answer_running:
  "answer_on_main env i q (n\<lparr>n_running := t\<rparr>) = (case answer_on_main env i q n of (err, m) \<Rightarrow> (err, m\<lparr>n_running := t\<rparr>))"
  by (cases q)
    (simp_all add: register_on_main_eq unregister_on_main_eq subscribe_on_main_eq state_running out_running serviceSnapshot_def
      split: sum.split option.split)

section \<open>A request and its answer\<close>

text \<open>The requests node \<open>r\<close> may make for its services.\<close>

fun own_request :: "go_env \<Rightarrow> RemoteNode \<Rightarrow> main_request \<Rightarrow> bool" where
  "own_request env r (RegisterAt l) \<longleftrightarrow> valid_location l \<and> go_int (intBits env) (ServiceID l) \<and> go_int (intBits env) (rm_id r) \<and>
     NodeID l = rm_id r \<and> NodeAddr l = rm_addr r"
| "own_request env r (UnregisterAt k) \<longleftrightarrow> valid_key env k"
| "own_request env r (SubscribeAt k nm) \<longleftrightarrow> valid_key env k \<and> normalizeSubscribedServiceName nm = Inr nm"

lemma request_posts:
  assumes "packet_laws (packet env) enc" "proto_laws (proto env)" "intBits env \<le> 64" "IsMainNode n"
    "registeredRemoteNode s n = Inr r" "own_request env r q"
    "encodeEnvelope env (request_op q) (Msg (request_message q)) = Inr w"
  shows "handleRPCRequest env None s c w n = post_control (request_task s c (rm_id r) q) n"
proof -
  have "int16_range (request_op q)" by (cases q) (simp_all add: op_defs int16_range_def)
  from encoded_decodes [OF assms(1,2) this assms(7)] obtain b where
    b: "decodeEnvelope env w = Inr (request_op q, b)" "unmarshals (proto env) (request_message q) b" by blast
  with assms(3-6) show ?thesis
    by (cases q)
      (simp_all add: handleRPCRequest_def handle_register_def handle_unregister_def handle_subscribe_def op_defs
        decodeOperationPayload_def serviceLocation_roundtrip requiredKey_roundtrip valid_key_def Let_def)
qed

lemma request_runs:
  assumes "registeredRemoteNode s n = Inr r" "rm_session r = s" "n_running n = None"
  shows "run_control env (request_task s c (rm_id r) q) n = respond_task env s c (ack_message q) (answer_on_main env (rm_id r) q n)"
proof -
  let ?t = "request_task s c (rm_id r) q"
  have "remoteNodeIsCurrent s s n"
    using assms(1,2) by (auto simp: registeredRemoteNode_def remoteNodeFromSession_def remoteNodeIsCurrent_def
        split: option.splits if_splits)
  then have "task_begin env ?t n = n\<lparr>n_running := Some ?t\<rparr>" by (cases q) (simp_all add: task_begin_def task_current_def)
  moreover have "task_commit env ?t (n\<lparr>n_running := Some ?t\<rparr>) =
      respond_task env s c (ack_message q) (answer_on_main env (rm_id r) q (n\<lparr>n_running := Some ?t\<rparr>))"
    by (cases q) (simp_all add: task_commit_def)
  moreover have "n_running (snd (answer_on_main env (rm_id r) q n)) = None"
    using assms(3) by (cases q) (auto simp: register_on_main_eq unregister_on_main_eq subscribe_on_main_eq unregister_state_def
        drop_subscribers_def subscribe_state_def split: sum.split option.split)
  ultimately show ?thesis
    by (cases "answer_on_main env (rm_id r) q n")
      (auto simp: run_control_def answer_running respond_task_def respond_eqs out_running split: option.split)
qed

text \<open>
  C13. Where a service runs makes no difference to what it asks of the main node. A registration, a
  removal or a subscription that a registered node requests over a connection that delivers changes
  the registry and the subscriptions of the main node and makes it push exactly what the same operation
  on the main node itself does. The request returns no error exactly when that operation returns none,
  and otherwise an error of the same class.
\<close>

theorem control_exact:
  assumes "packet_laws (packet env) enc" "proto_laws (proto env)" "intBits env \<le> 64"
    "IsMainNode n" "n_posting n = []" "n_running n = None" "registeredRemoteNode s n = Inr r" "rm_session r = s"
    "own_request env r q" "encodeEnvelope env (request_op q) (Msg (request_message q)) = Inr w"
    "answer_on_main env (rm_id r) q n = (err, m)"
    "err = None \<Longrightarrow> is_ok (proto_Marshal (proto env) (ack_message q))"
    "\<And>e. err = Some e \<Longrightarrow> length (error_text (quote env) e) \<le> maxRPCStringSize"
  shows "(\<exists>w'. serve_request env s c w n = out [Respond s c w'] m) \<and>
     (case err of
        None \<Rightarrow> request_with_client env (True, serving env s c n) q = None
      | Some e \<Rightarrow> \<exists>e'. request_with_client env (True, serving env s c n) q = Some e' \<and>
          (\<forall>t. errors_Is e' t \<longleftrightarrow> find (errors_Is e) wire_sentinels = Some t))"
proof -
  have served: "serve_request env s c w n = respond_task env s c (ack_message q) (err, m)"
    using serve_post [OF request_posts [OF assms(1-4,7,9,10)] assms(5)] request_runs [OF assms(7,8,6)] assms(11) by simp
  obtain xs where m: "n_out m = n_out n @ xs" "replies xs = {#}"
    using answers_request [of n env "rm_id r" q] assms(11) by (auto simp: answers_main_def)
  have answer: "serving env s c n w = Inr w'" if "serve_request env s c w n = out [Respond s c w'] m" for w'
    using that m answer_in_reply [of xs s c w'] by (simp add: serving_def out_def)
  have sent: "request_with_client env (True, serving env s c n) q =
      (case request_result env (read_ack (proto env) q) (serving env s c n w) of Inl err \<Rightarrow> Some err | Inr _ \<Rightarrow> None)"
    using assms(10) by (simp add: request_with_client_def requestSync_def client_send_def)
  show ?thesis
  proof (cases err)
    case None
    with assms(12) obtain b where "proto_Marshal (proto env) (ack_message q) = Inr b" by (metis is_okE)
    from response_decodes [OF assms(1,2) this, of s c] obtain w' where
      w': "response_out env s c (ack_message q) = [Respond s c w']" "decodeResult env w' = Inr b"
        "unmarshals (proto env) (ack_message q) b" by blast
    have "read_ack (proto env) q b = Inr ()" using w'(3) by (cases q) simp_all
    moreover have "serve_request env s c w n = out [Respond s c w'] m"
      using served None w'(1) by (simp add: respond_task_def respond_eqs)
    ultimately show ?thesis
      using sent answer w'(2) None by (auto simp: request_result_def decodeResultPayload_def)
  next
    case (Some e)
    from error_decodes [OF assms(1) assms(13) [OF Some], of s c] obtain w' e' where
      w': "error_out env s c (Some e) = [Respond s c w']" "decodeResult env w' = Inl e'"
        "\<forall>t. errors_Is e' t \<longleftrightarrow> find (errors_Is e) wire_sentinels = Some t" by blast
    moreover have "serve_request env s c w n = out [Respond s c w'] m"
      using served Some w'(1) by (simp add: respond_task_def respond_eqs)
    ultimately show ?thesis using sent answer Some by (auto simp: request_result_def)
  qed
qed

definition sample_request :: main_request where
  "sample_request = RegisterAt \<lparr>ServiceName = ''chat'', ServiceID = 4, NodeID = 2, NodeAddr = '':2''\<rparr>"

definition request_table :: "(pb_message \<times> string) list" where
  "request_table = [(request_message sample_request, ''q1''), (PbRegisterResponse, ''a1'')]"

theorem control_exact_witness:
  "request_with_client (table_env request_table) (True, serving (table_env request_table) 7 5 demo_state) sample_request = None"
proof -
  let ?env = "table_env request_table"
  let ?r = "\<lparr>rm_id = 2, rm_addr = '':2'', rm_session = 7, rm_timer = True, rm_active = True\<rparr>"
  have laws: "proto_laws (proto ?env)"
    by (simp add: request_table_def sample_request_def) (rule table_proto_laws, simp)
  have r: "registeredRemoteNode 7 demo_state = Inr ?r"
    by (simp add: registeredRemoteNode_def remoteNodeFromSession_def demo_state_def go_get_def linked_def)
  have "fst (answer_on_main ?env 2 sample_request demo_state) = None" by code_simp
  then obtain m where a: "answer_on_main ?env (rm_id ?r) sample_request demo_state = (None, m)"
    by (metis prod.collapse RemoteNode.select_convs(1))
  have "encodeEnvelope ?env (request_op sample_request) (Msg (request_message sample_request)) = Inr (be16 2 @ ''q1'')"
    by (simp add: encodeEnvelope_def sample_request_def op_defs table_proto_def request_table_def be_packet_def)
  with control_exact [OF _ laws _ _ _ _ r _ _ _ a, where enc = be16 and c = 5] show ?thesis
    by (simp add: be_packet_laws IsMainNode_def demo_state_def demo_main_def sample_request_def valid_location_def go_int_def
        request_table_def table_proto_def)
qed

section \<open>Making a node known\<close>

lemma arm_runs:
  assumes "go_get (n_sessions n) s = Some r" "rm_active r" "n_running n = None"
  shows "run_control env (ArmTask s) n = set_remote s (r\<lparr>rm_timer := True\<rparr>) n"
  using assms
  by (simp add: run_control_def task_begin_def arm_start_def set_remote_def task_commit_def arm_recheck_def Let_def)

lemma register_node_served:
  assumes "packet_laws (packet env) enc" "proto_laws (proto env)" "intBits env \<le> 64"
    "encodeEnvelope env opRegisterNode (Msg (PbRegisterNodeRequest \<lparr>rn_NodeId = i, rn_NodeAddr = addr\<rparr>)) = Inr w"
    "0 < i" "go_int (intBits env) i" "Config_Node (Some (n_config m)) i = Some cfg" "nc_ListenAddr cfg = addr" "i \<noteq> n_id m"
    "go_get (n_sessions m) s = Some r" "rm_active r" "rm_id r = 0" "n_posting m = []" "n_running m = None"
  shows "serve_request env s c w m =
     (if go_get (n_remoteNodes m) i = None
      then out (response_out env s c PbRegisterNodeResponse)
        (m\<lparr>n_sessions := go_put s (r\<lparr>rm_id := i, rm_addr := addr, rm_timer := True\<rparr>) (n_sessions m),
           n_remoteNodes := go_put i s (n_remoteNodes m)\<rparr>)
      else out (error_out env s c (Some (wrapf ErrNodeExists ''node %d'' [ArgD i]))) m)"
proof -
  have "int16_range opRegisterNode" by (simp add: op_defs int16_range_def)
  from encoded_decodes [OF assms(1,2) this assms(4)] obtain b where
    b: "decodeEnvelope env w = Inr (opRegisterNode, b)"
      "un_RegisterNodeRequest (proto env) b = Inr \<lparr>rn_NodeId = i, rn_NodeAddr = addr\<rparr>" by auto
  have id: "rpcNodeID env i = Inr i"
    using rpcInt_Inr_iff [OF assms(3), of i "''node id''" i] assms(5,6) by (simp add: rpcNodeID_def)
  have handled: "handleRPCRequest env None s c w m = handleRegisterNode env s c b m"
    using b(1) by (simp add: handleRPCRequest_def)
  let ?r = "r\<lparr>rm_id := i, rm_addr := addr\<rparr>"
  let ?m = "m\<lparr>n_sessions := go_put s ?r (n_sessions m), n_remoteNodes := go_put i s (n_remoteNodes m)\<rparr>"
  let ?xs = "response_out env s c PbRegisterNodeResponse"
  show ?thesis
  proof (cases "go_get (n_remoteNodes m) i")
    case None
    have "handleRegisterNode env s c b m = post_control (ArmTask s) (out ?xs ?m)"
      using b(2) id assms None
      by (simp add: handleRegisterNode_def decodeOperationPayload_def remoteNodeFromSession_def Let_def respond_eqs
          set_remote_def refreshRemoteHeartbeat_def armRemoteNodeTimeout_def post_control_def out_def)
    moreover have "run_control env (ArmTask s) (out ?xs ?m) = set_remote s (?r\<lparr>rm_timer := True\<rparr>) (out ?xs ?m)"
      using assms(11,14) by (intro arm_runs) (simp_all add: out_def)
    ultimately show ?thesis
      using serve_post [of env s c w m "ArmTask s" "out ?xs ?m"] assms(13) None handled
      by (simp add: out_def set_remote_def go_put_def update_last)
  next
    case (Some s')
    then show ?thesis
      using b(2) id assms handled
      by (simp add: serve_request_def handleRegisterNode_def decodeOperationPayload_def remoteNodeFromSession_def Let_def respond_eqs out_def)
  qed
qed

text \<open>
  C21. A node makes itself known to another exactly once. Over a fresh session that delivers, a
  configured node that registers with its configured address gets a client back, and the other node
  has it in its table under that session, with the timer for its heartbeats armed. When the other node
  has a session of it already, the connection is refused with \<^verbatim>\<open>ErrNodeExists\<close> and closed, and the
  other node's tables are as before.
\<close>

theorem handshake_exact:
  assumes "packet_laws (packet env) enc" "proto_laws (proto env)" "intBits env \<le> 64"
    "encodeEnvelope env opRegisterNode (Msg (PbRegisterNodeRequest \<lparr>rn_NodeId = n_id n, rn_NodeAddr = n_listenAddr n\<rparr>)) = Inr w"
    "0 < n_id n" "go_int (intBits env) (n_id n)" "Config_Node (Some (n_config m)) (n_id n) = Some cfg"
    "nc_ListenAddr cfg = n_listenAddr n" "n_id n \<noteq> n_id m"
    "go_get (n_sessions m) s = Some r" "rm_active r" "rm_id r = 0" "n_posting m = []" "n_running m = None"
    "is_ok (proto_Marshal (proto env) PbRegisterNodeResponse)"
    "length (error_text (quote env) (wrapf ErrNodeExists ''node %d'' [ArgD (n_id n)])) \<le> maxRPCStringSize"
  shows "case go_get (n_remoteNodes m) (n_id n) of
       None \<Rightarrow> connectRPCClient env (\<lambda>_ _. Inr (True, serving env s c m)) nodeID addr n = (Inr (True, serving env s c m), False) \<and>
         (\<exists>r'. registeredRemoteNode s (serve_request env s c w m) = Inr r' \<and> rm_id r' = n_id n \<and>
            rm_addr r' = n_listenAddr n \<and> rm_session r' = rm_session r \<and> rm_timer r')
     | Some _ \<Rightarrow> (\<exists>e. connectRPCClient env (\<lambda>_ _. Inr (True, serving env s c m)) nodeID addr n = (Inl e, True) \<and>
            (\<forall>t. errors_Is e t \<longleftrightarrow> t = ErrNodeExists)) \<and>
         n_sessions (serve_request env s c w m) = n_sessions m \<and> n_remoteNodes (serve_request env s c w m) = n_remoteNodes m"
proof -
  note served = register_node_served [OF assms(1-14), of c]
  have sent: "connectRPCClient env (\<lambda>_ _. Inr (True, serving env s c m)) nodeID addr n =
      (case request_result env (un_RegisterNodeResponse (proto env)) (serving env s c m w) of
         Inl err \<Rightarrow> (Inl (Errorf ''register node %d with node %d: %w'' [ArgD (n_id n), ArgD nodeID, ArgW err]), True)
       | Inr _ \<Rightarrow> (Inr (True, serving env s c m), False))"
    using assms(4) by (simp add: connectRPCClient_def requestSync_def client_send_def)
  show ?thesis
  proof (cases "go_get (n_remoteNodes m) (n_id n)")
    case None
    from assms(15) obtain b where "proto_Marshal (proto env) PbRegisterNodeResponse = Inr b" by (metis is_okE)
    from response_decodes [OF assms(1,2) this, of s c] obtain w' where
      w': "response_out env s c PbRegisterNodeResponse = [Respond s c w']" "decodeResult env w' = Inr b"
        "un_RegisterNodeResponse (proto env) b = Inr ()" by auto
    have "serving env s c m w = Inr w'"
      using served None w'(1) answer_in_reply [of "[]" s c w'] by (simp add: serving_def out_def)
    with sent w' None served assms(5,11) show ?thesis
      by (simp add: request_result_def decodeResultPayload_def registeredRemoteNode_def remoteNodeFromSession_def linked_def)
  next
    case (Some s')
    let ?e = "wrapf ErrNodeExists ''node %d'' [ArgD (n_id n)]"
    from error_decodes [OF assms(1,16), of s c] obtain w' e' where
      w': "error_out env s c (Some ?e) = [Respond s c w']" "decodeResult env w' = Inl e'"
        "\<forall>t. errors_Is e' t \<longleftrightarrow> find (errors_Is ?e) wire_sentinels = Some t" by blast
    have "serving env s c m w = Inr w'"
      using served Some w'(1) answer_in_reply [of "[]" s c w'] by (simp add: serving_def out_def)
    with sent w' Some served show ?thesis by (auto simp: request_result_def wire_sentinels_def)
  qed
qed

definition fresh_main :: server_node where
  "fresh_main = demo_main\<lparr>n_sessions := [(3, \<lparr>rm_id = 0, rm_addr = '''', rm_session = 3, rm_timer = True, rm_active = True\<rparr>)]\<rparr>"

definition caller_node :: server_node where
  "caller_node = demo_main\<lparr>n_id := 2, n_listenAddr := '':2''\<rparr>"

definition handshake_table :: "(pb_message \<times> string) list" where
  "handshake_table = [(PbRegisterNodeRequest \<lparr>rn_NodeId = 2, rn_NodeAddr = '':2''\<rparr>, ''q1''), (PbRegisterNodeResponse, ''a1'')]"

theorem handshake_exact_witness:
  "is_ok (fst (connectRPCClient (table_env handshake_table)
     (\<lambda>_ _. Inr (True, serving (table_env handshake_table) 3 5 fresh_main)) 1 '':1'' caller_node))"
proof -
  let ?env = "table_env handshake_table"
  have laws: "proto_laws (proto ?env)"
    by (simp add: handshake_table_def) (rule table_proto_laws, simp)
  have "encodeEnvelope ?env opRegisterNode (Msg (PbRegisterNodeRequest \<lparr>rn_NodeId = n_id caller_node,
      rn_NodeAddr = n_listenAddr caller_node\<rparr>)) = Inr (be16 1 @ ''q1'')"
    by (simp add: encodeEnvelope_def caller_node_def op_defs table_proto_def handshake_table_def be_packet_def)
  moreover have "length (error_text (quote ?env) (wrapf ErrNodeExists ''node %d'' [ArgD (n_id caller_node)])) \<le> 100" by code_simp
  moreover have "Config_Node (Some (n_config fresh_main)) (n_id caller_node) = Some (demo_node 2 '':2'')" by code_simp
  ultimately show ?thesis
    using handshake_exact [OF _ laws, where enc = be16 and n = caller_node and m = fresh_main and s = 3 and c = 5 and w = "be16 1 @ ''q1''"
        and cfg = "demo_node 2 '':2''" and r = "\<lparr>rm_id = 0, rm_addr = '''', rm_session = 3, rm_timer = True, rm_active = True\<rparr>"
        and nodeID = 1 and addr = "'':1''"]
    by (simp add: be_packet_laws caller_node_def fresh_main_def demo_main_def demo_node_def go_int_def go_get_def
        handshake_table_def table_proto_def maxRPCStringSize_def)
qed

end
