(* ===== verification/Remote_Call.thy ===== *)
theory Remote_Call
  imports Call_Properties Rpc_Client
begin

text \<open>
  Messages to services of other nodes: the remote path of \<^verbatim>\<open>send2Service\<close>, \<^verbatim>\<open>callServiceAsync\<close> and
  \<^verbatim>\<open>callServiceSync\<close> of \<^verbatim>\<open>node.go\<close>. The route and the client come from \<^verbatim>\<open>lookupService\<close> and
  \<^verbatim>\<open>getRPCClient\<close>, which have theories of their own; here they are the arguments \<open>route\<close>, the result
  of the lookup, and \<open>client\<close>, which gives for a location the error or the client, that is whether
  it is connected and the transport it sends over.
\<close>

section \<open>The remote path\<close>

text \<open>The pools of the sender, and the routes it has invalidated.\<close>

record sender =
  sd_requests :: "DeliverRequest list"
  sd_responses :: "DeliverResponse list"
  sd_invalidated :: "ServiceKey list"

type_synonym net = "string \<Rightarrow> string result"

definition sd_invalidate :: "ServiceKey \<Rightarrow> sender \<Rightarrow> sender" where
  "sd_invalidate key s = s\<lparr>sd_invalidated := sd_invalidated s @ [key]\<rparr>"

definition remote_client ::
    "ServiceLocation result \<Rightarrow> (ServiceLocation \<Rightarrow> (bool \<times> net) result) \<Rightarrow> ServiceKey \<Rightarrow> sender \<Rightarrow>
     (bool \<times> net) result \<times> sender" where
  "remote_client route client target s =
     (case route of
        Inl err \<Rightarrow> (Inl err, s)
      | Inr location \<Rightarrow>
          (case client location of
             Inl err \<Rightarrow> (Inl err, sd_invalidate target s)
           | Inr c \<Rightarrow> (Inr c, s)))"

text \<open>Whether a failed call drops the route.\<close>

definition route_failed :: "gerror \<Rightarrow> bool" where
  "route_failed err \<longleftrightarrow> errors_Is err ErrServiceNotFound \<or> errors_Is err ErrRPCDisconnected"

text \<open>
  The remote path of \<^verbatim>\<open>send2Service\<close>; \<open>pick\<close> is the choice of the pool. The result is the packet
  sent or the error; \<open>None\<close> would be a panic on a pooled request without its nested keys.
\<close>

definition send_remote ::
    "go_env \<Rightarrow> nat option \<Rightarrow> ServiceLocation result \<Rightarrow> (ServiceLocation \<Rightarrow> (bool \<times> net) result) \<Rightarrow>
     ServiceKey \<Rightarrow> ServiceKey \<Rightarrow> serviceMessageID \<Rightarrow> string \<Rightarrow> sender \<Rightarrow> (string result \<times> sender) option" where
  "send_remote env pick route client source target messageID payload s =
     (case remote_client route client target s of
        (Inl err, s) \<Rightarrow> Some (Inl err, s)
      | (Inr (ready, net), s) \<Rightarrow>
          (case acquireDeliverSendRequest pick (sd_requests s) of
             (request, pool) \<Rightarrow>
               (case initializeDeliverRequest request source target messageID payload deliverRequestModeDirect of
                  None \<Rightarrow> None
                | Some request \<Rightarrow>
                    let sent = client_send env ready opDeliver (Msg (PbDeliverRequest request));
                        s = s\<lparr>sd_requests := releaseDeliverSendRequest (Some request) pool\<rparr>
                    in Some (sent, case sent of Inl err \<Rightarrow> sd_invalidate target s | Inr wpk \<Rightarrow> s))))"

text \<open>
  The remote path of \<^verbatim>\<open>callServiceSync\<close>; the response object of the second pool is filled by
  \<^verbatim>\<open>requestSync\<close> and released with its payload taken out.
\<close>

definition call_sync_remote ::
    "go_env \<Rightarrow> nat option \<Rightarrow> nat option \<Rightarrow> ServiceLocation result \<Rightarrow> (ServiceLocation \<Rightarrow> (bool \<times> net) result) \<Rightarrow>
     ServiceKey \<Rightarrow> ServiceKey \<Rightarrow> serviceMessageID \<Rightarrow> string \<Rightarrow> sender \<Rightarrow> (string result \<times> sender) option" where
  "call_sync_remote env pick pick' route client source target messageID payload s =
     (case remote_client route client target s of
        (Inl err, s) \<Rightarrow> Some (Inl err, s)
      | (Inr (ready, net), s) \<Rightarrow>
          (case acquireDeliverSendRequest pick (sd_requests s) of
             (request, pool) \<Rightarrow>
               (case initializeDeliverRequest request source target messageID payload deliverRequestModeSync of
                  None \<Rightarrow> None
                | Some request \<Rightarrow>
                    (case acquireDeliverResponse pick' (sd_responses s) of
                       (response, pool') \<Rightarrow>
                         let answer = requestSync env ready net opDeliver (Msg (PbDeliverRequest request))
                               (un_DeliverResponse (proto env));
                             s = s\<lparr>sd_requests := releaseDeliverSendRequest (Some request) pool\<rparr>
                         in case answer of
                              Inl err \<Rightarrow>
                                let s = s\<lparr>sd_responses := releaseDeliverResponse (Some response) pool'\<rparr>
                                in Some (Inl err, if route_failed err then sd_invalidate target s else s)
                            | Inr response \<Rightarrow>
                                Some (Inr (dp_Payload response),
                                  s\<lparr>sd_responses := releaseDeliverResponse (Some response) pool'\<rparr>)))))"

text \<open>
  The remote path of \<^verbatim>\<open>callServiceAsync\<close> up to the return: the packet of the request, with the
  response object that the callback holds, or the error.
\<close>

definition call_async_remote ::
    "go_env \<Rightarrow> nat option \<Rightarrow> nat option \<Rightarrow> ServiceLocation result \<Rightarrow> (ServiceLocation \<Rightarrow> (bool \<times> net) result) \<Rightarrow>
     ServiceKey \<Rightarrow> ServiceKey \<Rightarrow> serviceMessageID \<Rightarrow> string \<Rightarrow> sender \<Rightarrow>
     ((string \<times> DeliverResponse) result \<times> sender) option" where
  "call_async_remote env pick pick' route client source target messageID payload s =
     (case remote_client route client target s of
        (Inl err, s) \<Rightarrow> Some (Inl err, s)
      | (Inr (ready, net), s) \<Rightarrow>
          (case acquireDeliverSendRequest pick (sd_requests s) of
             (request, pool) \<Rightarrow>
               (case initializeDeliverRequest request source target messageID payload deliverRequestModeAsync of
                  None \<Rightarrow> None
                | Some request \<Rightarrow>
                    (case acquireDeliverResponse pick' (sd_responses s) of
                       (response, pool') \<Rightarrow>
                         let sent = requestAsync env ready opDeliver (Msg (PbDeliverRequest request));
                             s = s\<lparr>sd_requests := releaseDeliverSendRequest (Some request) pool\<rparr>
                         in case sent of
                              Inl err \<Rightarrow>
                                let s = s\<lparr>sd_responses := releaseDeliverResponse (Some response) pool'\<rparr>
                                in Some (Inl err, if route_failed err then sd_invalidate target s else s)
                            | Inr wpk \<Rightarrow> Some (Inr (wpk, response), s\<lparr>sd_responses := pool'\<rparr>)))))"

text \<open>Its callback, given the packet that arrived or the error of the request.\<close>

definition async_remote_done ::
    "go_env \<Rightarrow> ServiceKey \<Rightarrow> DeliverResponse \<Rightarrow> string result \<Rightarrow> sender \<Rightarrow> response \<times> sender" where
  "async_remote_done env target response rpk s =
     (case request_result env (un_DeliverResponse (proto env)) rpk of
        Inl err \<Rightarrow>
          (('''', Some err), let s = (if route_failed err then sd_invalidate target s else s)
             in s\<lparr>sd_responses := releaseDeliverResponse (Some response) (sd_responses s)\<rparr>)
      | Inr response \<Rightarrow>
          ((dp_Payload response, None),
           s\<lparr>sd_responses := releaseDeliverResponse (Some response) (sd_responses s)\<rparr>))"

section \<open>A call and its answer\<close>

text \<open>How the closure of a synchronous request turns the end of the handler into a response.\<close>

definition reply :: "ServiceKey \<Rightarrow> outcome \<Rightarrow> response" where
  "reply target res = (case res of Panics v stack \<Rightarrow> ('''', Some (panic_error target v stack)) | Returns p err \<Rightarrow> (p, err))"

text \<open>
  The other node, as a transport: it handles the packet, its service loop runs the closure that was
  posted, whose handler ends as \<open>h\<close> says, and the packet of the response comes back.
\<close>

definition serve_call ::
    "go_env \<Rightarrow> session \<Rightarrow> int \<Rightarrow> (service_task \<Rightarrow> outcome) \<Rightarrow> call_node \<Rightarrow> string \<Rightarrow> string result" where
  "serve_call env session contextID h peer w =
     (let n = handleRPCRequest env None session contextID w (c_node peer) in
      case drop (length (n_out (c_node peer))) (n_out n) of
        [PostService _ task] \<Rightarrow>
          (case drop (length (n_out n)) (n_out (c_node (run_task env [] (h task) task (peer\<lparr>c_node := n\<rparr>)))) of
             [Respond _ _ w'] \<Rightarrow> Inr w'
           | _ \<Rightarrow> Inl (Foreign ''rpc request timeout''))
      | [Respond _ _ w'] \<Rightarrow> Inr w'
      | _ \<Rightarrow> Inl (Foreign ''rpc request timeout''))"

lemma deliver_posts:
  assumes "packet_laws (packet env) enc" "proto_laws (proto env)" "registeredRemoteNode session n = Inr r"
    "encodeEnvelope env opDeliver (Msg (PbDeliverRequest request)) = Inr w"
    "decodeDeliverRequest env request = Inr (source, target, mid, deliverRequestModeSync)"
    "go_get (n_localServices n) target \<noteq> None" "known_kind mid"
  shows "\<exists>pool. handleRPCRequest env None session c w n =
     (emit (PostService target (SyncTask source target mid (dr_Payload request) (RpcResponder session c))) n)\<lparr>n_receivePool := pool\<rparr>"
proof -
  have "int16_range opDeliver" by (simp add: op_defs int16_range_def)
  from encoded_decodes [OF assms(1,2) this assms(4)] obtain b where
    b: "decodeEnvelope env w = Inr (opDeliver, b)" "un_DeliverRequest (proto env) b = Inr request" by auto
  show ?thesis
    using assms(3,5-7) b
    by (auto simp: handleRPCRequest_def handle_deliver_def with_receive_request_def decodeOperationPayload_def op_defs
        dispatchLocalRequestSync_def dispatch_local_def emit_def Let_def split: prod.split option.split)
qed

lemma run_sync:
  assumes "reply target res = (p, err)"
  shows "n_out (c_node (run_task env [] res (SyncTask source target mid payload (RpcResponder session c)) s)) =
     n_out (c_node s) @ (case err of
        Some e \<Rightarrow> error_out env session c (Some e)
      | None \<Rightarrow> response_out env session c (PbDeliverResponse \<lparr>dp_Payload = p\<rparr>) @
          (case fst (respondRPC env session c (PbDeliverResponse \<lparr>dp_Payload = p\<rparr>) (c_node s)) of None \<Rightarrow> []
           | Some e \<Rightarrow> [Report (the (respond_failed mid target (Some e)))]))"
proof -
  have r: "(case res of Panics v stack \<Rightarrow> ('''', Some (panic_error target v stack)) | Returns p err \<Rightarrow> (p, err)) = (p, err)"
    using assms by (simp add: reply_def)
  show ?thesis
  proof (cases err)
    case None
    with respondRPC_eq [of env session c "PbDeliverResponse \<lparr>dp_Payload = p\<rparr>" "c_node s"] r show ?thesis
      by (cases "respondRPC env session c (PbDeliverResponse \<lparr>dp_Payload = p\<rparr>) (c_node s)")
        (auto simp: run_task_def invoke_def Let_def c_report_def respond_failed_def report_def emit_out split: option.split)
  next
    case (Some e)
    with r show ?thesis
      by (simp add: run_task_def invoke_def Let_def c_report_def respond_failed_def report_def respondRPCError_eq)
  qed
qed

lemma serve_call_reply:
  assumes "packet_laws (packet env) enc" "proto_laws (proto env)" "registeredRemoteNode session (c_node peer) = Inr r"
    "encodeEnvelope env opDeliver (Msg (PbDeliverRequest request)) = Inr w"
    "decodeDeliverRequest env request = Inr (source, target, mid, deliverRequestModeSync)"
    "go_get (n_localServices (c_node peer)) target \<noteq> None" "known_kind mid"
    "reply target (h (SyncTask source target mid (dr_Payload request) (RpcResponder session c))) = (p, err)"
    "err = None \<Longrightarrow> is_ok (proto_Marshal (proto env) (PbDeliverResponse \<lparr>dp_Payload = p\<rparr>))"
    "\<And>e. err = Some e \<Longrightarrow> length (error_text (quote env) e) \<le> maxRPCStringSize"
  shows "\<exists>w'. serve_call env session c h peer w = Inr w' \<and>
     (case err of
        None \<Rightarrow> request_result env (un_DeliverResponse (proto env)) (Inr w') = Inr \<lparr>dp_Payload = p\<rparr>
      | Some e \<Rightarrow> \<exists>e'. request_result env (un_DeliverResponse (proto env)) (Inr w') = Inl e' \<and>
          (\<forall>t. errors_Is e' t \<longleftrightarrow> find (errors_Is e) wire_sentinels = Some t))"
proof -
  let ?task = "SyncTask source target mid (dr_Payload request) (RpcResponder session c)"
  obtain pool where n: "handleRPCRequest env None session c w (c_node peer) =
      (emit (PostService target ?task) (c_node peer))\<lparr>n_receivePool := pool\<rparr>"
    using deliver_posts [OF assms(1-7)] by blast
  let ?n = "(emit (PostService target ?task) (c_node peer))\<lparr>n_receivePool := pool\<rparr>"
  note run = run_sync [OF assms(8), of env source mid "dr_Payload request" session c "peer\<lparr>c_node := ?n\<rparr>"]
  show ?thesis
  proof (cases err)
    case None
    let ?m = "PbDeliverResponse \<lparr>dp_Payload = p\<rparr>"
    obtain b where b: "proto_Marshal (proto env) ?m = Inr b" using assms(9) None by (metis is_okE)
    from response_decodes [OF assms(1,2) b, of session c] obtain w' where
      w': "response_out env session c ?m = [Respond session c w']" "decodeResult env w' = Inr b"
        "un_DeliverResponse (proto env) b = Inr \<lparr>dp_Payload = p\<rparr>" by auto
    have "fst (respondRPC env session c ?m ?n) = None"
      using w'(1) by (auto simp: respondRPC_def response_out_def split: sum.splits)
    with run None w'(1) have "n_out (c_node (run_task env [] (h ?task) ?task (peer\<lparr>c_node := ?n\<rparr>))) = n_out ?n @ [Respond session c w']"
      by simp
    then have "serve_call env session c h peer w = Inr w'"
      by (simp add: serve_call_def Let_def n emit_def)
    with w'(2,3) None show ?thesis by (simp add: request_result_def decodeResultPayload_def)
  next
    case (Some e)
    from error_decodes [OF assms(1) assms(10) [OF Some], of session c] obtain w' e' where
      w': "error_out env session c (Some e) = [Respond session c w']" "decodeResult env w' = Inl e'"
        "\<forall>t. errors_Is e' t \<longleftrightarrow> find (errors_Is e) wire_sentinels = Some t" by blast
    with run Some have "n_out (c_node (run_task env [] (h ?task) ?task (peer\<lparr>c_node := ?n\<rparr>))) = n_out ?n @ [Respond session c w']"
      by simp
    then have "serve_call env session c h peer w = Inr w'"
      by (simp add: serve_call_def Let_def n emit_def)
    with w'(2,3) Some show ?thesis by (simp add: request_result_def)
  qed
qed

text \<open>
  C12. A synchronous call of a service on another node arrives as it was made and its answer as it
  was given: with a connected client, the service over there is handed exactly the source, target,
  message id and payload of the call, whatever the pooled request held before, and the call returns
  exactly the payload the handler returns; when the handler fails or panics the call returns an
  error that wraps the same sentinel, and drops the route exactly when the error says that the
  service is not there or the connection is broken.
\<close>

theorem remote_call_exact:
  assumes "packet_laws (packet env) enc" "proto_laws (proto env)" "intBits env \<le> 64"
    "reach (\<lambda>pool. pool = []) send_pool_step (sd_requests s)"
    "go_int (intBits env) (key_ID source)" "go_int (intBits env) (key_ID target)"
    "source = ServiceKey '''' 0 \<or> key_Name source \<noteq> '''' \<and> 0 < key_ID source"
    "key_Name target \<noteq> ''''" "0 < key_ID target"
    "mid = numericServiceMessageID m \<or> mid = stringServiceMessageID t" "messageID_validate mid = None"
    "\<And>request. initializeDeliverRequest new_DeliverSendRequest source target mid payload deliverRequestModeSync = Some request \<Longrightarrow>
       is_ok (proto_Marshal (proto env) (PbDeliverRequest request))"
    "registeredRemoteNode session (c_node peer) = Inr r" "go_get (n_localServices (c_node peer)) target \<noteq> None"
    "reply target (h (SyncTask source target mid payload (RpcResponder session c))) = (p, err)"
    "err = None \<Longrightarrow> is_ok (proto_Marshal (proto env) (PbDeliverResponse \<lparr>dp_Payload = p\<rparr>))"
    "\<And>e. err = Some e \<Longrightarrow> length (error_text (quote env) e) \<le> maxRPCStringSize"
  shows "\<exists>answer s'. call_sync_remote env pick pick' (Inr location) (\<lambda>_. Inr (True, serve_call env session c h peer))
       source target mid payload s = Some (answer, s') \<and>
     (case err of
        None \<Rightarrow> answer = Inr p \<and> sd_invalidated s' = sd_invalidated s
      | Some e \<Rightarrow> \<exists>e'. answer = Inl e' \<and> (\<forall>t. errors_Is e' t \<longleftrightarrow> find (errors_Is e) wire_sentinels = Some t) \<and>
          sd_invalidated s' = sd_invalidated s @ (if route_failed e' then [target] else []))"
proof -
  have mode: "deliverRequestModeSync \<in> {deliverRequestModeDirect, deliverRequestModeSync, deliverRequestModeAsync}" by simp
  obtain request where q: "initializeDeliverRequest new_DeliverSendRequest source target mid payload deliverRequestModeSync = Some request"
    "decodeDeliverRequest env request = Inr (source, target, mid, deliverRequestModeSync)" "dr_Payload request = payload"
    using initialized_decodes [OF assms(3,5-11) mode, of payload] by blast
  obtain b where "proto_Marshal (proto env) (PbDeliverRequest request) = Inr b" using assms(12) [OF q(1)] by (metis is_okE)
  with assms(2) obtain w where w: "encodeEnvelope env opDeliver (Msg (PbDeliverRequest request)) = Inr w"
    by (simp add: encodeEnvelope_Msg)
  from serve_call_reply [OF assms(1,2,13) w q(2) assms(14) known_valid [OF assms(11)], of h c p err] assms(15-17) q(3)
  obtain w' where w': "serve_call env session c h peer w = Inr w'"
     "case err of
        None \<Rightarrow> request_result env (un_DeliverResponse (proto env)) (Inr w') = Inr \<lparr>dp_Payload = p\<rparr>
      | Some e \<Rightarrow> \<exists>e'. request_result env (un_DeliverResponse (proto env)) (Inr w') = Inl e' \<and>
          (\<forall>t. errors_Is e' t \<longleftrightarrow> find (errors_Is e) wire_sentinels = Some t)" by auto
  obtain pool where pool: "acquireDeliverSendRequest pick (sd_requests s) = (new_DeliverSendRequest, pool)"
    using acquire_clean [OF assms(4), of pick] by (metis prod.collapse)
  obtain response pool' where pool': "acquireDeliverResponse pick' (sd_responses s) = (response, pool')" by force
  have "requestSync env True (serve_call env session c h peer) opDeliver (Msg (PbDeliverRequest request)) (un_DeliverResponse (proto env))
      = request_result env (un_DeliverResponse (proto env)) (Inr w')"
    using w w'(1) by (simp add: requestSync_def client_send_def)
  with w'(2) q(1) pool pool' show ?thesis
    by (cases err) (auto simp: call_sync_remote_def remote_client_def sd_invalidate_def Let_def)
qed

definition call_table :: "(pb_message \<times> string) list" where
  "call_table = [(PbDeliverRequest (the (initializeDeliverRequest new_DeliverSendRequest (ServiceKey ''gate'' 1)
       (ServiceKey ''room'' 1) (numericServiceMessageID 7) ''x'' deliverRequestModeSync)), ''q1''),
     (PbDeliverResponse \<lparr>dp_Payload = ''y''\<rparr>, ''a1'')]"

text \<open>The node of a room, with the session of the caller registered.\<close>

definition demo_room :: call_node where
  "demo_room = demo_calls\<lparr>c_node := (c_node demo_calls)\<lparr>
     n_sessions := [(7, \<lparr>rm_id = 2, rm_addr = '':2'', rm_session = 7, rm_timer = True, rm_active = True\<rparr>)],
     n_remoteNodes := [(2, 7)]\<rparr>\<rparr>"

definition demo_sender :: sender where
  "demo_sender = \<lparr>sd_requests = used_pool, sd_responses = [], sd_invalidated = []\<rparr>"

lemma used_pool_reach: "reach (\<lambda>pool. pool = []) send_pool_step used_pool"
proof -
  have "reach (\<lambda>pool. pool = []) send_pool_step []" by (rule reach_init) simp
  then show ?thesis
    by (rule reach_step [where e = "PoolPut (initializeDeliverRequest new_DeliverSendRequest
        (ServiceKey ''gate'' 1) (ServiceKey ''room'' 2) (stringServiceMessageID ''enter'') ''hello''
        deliverRequestModeSync)"])
      (simp add: send_pool_step_def used_pool_def)
qed

theorem remote_call_exact_witness:
  "\<exists>s'. call_sync_remote (table_env call_table) (Some 0) None (Inr (demo_location 1))
       (\<lambda>_. Inr (True, serve_call (table_env call_table) 7 5 (\<lambda>_. Returns ''y'' None) demo_room))
       (ServiceKey ''gate'' 1) (ServiceKey ''room'' 1) (numericServiceMessageID 7) ''x'' demo_sender = Some (Inr ''y'', s')"
proof -
  let ?h = "\<lambda>task :: service_task. Returns ''y'' None"
  have laws: "proto_laws (proto (table_env call_table))"
    by (simp add: call_table_def) (rule table_proto_laws, simp)
  have "registeredRemoteNode 7 (c_node demo_room) =
      Inr \<lparr>rm_id = 2, rm_addr = '':2'', rm_session = 7, rm_timer = True, rm_active = True\<rparr>"
    by (simp add: registeredRemoteNode_def remoteNodeFromSession_def demo_room_def go_get_def linked_def)
  moreover have "go_get (n_localServices (c_node demo_room)) (ServiceKey ''room'' 1) \<noteq> None"
    by (simp add: demo_room_def demo_calls_def go_get_def)
  moreover have "messageID_validate (numericServiceMessageID 7) = None"
    by (simp add: messageID_validate_def numericServiceMessageID_def)
  ultimately show ?thesis
    using remote_call_exact [OF _ laws, where enc = be16 and s = demo_sender and source = "ServiceKey ''gate'' 1"
        and target = "ServiceKey ''room'' 1" and mid = "numericServiceMessageID 7" and m = 7 and t = "''''" and payload = "''x''"
        and session = 7 and peer = demo_room and h = ?h and c = 5 and p = "''y''" and err = None and pick = "Some 0"
        and pick' = None and location = "demo_location 1"] used_pool_reach
    by (simp add: be_packet_laws demo_sender_def go_int_def reply_def call_table_def table_proto_def) blast
qed

section \<open>Sending\<close>

text \<open>\<^verbatim>\<open>send2Service\<close>.\<close>

definition send2Service ::
    "go_env \<Rightarrow> nat option \<Rightarrow> ServiceLocation result \<Rightarrow> (ServiceLocation \<Rightarrow> (bool \<times> net) result) \<Rightarrow>
     ServiceKey \<Rightarrow> ServiceKey \<Rightarrow> serviceMessageID \<Rightarrow> string \<Rightarrow> call_node \<times> sender \<Rightarrow>
     (gerror option \<times> call_node \<times> sender) option" where
  "send2Service env pick route client source target messageID payload st =
     (case st of (s, sd) \<Rightarrow>
        if \<not> operational s then Some (Some (Sentinel ErrNodeStopped), s, sd)
        else case messageID_validate messageID of
          Some err \<Rightarrow> Some (Some err, s, sd)
        | None \<Rightarrow>
            if go_get (n_localServices (c_node s)) target \<noteq> None
            then (case dispatchLocalDirect source target messageID payload (c_node s) of
                    (err, n) \<Rightarrow> Some (err,
                      (if err = None then post_service (DirectTask source target messageID payload) (s\<lparr>c_node := n\<rparr>)
                       else s\<lparr>c_node := n\<rparr>), sd))
            else map_option (\<lambda>(r, sd). ((case r of Inl err \<Rightarrow> Some err | Inr wpk \<Rightarrow> None), s, sd))
                   (send_remote env pick route client source target messageID payload sd))"

lemma pool_cycle:
  assumes "reach (\<lambda>pool. pool = []) send_pool_step pool" "acquireDeliverSendRequest pick pool = (request, pool1)"
  shows "reach (\<lambda>pool. pool = []) send_pool_step (releaseDeliverSendRequest r pool1)"
proof -
  have "send_pool_step pool (PoolGet pick) pool1" using assms(2) by (simp add: send_pool_step_def)
  from reach_step [OF assms(1) this] show ?thesis
    by (rule reach_step [where e = "PoolPut r"]) (simp add: send_pool_step_def)
qed



end
