(* ===== verification/Public_Api.thy ===== *)
theory Public_Api
  imports Remote_Call Restore Logger
begin

text \<open>
  What users of the framework call: the public methods of \<^verbatim>\<open>Node\<close> in \<^verbatim>\<open>node.go\<close> and \<^verbatim>\<open>BaseService\<close> in
  \<^verbatim>\<open>service.go\<close>, and where the callback of an asynchronous call runs.
\<close>

section \<open>BaseService\<close>

text \<open>\<open>bs_node\<close> is whether the pointer to the node is set.\<close>

record 'l BaseService =
  bs_node :: bool
  bs_config :: ServiceConfig
  bs_loopSize :: int
  bs_loopFullWarn :: bool
  bs_logger :: "'l Logger option"

text \<open>\<open>node\<close> is the logger of the node, or \<open>None\<close> for a nil node.\<close>

definition NewBaseService :: "int \<Rightarrow> 'l Logger option \<Rightarrow> ServiceConfig \<Rightarrow> 'l BaseService" where
  "NewBaseService LoopSizeMin node config =
     \<lparr>bs_node = (node \<noteq> None), bs_config = config,
      bs_loopSize = (case sc_Loop config of None \<Rightarrow> LoopSizeMin | Some l \<Rightarrow> loop_Size l),
      bs_loopFullWarn = (case sc_Loop config of None \<Rightarrow> True | Some l \<Rightarrow> loop_FullWarn l),
      bs_logger = (if node \<noteq> None
        then WithLogFields node [\<lparr>field_Key = ''service'', field_Value = LogStr (sc_Name config)\<rparr>,
          \<lparr>field_Key = ''service_id'', field_Value = LogInt (sc_ID config)\<rparr>]
        else None)\<rparr>"

definition bs_key :: "'l BaseService \<Rightarrow> ServiceKey" where
  "bs_key b = ServiceKey (sc_Name (bs_config b)) (sc_ID (bs_config b))"

definition base_Subscribe ::
    "(main_request \<Rightarrow> gerror option) \<Rightarrow> 'l BaseService \<Rightarrow> string \<Rightarrow> call_node \<Rightarrow> gerror option \<times> call_node" where
  "base_Subscribe main_answer b serviceName s =
     (if \<not> bs_node b then (Some (Sentinel ErrNodeStopped), s)
      else subscribeService main_answer (bs_key b) serviceName s)"

section \<open>Sending\<close>

text \<open>A sender outside the services has the empty key.\<close>

definition no_source :: ServiceKey where
  "no_source = ServiceKey '''' 0"

text \<open>\<open>send\<close> is \<open>send2Service\<close> with its environment.\<close>

type_synonym 's sending = "ServiceKey \<Rightarrow> ServiceKey \<Rightarrow> serviceMessageID \<Rightarrow> string \<Rightarrow> 's \<Rightarrow> (gerror option \<times> 's) option"

definition node_Send2Service :: "'s sending \<Rightarrow> string \<Rightarrow> int \<Rightarrow> 32 word \<Rightarrow> string \<Rightarrow> 's \<Rightarrow> (gerror option \<times> 's) option" where
  "node_Send2Service send serviceName serviceID messageID payload st =
     send no_source (ServiceKey serviceName serviceID) (numericServiceMessageID messageID) payload st"

definition node_Send2ServiceString :: "'s sending \<Rightarrow> string \<Rightarrow> int \<Rightarrow> string \<Rightarrow> string \<Rightarrow> 's \<Rightarrow> (gerror option \<times> 's) option" where
  "node_Send2ServiceString send serviceName serviceID messageID payload st =
     send no_source (ServiceKey serviceName serviceID) (stringServiceMessageID messageID) payload st"

definition base_Send2Service ::
    "'s sending \<Rightarrow> 'l BaseService \<Rightarrow> string \<Rightarrow> int \<Rightarrow> 32 word \<Rightarrow> string \<Rightarrow> 's \<Rightarrow> (gerror option \<times> 's) option" where
  "base_Send2Service send b serviceName serviceID messageID payload st =
     (if \<not> bs_node b then Some (Some (Sentinel ErrNodeStopped), st)
      else send (bs_key b) (ServiceKey serviceName serviceID) (numericServiceMessageID messageID) payload st)"

definition base_Send2ServiceString ::
    "'s sending \<Rightarrow> 'l BaseService \<Rightarrow> string \<Rightarrow> int \<Rightarrow> string \<Rightarrow> string \<Rightarrow> 's \<Rightarrow> (gerror option \<times> 's) option" where
  "base_Send2ServiceString send b serviceName serviceID messageID payload st =
     (if \<not> bs_node b then Some (Some (Sentinel ErrNodeStopped), st)
      else send (bs_key b) (ServiceKey serviceName serviceID) (stringServiceMessageID messageID) payload st)"

section \<open>Calling\<close>

text \<open>
  Where the callback of a call runs: a call of the node starts a goroutine for it, a call of a
  service posts it to the loop of that service.
\<close>

datatype callback_route = OnGoroutine | OnLoop ServiceKey

text \<open>
  \<open>a_routes\<close> are the routes of the local calls by their index. \<open>a_pending\<close> are the goroutines started
  and the closures posted that have not run their callback yet, \<open>a_ran\<close> those that have;
  \<open>a_delivered\<close> is history: all results that were delivered, in order.
\<close>

record api =
  a_calls :: call_node
  a_routes :: "callback_route list"
  a_pending :: "(nat \<times> response) list"
  a_ran :: "(nat \<times> response) list"
  a_delivered :: "(nat \<times> response) list"

text \<open>
  \<^verbatim>\<open>callServiceAsync\<close> and \<^verbatim>\<open>callServiceSync\<close> with a closure of the given route; \<open>remote\<close> is their path
  to another node.
\<close>

definition api_call ::
    "bool \<Rightarrow> callback_route \<Rightarrow> ServiceKey \<Rightarrow> ServiceKey \<Rightarrow> serviceMessageID \<Rightarrow> string \<Rightarrow>
     (call_node \<Rightarrow> gerror option \<times> call_node) \<Rightarrow> api \<Rightarrow> gerror option \<times> api" where
  "api_call sync route source target messageID payload remote a =
     (case call_checked sync True source target messageID payload remote (a_calls a) of
        (err, s) \<Rightarrow> (err, a\<lparr>a_calls := s,
          a_routes := a_routes a @ replicate (length (c_calls s) - length (c_calls (a_calls a))) route\<rparr>))"

definition nil_callback :: gerror where
  "nil_callback = Errorf ''service call callback is nil'' []"

type_synonym remote_path = "call_node \<Rightarrow> gerror option \<times> call_node"

definition node_CallServiceAsync ::
    "remote_path \<Rightarrow> string \<Rightarrow> int \<Rightarrow> 32 word \<Rightarrow> string \<Rightarrow> bool \<Rightarrow> api \<Rightarrow> gerror option \<times> api" where
  "node_CallServiceAsync remote serviceName serviceID messageID payload callback a =
     (if \<not> callback then (Some nil_callback, a)
      else api_call False OnGoroutine no_source (ServiceKey serviceName serviceID) (numericServiceMessageID messageID) payload remote a)"

definition node_CallServiceStringAsync ::
    "remote_path \<Rightarrow> string \<Rightarrow> int \<Rightarrow> string \<Rightarrow> string \<Rightarrow> bool \<Rightarrow> api \<Rightarrow> gerror option \<times> api" where
  "node_CallServiceStringAsync remote serviceName serviceID messageID payload callback a =
     (if \<not> callback then (Some nil_callback, a)
      else api_call False OnGoroutine no_source (ServiceKey serviceName serviceID) (stringServiceMessageID messageID) payload remote a)"

definition node_CallServiceSync :: "remote_path \<Rightarrow> string \<Rightarrow> int \<Rightarrow> 32 word \<Rightarrow> string \<Rightarrow> api \<Rightarrow> gerror option \<times> api" where
  "node_CallServiceSync remote serviceName serviceID messageID payload a =
     api_call True OnGoroutine no_source (ServiceKey serviceName serviceID) (numericServiceMessageID messageID) payload remote a"

definition node_CallServiceSyncString :: "remote_path \<Rightarrow> string \<Rightarrow> int \<Rightarrow> string \<Rightarrow> string \<Rightarrow> api \<Rightarrow> gerror option \<times> api" where
  "node_CallServiceSyncString remote serviceName serviceID messageID payload a =
     api_call True OnGoroutine no_source (ServiceKey serviceName serviceID) (stringServiceMessageID messageID) payload remote a"

definition base_CallServiceAsync ::
    "remote_path \<Rightarrow> 'l BaseService \<Rightarrow> string \<Rightarrow> int \<Rightarrow> 32 word \<Rightarrow> string \<Rightarrow> bool \<Rightarrow> api \<Rightarrow> gerror option \<times> api" where
  "base_CallServiceAsync remote b serviceName serviceID messageID payload callback a =
     (if \<not> callback then (Some nil_callback, a)
      else if \<not> bs_node b then (Some (Sentinel ErrNodeStopped), a)
      else api_call False (OnLoop (bs_key b)) (bs_key b) (ServiceKey serviceName serviceID)
        (numericServiceMessageID messageID) payload remote a)"

definition base_CallServiceStringAsync ::
    "remote_path \<Rightarrow> 'l BaseService \<Rightarrow> string \<Rightarrow> int \<Rightarrow> string \<Rightarrow> string \<Rightarrow> bool \<Rightarrow> api \<Rightarrow> gerror option \<times> api" where
  "base_CallServiceStringAsync remote b serviceName serviceID messageID payload callback a =
     (if \<not> callback then (Some nil_callback, a)
      else if \<not> bs_node b then (Some (Sentinel ErrNodeStopped), a)
      else api_call False (OnLoop (bs_key b)) (bs_key b) (ServiceKey serviceName serviceID)
        (stringServiceMessageID messageID) payload remote a)"

definition base_CallServiceSync ::
    "remote_path \<Rightarrow> 'l BaseService \<Rightarrow> string \<Rightarrow> int \<Rightarrow> 32 word \<Rightarrow> string \<Rightarrow> api \<Rightarrow> gerror option \<times> api" where
  "base_CallServiceSync remote b serviceName serviceID messageID payload a =
     (if \<not> bs_node b then (Some (Sentinel ErrNodeStopped), a)
      else api_call True (OnLoop (bs_key b)) (bs_key b) (ServiceKey serviceName serviceID)
        (numericServiceMessageID messageID) payload remote a)"

definition base_CallServiceSyncString ::
    "remote_path \<Rightarrow> 'l BaseService \<Rightarrow> string \<Rightarrow> int \<Rightarrow> string \<Rightarrow> string \<Rightarrow> api \<Rightarrow> gerror option \<times> api" where
  "base_CallServiceSyncString remote b serviceName serviceID messageID payload a =
     (if \<not> bs_node b then (Some (Sentinel ErrNodeStopped), a)
      else api_call True (OnLoop (bs_key b)) (bs_key b) (ServiceKey serviceName serviceID)
        (stringServiceMessageID messageID) payload remote a)"

section \<open>Steps\<close>

definition route_of :: "api \<Rightarrow> nat \<times> response \<Rightarrow> callback_route" where
  "route_of a x = a_routes a ! fst x"

text \<open>The delivery of a result: the closure given to \<^verbatim>\<open>callServiceAsync\<close> starts the goroutine or posts.\<close>

definition api_deliver :: "nat \<Rightarrow> response \<Rightarrow> api \<Rightarrow> api" where
  "api_deliver k r a =
     (let b = a\<lparr>a_calls := deliver k r (a_calls a)\<rparr>
      in if ca_sync (c_calls (a_calls a) ! k) then b
         else b\<lparr>a_pending := a_pending a @ [(k, r)], a_delivered := a_delivered a @ [(k, r)]\<rparr>)"

text \<open>The goroutine recovers from a panic of the callback; a panic on a loop is left to the loop.\<close>

definition callback_end :: "callback_route \<Rightarrow> outcome \<Rightarrow> call_node \<Rightarrow> call_node" where
  "callback_end route res s =
     (case (route, res) of
        (OnGoroutine, Panics v stack) \<Rightarrow>
          c_report (Some (Errorf (''service call callback panic: %v'' @ [CHR 0x0A] @ ''%s'') [ArgS v, ArgS stack])) s
      | _ \<Rightarrow> s)"

definition run_callback :: "nat \<Rightarrow> outcome \<Rightarrow> api \<Rightarrow> api" where
  "run_callback i res a = a\<lparr>a_calls := callback_end (route_of a (a_pending a ! i)) res (a_calls a),
     a_pending := drop_nth i (a_pending a), a_ran := a_ran a @ [a_pending a ! i]\<rparr>"

datatype api_event =
    ApiCall bool callback_route ServiceKey ServiceKey serviceMessageID string
  | ApiDeliver nat
  | ApiOther call_event
  | ApiCallback nat outcome

fun other_event :: "call_event \<Rightarrow> bool" where
  "other_event (CallLocal sync callback source target messageID payload) = False"
| "other_event (Deliver k) = False"
| "other_event _ = True"

text \<open>A loop runs its closures in the order of the posts; goroutines run in any order.\<close>

inductive api_step :: "go_env \<Rightarrow> api \<Rightarrow> api_event \<Rightarrow> api \<Rightarrow> bool" for env where
  step_Call: "go_get (n_localServices (c_node (a_calls a))) target \<noteq> None \<Longrightarrow>
     api_call sync route source target messageID payload (\<lambda>s. (None, s)) a = (err, b) \<Longrightarrow>
     api_step env a (ApiCall sync route source target messageID payload) b"
| step_Deliver: "k < length (c_calls (a_calls a)) \<Longrightarrow> ca_winner (c_calls (a_calls a) ! k) = Some r \<Longrightarrow>
     api_step env a (ApiDeliver k) (api_deliver k r a)"
| step_Other: "other_event e \<Longrightarrow> call_step env (a_calls a) e s \<Longrightarrow> api_step env a (ApiOther e) (a\<lparr>a_calls := s\<rparr>)"
| step_Callback: "i < length (a_pending a) \<Longrightarrow>
     (\<And>j key. j < i \<Longrightarrow> route_of a (a_pending a ! i) = OnLoop key \<Longrightarrow> route_of a (a_pending a ! j) \<noteq> OnLoop key) \<Longrightarrow>
     api_step env a (ApiCallback i res) (run_callback i res a)"

definition api_init :: "api \<Rightarrow> bool" where
  "api_init a \<longleftrightarrow> call_init (a_calls a) \<and> a_routes a = [] \<and> a_pending a = [] \<and> a_ran a = [] \<and> a_delivered a = []"

abbreviation api_reach :: "go_env \<Rightarrow> api \<Rightarrow> bool" where
  "api_reach env \<equiv> reach api_init (api_step env)"

section \<open>What the steps do to the calls\<close>

definition results_of :: "call_node \<Rightarrow> (bool \<times> response list) list" where
  "results_of s = map (\<lambda>c. (ca_sync c, ca_results c)) (c_calls s)"

lemma results_upd:
  assumes "\<And>c. ca_sync (f c) = ca_sync c" "\<And>c. ca_results (f c) = ca_results c"
  shows "results_of (upd_call k f s) = results_of s"
proof (cases "k < length (c_calls s)")
  case True
  then show ?thesis
    by (intro nth_equalityI) (auto simp: results_of_def upd_call_def nth_upd assms)
qed (simp add: results_of_def upd_call_def list_update_beyond)

lemma results_frame: "c_calls t = c_calls s \<Longrightarrow> results_of t = results_of s"
  by (simp add: results_of_def)

lemma results_simps [simp]:
  "results_of (c_report e s) = results_of s" "results_of (post_service t s) = results_of s"
  "results_of (s\<lparr>c_queue := q\<rparr>) = results_of s" "results_of (s\<lparr>c_live := l\<rparr>) = results_of s"
  "results_of (s\<lparr>c_node := n\<rparr>) = results_of s" "results_of (s\<lparr>c_invoked := r'\<rparr>) = results_of s"
  by (simp_all add: results_of_def c_report_def post_service_def)

lemma results_calls [simp]:
  "results_of (cancel_call k s) = results_of s" "results_of (timer_fire k s) = results_of s"
  "results_of (sync_receive k r s) = results_of s" "results_of (sync_stopped k s) = results_of s"
  by (simp_all add: cancel_call_def timer_fire_def sync_receive_def sync_stopped_def Let_def results_upd)

lemma results_invoke: "invoke env r x s = (err, t) \<Longrightarrow> results_of t = results_of s"
  by (cases r) (auto simp: invoke_def Let_def call_responder_def results_upd split: prod.splits option.splits if_splits)

lemma results_invoked [simp]: "results_of (snd (invoke env r x s)) = results_of s"
  by (rule results_invoke [OF prod.collapse [symmetric]])

lemma results_respondOnce [simp]: "results_of (respondOnce env i r s) = results_of s"
proof (cases "c_live s ! i")
  case (Pair task responded)
  then show ?thesis by (cases task) (simp_all add: respondOnce_def case_prod_beta)
qed

lemma results_responses [simp]: "results_of (fold (respondOnce env i) made s) = results_of s"
  by (induction made arbitrary: s) simp_all

lemma results_run_task [simp]: "results_of (run_task env made res task s) = results_of s"
  by (cases task) (simp_all add: run_task_def Let_def case_prod_beta split: outcome.split option.split)

lemma results_call_checked:
  assumes "call_checked sync callback source target messageID payload (\<lambda>s. (None, s)) s = (err, t)"
  shows "results_of t = results_of s \<or> results_of t = results_of s @ [(sync, [])]"
proof -
  have new: "results_of (s'\<lparr>c_calls := c_calls s' @ [new_call target sync], c_node := n\<rparr>) = results_of s' @ [(sync, [])]" for s' n
    by (simp add: results_of_def new_call_def)
  from assms new show ?thesis
    by (auto simp: call_checked_def call_local_def Let_def split: option.splits if_splits prod.splits)
qed

lemma results_other: "other_event e \<Longrightarrow> call_step env s e t \<Longrightarrow> results_of t = results_of s"
  by (erule call_step.cases) (simp_all add: results_of_def [of "_\<lparr>c_wheel := _, c_state := _\<rparr>"] results_of_def [of "_\<lparr>c_state := _\<rparr>"]
      results_of_def [of "_\<lparr>c_callStop := _\<rparr>"] results_of_def [of s])

section \<open>Callbacks\<close>

lemma length_results [simp]: "length (results_of s) = length (c_calls s)"
  by (simp add: results_of_def)

definition on_loop :: "callback_route list \<Rightarrow> ServiceKey \<Rightarrow> nat \<times> response \<Rightarrow> bool" where
  "on_loop routes key x \<longleftrightarrow> routes ! fst x = OnLoop key"

text \<open>
  The callbacks against the results of the calls: every delivered result is waits or has run,
  those of one loop in order, and the results delivered for a call are those of the call.
\<close>

definition delivered_ok :: "callback_route list \<Rightarrow> (nat \<times> response) list \<Rightarrow> (nat \<times> response) list \<Rightarrow> (nat \<times> response) list \<Rightarrow> bool" where
  "delivered_ok routes finished waits delivered \<longleftrightarrow>
     (\<forall>x \<in> set delivered. fst x < length routes) \<and> mset finished + mset waits = mset delivered \<and>
     (\<forall>key. filter (on_loop routes key) finished @ filter (on_loop routes key) waits = filter (on_loop routes key) delivered)"

definition results_ok :: "(bool \<times> response list) list \<Rightarrow> (nat \<times> response) list \<Rightarrow> bool" where
  "results_ok rs delivered \<longleftrightarrow>
     (\<forall>k. map snd (filter (\<lambda>x. fst x = k) delivered) =
        (if k < length rs \<and> \<not> fst (rs ! k) then snd (rs ! k) else []))"

definition api_inv :: "api \<Rightarrow> bool" where
  "api_inv a \<longleftrightarrow> call_all (a_calls a) \<and> length (a_routes a) = length (c_calls (a_calls a)) \<and>
     delivered_ok (a_routes a) (a_ran a) (a_pending a) (a_delivered a) \<and>
     results_ok (results_of (a_calls a)) (a_delivered a)"

lemma delivered_grow:
  assumes "delivered_ok routes finished waits delivered"
  shows "delivered_ok (routes @ later) finished waits delivered"
proof -
  from assms have "mset finished + mset waits = mset delivered" by (simp add: delivered_ok_def)
  then have "set finished \<union> set waits = set delivered" by (metis set_mset_mset set_mset_union)
  with assms have len: "\<forall>x \<in> set finished \<union> set waits \<union> set delivered. fst x < length routes"
    by (auto simp: delivered_ok_def)
  then have "filter (on_loop (routes @ later) key) xs = filter (on_loop routes key) xs"
    if "xs \<in> {finished, waits, delivered}" for key xs
    using that by (intro filter_cong) (auto simp: on_loop_def nth_append)
  with assms show ?thesis by (force simp: delivered_ok_def)
qed

lemma delivered_snoc:
  assumes "delivered_ok routes finished waits delivered" "fst x < length routes"
  shows "delivered_ok routes finished (waits @ [x]) (delivered @ [x])"
  using assms by (auto simp: delivered_ok_def)

lemma filter_first:
  assumes "i < length xs" "P (xs ! i)" "\<And>j. j < i \<Longrightarrow> \<not> P (xs ! j)"
  shows "filter P xs = xs ! i # filter P (drop_nth i xs)"
proof -
  have "filter P (take i xs) = []" using assms(1,3) by (auto simp: filter_empty_conv in_set_conv_nth)
  with assms(1,2) show ?thesis
    by (subst id_take_nth_drop [OF assms(1)]) (simp add: drop_nth_def)
qed

lemma filter_skip:
  assumes "i < length xs" "\<not> P (xs ! i)"
  shows "filter P xs = filter P (drop_nth i xs)"
  using assms by (subst id_take_nth_drop [OF assms(1)]) (simp add: drop_nth_def)

lemma mset_drop_nth: "i < length xs \<Longrightarrow> mset xs = add_mset (xs ! i) (mset (drop_nth i xs))"
  by (subst id_take_nth_drop [of i xs]) (simp_all add: drop_nth_def)

lemma delivered_run:
  assumes "delivered_ok routes finished waits delivered" "i < length waits"
    "\<And>j key. j < i \<Longrightarrow> on_loop routes key (waits ! i) \<Longrightarrow> \<not> on_loop routes key (waits ! j)"
  shows "delivered_ok routes (finished @ [waits ! i]) (drop_nth i waits) delivered"
proof -
  have "filter (on_loop routes key) (finished @ [waits ! i]) @ filter (on_loop routes key) (drop_nth i waits) =
      filter (on_loop routes key) finished @ filter (on_loop routes key) waits" for key
  proof (cases "on_loop routes key (waits ! i)")
    case True
    with filter_first [OF assms(2), of "on_loop routes key"] assms(3) show ?thesis by simp
  next
    case False
    with filter_skip [OF assms(2), of "on_loop routes key"] show ?thesis by simp
  qed
  with assms(1) mset_drop_nth [OF assms(2)] show ?thesis by (simp add: delivered_ok_def)
qed

lemma results_snoc: "results_ok rs delivered \<Longrightarrow> results_ok (rs @ [(sync, [])]) delivered"
  by (auto simp: results_ok_def nth_append)

lemma results_deliver:
  assumes "results_ok (results_of s) delivered" "k < length (c_calls s)"
  shows "results_ok (results_of (deliver k r s)) (if ca_sync (c_calls s ! k) then delivered else delivered @ [(k, r)])"
  using assms by (auto simp: results_ok_def results_of_def deliver_def upd_call_def nth_upd)

lemma call_all_report [simp]: "call_all (c_report e s) = call_all s"
  by (simp add: call_all_def call_inv_def outstanding_def)

lemma callback_end_frame [simp]:
  "call_all (callback_end route res s) = call_all s" "results_of (callback_end route res s) = results_of s"
  "c_calls (callback_end route res s) = c_calls s"
  by (simp_all add: callback_end_def split: callback_route.split outcome.split)

lemma api_inv_step:
  assumes "api_inv a" "api_step env a e b"
  shows "api_inv b"
  using assms(2)
proof (cases rule: api_step.cases)
  case (step_Call target sync route source messageID payload err)
  then obtain s where s: "call_checked sync True source target messageID payload (\<lambda>s. (None, s)) (a_calls a) = (err, s)"
    "b = a\<lparr>a_calls := s, a_routes := a_routes a @ replicate (length (c_calls s) - length (c_calls (a_calls a))) route\<rparr>"
    by (auto simp: api_call_def split: prod.splits)
  have "call_all s" using calls.inv_step [OF _ call_CallLocal [OF step_Call(2) s(1)]] assms(1) by (simp add: api_inv_def)
  moreover have "length (c_calls s) \<ge> length (c_calls (a_calls a))"
    using results_call_checked [OF s(1)] by (auto dest!: arg_cong [where f = length])
  moreover have "results_ok (results_of s) (a_delivered a)"
    using results_call_checked [OF s(1)] assms(1) results_snoc by (auto simp: api_inv_def)
  ultimately show ?thesis using assms(1) delivered_grow by (simp add: api_inv_def s(2))
next
  case (step_Deliver k r)
  have "call_all (deliver k r (a_calls a))"
    using calls.inv_step [OF _ call_Deliver [OF step_Deliver(3,4)]] assms(1) by (simp add: api_inv_def)
  moreover have "length (c_calls (deliver k r (a_calls a))) = length (c_calls (a_calls a))" by (simp add: deliver_def)
  ultimately show ?thesis
    using assms(1) results_deliver [of "a_calls a" "a_delivered a" k r] step_Deliver delivered_snoc [of "a_routes a" _ _ _ "(k, r)"]
    by (auto simp: api_inv_def api_deliver_def Let_def split: if_splits)
next
  case (step_Other e s)
  have "results_of s = results_of (a_calls a)" using results_other [OF step_Other(3,4)] .
  moreover from this have "length (c_calls s) = length (c_calls (a_calls a))" by (metis length_results)
  moreover have "call_all s" using calls.inv_step [OF _ step_Other(4)] assms(1) by (auto simp: api_inv_def)
  ultimately show ?thesis using assms(1) step_Other by (simp add: api_inv_def)
next
  case (step_Callback i res)
  with assms(1) delivered_run [of "a_routes a" "a_ran a" "a_pending a" "a_delivered a" i] show ?thesis
    by (auto simp: api_inv_def run_callback_def on_loop_def route_of_def)
qed

interpretation api_calls: inductive_invariant api_init "api_step env" api_inv for env
proof unfold_locales
  fix a assume "api_init a"
  then show "api_inv a"
    using calls.inv_init by (auto simp: api_init_def api_inv_def call_init_def delivered_ok_def results_ok_def)
qed (rule api_inv_step)


text \<open>The steps as a function, to compute runs.\<close>

fun api_exec :: "go_env \<Rightarrow> api \<Rightarrow> api_event \<Rightarrow> api option" where
  "api_exec env a (ApiCall sync route source target messageID payload) =
     (if go_get (n_localServices (c_node (a_calls a))) target \<noteq> None
      then Some (snd (api_call sync route source target messageID payload (\<lambda>s. (None, s)) a)) else None)"
| "api_exec env a (ApiDeliver k) =
     (if k < length (c_calls (a_calls a))
      then map_option (\<lambda>r. api_deliver k r a) (ca_winner (c_calls (a_calls a) ! k)) else None)"
| "api_exec env a (ApiOther e) =
     (if other_event e then map_option (\<lambda>s. a\<lparr>a_calls := s\<rparr>) (call_exec env (a_calls a) e) else None)"
| "api_exec env a (ApiCallback i res) =
     (if i < length (a_pending a) \<and> list_all (\<lambda>y. route_of a y \<noteq> route_of a (a_pending a ! i)) (take i (a_pending a))
      then Some (run_callback i res a) else None)"

lemma api_exec_step: "api_exec env a e = Some b \<Longrightarrow> api_step env a e b"
proof (cases e)
  case (ApiCallback i res)
  assume "api_exec env a e = Some b"
  with ApiCallback have i: "i < length (a_pending a)" "b = run_callback i res a"
    "\<forall>y \<in> set (take i (a_pending a)). route_of a y \<noteq> route_of a (a_pending a ! i)"
    by (auto simp: list_all_iff split: if_splits)
  have "route_of a (a_pending a ! j) \<noteq> OnLoop key" if "j < i" "route_of a (a_pending a ! i) = OnLoop key" for j key
    using i that by (metis in_set_conv_nth length_take min.absorb4 nth_take)
  with i(1) show ?thesis unfolding ApiCallback i(2) by (rule step_Callback)
qed (auto split: if_splits intro!: api_step.intros call_exec_step prod.collapse [symmetric])

fun api_run :: "go_env \<Rightarrow> api \<Rightarrow> api_event list \<Rightarrow> api option" where
  "api_run env a [] = Some a"
| "api_run env a (e # es) = (case api_exec env a e of None \<Rightarrow> None | Some b \<Rightarrow> api_run env b es)"

lemma api_run_reach: "api_reach env a \<Longrightarrow> api_run env a es = Some b \<Longrightarrow> api_reach env b"
  by (induction es arbitrary: a) (auto split: option.splits intro: reach_step api_exec_step)

text \<open>A service calls another one twice; the second call is answered first.\<close>

definition demo_api :: api where
  "demo_api = \<lparr>a_calls = demo_calls, a_routes = [], a_pending = [], a_ran = [], a_delivered = []\<rparr>"

definition demo_api_events :: "api_event list" where
  "demo_api_events = [ApiOther NodeStarts, ApiOther NodeRuns,
     ApiCall False (OnLoop (ServiceKey ''gate'' 1)) (ServiceKey ''gate'' 1) (ServiceKey ''room'' 1) (numericServiceMessageID 7) ''a'',
     ApiCall False (OnLoop (ServiceKey ''gate'' 1)) (ServiceKey ''gate'' 1) (ServiceKey ''room'' 1) (numericServiceMessageID 8) ''b'',
     ApiOther (RunTask 0 [] (Returns '''' None)), ApiOther (RunTask 0 [(''y'', None)] (Returns '''' None)), ApiDeliver 1,
     ApiOther (TimerFires 0), ApiDeliver 0, ApiCallback 0 (Returns '''' None)]"

definition demo_called_back :: api where
  "demo_called_back = the (api_run demo_env demo_api demo_api_events)"

lemma demo_called_back_reach: "api_reach demo_env demo_called_back"
proof -
  have "api_run demo_env demo_api demo_api_events \<noteq> None" by code_simp
  then have "api_run demo_env demo_api demo_api_events = Some demo_called_back" by (auto simp: demo_called_back_def)
  moreover have "api_init demo_api" by (simp add: api_init_def demo_api_def demo_calls_def call_init_def)
  ultimately show ?thesis using api_run_reach reach_init by metis
qed


end
